(* ===== verification/Prelude.thy ===== *)
theory Prelude
  imports Main "HOL-Library.Word"
begin

unbundle bit_operations_syntax

text \<open>
  Shared ground of the development: the machine integers of the Rust source
  (\<open>u8\<close>, \<open>u16\<close>, \<open>u32\<close>, \<open>u64\<close> as words, \<open>usize\<close> as \<open>nat\<close> where the code cannot
  overflow it, \<open>i32\<close> as \<open>int\<close> with its wrap-around written out), byte strings as
  lists of 8-bit words, big-endian byte conversion, \<open>Result\<close> as a sum with the error
  on the left, and the generic list and word lemmas the components share.
\<close>

section \<open>Machine integers and byte strings\<close>

type_synonym u8 = "8 word"
type_synonym u16 = "16 word"
type_synonym u32 = "32 word"
type_synonym u64 = "64 word"
type_synonym bytes = "8 word list"

named_theorems wire_simps \<open>equations that evaluate the byte-level encoders and decoders\<close>
named_theorems inv_intros \<open>an operation keeps the invariant of its component\<close>

text \<open>A Rust byte-string literal \<open>b"..."\<close>.\<close>

definition ascii :: "string \<Rightarrow> bytes" where
  "ascii s = map of_char s"

lemma ascii_Nil [simp]: "ascii [] = []"
  by (simp add: ascii_def)

lemma ascii_Cons [simp]: "ascii (c # s) = of_char c # ascii s"
  by (simp add: ascii_def)

lemma ascii_append [simp]: "ascii (s @ t) = ascii s @ ascii t"
  by (simp add: ascii_def)

lemma length_ascii [simp]: "length (ascii s) = length s"
  by (simp add: ascii_def)

text \<open>\<open>u16::to_be_bytes\<close>, \<open>u32::to_be_bytes\<close> and their inverses.\<close>

definition u16_to_be :: "u16 \<Rightarrow> bytes" where
  "u16_to_be w = [ucast (drop_bit 8 w), ucast w]"

definition u16_from_be :: "u8 \<Rightarrow> u8 \<Rightarrow> u16" where
  "u16_from_be a b = push_bit 8 (ucast a) OR ucast b"

definition u32_to_be :: "u32 \<Rightarrow> bytes" where
  "u32_to_be w = [ucast (drop_bit 24 w), ucast (drop_bit 16 w), ucast (drop_bit 8 w), ucast w]"

definition u32_from_be :: "u8 \<Rightarrow> u8 \<Rightarrow> u8 \<Rightarrow> u8 \<Rightarrow> u32" where
  "u32_from_be a b c d =
     push_bit 24 (ucast a) OR push_bit 16 (ucast b) OR push_bit 8 (ucast c) OR ucast d"

lemma length_u16_to_be [simp]: "length (u16_to_be w) = 2"
  by (simp add: u16_to_be_def)

lemma length_u32_to_be [simp]: "length (u32_to_be w) = 4"
  by (simp add: u32_to_be_def)

lemma u16_from_to_be [simp]: "u16_from_be (ucast (drop_bit 8 w)) (ucast w) = w"
  by (rule bit_word_eqI) (auto simp: u16_from_be_def bit_simps)

lemma u32_from_to_be [simp]:
  "u32_from_be (ucast (drop_bit 24 w)) (ucast (drop_bit 16 w)) (ucast (drop_bit 8 w)) (ucast w) = w"
proof (rule bit_word_eqI)
  fix n :: nat
  assume "n < LENGTH(32)"
  then show "bit (u32_from_be (ucast (drop_bit 24 w)) (ucast (drop_bit 16 w))
      (ucast (drop_bit 8 w)) (ucast w)) n = bit w n"
    by (cases "n < 8"; cases "n < 16"; cases "n < 24")
      (auto simp: u32_from_be_def bit_simps le_add_diff_inverse)
qed

lemma u8_bit_high [simp]: "8 \<le> n \<Longrightarrow> bit (b :: u8) n = False"
  using bit_imp_le_length [of b n] by auto

lemma u32_to_from_be [simp]: "u32_to_be (u32_from_be a b c d) = [a, b, c, d]"
  unfolding u32_to_be_def u32_from_be_def
  by (auto intro!: bit_word_eqI simp: bit_simps)

section \<open>Decimal display\<close>

text \<open>\<open>ToString\<close> for the unsigned integers.\<close>

definition digit_char :: "nat \<Rightarrow> char" where
  "digit_char d = char_of (48 + d)"

fun show_nat :: "nat \<Rightarrow> string" where
  "show_nat n = (if n < 10 then [digit_char n] else show_nat (n div 10) @ [digit_char (n mod 10)])"

declare show_nat.simps [simp del]

lemma show_nat_nonempty [simp]: "show_nat n \<noteq> []"
  by (subst show_nat.simps) simp

section \<open>Results\<close>

text \<open>
  A Rust \<open>Result<T, E>\<close> is a sum with the error on the left; the operator \<open>?\<close> is
  \<open>bind_res\<close>.
\<close>

fun bind_res :: "'e + 'a \<Rightarrow> ('a \<Rightarrow> 'e + 'b) \<Rightarrow> 'e + 'b" where
  "bind_res (Inl e) f = Inl e"
| "bind_res (Inr a) f = f a"

lemma bind_res_Inr_iff [simp]: "(bind_res r f = Inr b) = (\<exists>a. r = Inr a \<and> f a = Inr b)"
  by (cases r) auto

lemma bind_res_Inl_iff:
  "(bind_res r f = Inl e) = (r = Inl e \<or> (\<exists>a. r = Inr a \<and> f a = Inl e))"
  by (cases r) auto

lemma bind_res_cong [fundef_cong]:
  assumes "r = r'" and "\<And>a. r' = Inr a \<Longrightarrow> f a = g a"
  shows "bind_res r f = bind_res r' g"
  using assms by (cases r') auto

section \<open>Stateful steps\<close>

text \<open>
  A method on a mutable value that may fail: it returns the value as it left it and its
  result, so that what was changed before an error stays changed, as in Rust.  \<open>bind_st\<close> is
  sequencing with the operator \<open>?\<close>.
\<close>

type_synonym ('s, 'e, 'a) step = "'s \<Rightarrow> 's \<times> ('e + 'a)"

definition ret_st :: "'a \<Rightarrow> ('s, 'e, 'a) step" where
  "ret_st a = (\<lambda>s. (s, Inr a))"

definition throw_st :: "'e \<Rightarrow> ('s, 'e, 'a) step" where
  "throw_st e = (\<lambda>s. (s, Inl e))"

definition bind_st :: "('s, 'e, 'a) step \<Rightarrow> ('a \<Rightarrow> ('s, 'e, 'b) step) \<Rightarrow> ('s, 'e, 'b) step" where
  "bind_st m f = (\<lambda>s. case m s of (s', Inl e) \<Rightarrow> (s', Inl e) | (s', Inr a) \<Rightarrow> f a s')"

definition then_st :: "('s, 'e, 'a) step \<Rightarrow> ('s, 'e, 'b) step \<Rightarrow> ('s, 'e, 'b) step" where
  "then_st m n = bind_st m (\<lambda>_. n)"

definition modify_st :: "('s \<Rightarrow> 's) \<Rightarrow> ('s, 'e, unit) step" where
  "modify_st f = (\<lambda>s. (f s, Inr ()))"

definition gets_st :: "('s \<Rightarrow> 'a) \<Rightarrow> ('s, 'e, 'a) step" where
  "gets_st f = (\<lambda>s. (s, Inr (f s)))"

definition lift_res :: "'e + 'a \<Rightarrow> ('s, 'e, 'a) step" where
  "lift_res r = (\<lambda>s. (s, r))"

lemma step_simps [simp]:
  "ret_st a s = (s, Inr a)" "throw_st e s = (s, Inl e)" "modify_st f s = (f s, Inr ())"
  "gets_st g s = (s, Inr (g s))" "lift_res r s = (s, r)"
  by (simp_all add: ret_st_def throw_st_def modify_st_def gets_st_def lift_res_def)

lemma bind_st_apply: "bind_st m f s = (case m s of (s', Inl e) \<Rightarrow> (s', Inl e) | (s', Inr a) \<Rightarrow> f a s')"
  by (simp add: bind_st_def)

lemma then_st_apply: "then_st m n s = (case m s of (s', Inl e) \<Rightarrow> (s', Inl e) | (s', Inr _) \<Rightarrow> n s')"
  by (simp add: then_st_def bind_st_def)

lemma bind_st_basic [simp]:
  "bind_st (ret_st a) f s = f a s" "bind_st (throw_st e) f s = (s, Inl e)"
  "bind_st (modify_st g) h s = h () (g s)" "bind_st (gets_st k) f s = f (k s) s"
  by (simp_all add: bind_st_def)

lemma then_st_basic [simp]:
  "then_st (ret_st a) n s = n s" "then_st (throw_st e) n s = (s, Inl e)"
  "then_st (modify_st g) n s = n (g s)"
  by (simp_all add: then_st_def)

text \<open>Whatever every step of a sequence keeps, the sequence keeps, also when it fails halfway.\<close>

definition preserves :: "('s \<Rightarrow> bool) \<Rightarrow> ('s, 'e, 'a) step \<Rightarrow> bool" where
  "preserves P m \<longleftrightarrow> (\<forall>s. P s \<longrightarrow> P (fst (m s)))"

lemma preservesI [intro?]: "(\<And>s. P s \<Longrightarrow> P (fst (m s))) \<Longrightarrow> preserves P m"
  by (simp add: preserves_def)

lemma preservesD: "preserves P m \<Longrightarrow> P s \<Longrightarrow> P (fst (m s))"
  by (simp add: preserves_def)

lemma preserves_basic [inv_intros]:
  "preserves P (ret_st a)" "preserves P (throw_st e)" "preserves P (gets_st f)" "preserves P (lift_res r)"
  by (simp_all add: preserves_def)

lemma preserves_modify [inv_intros]: "(\<And>s. P s \<Longrightarrow> P (f s)) \<Longrightarrow> preserves P (modify_st f)"
  by (simp add: preserves_def)

lemma preserves_bind [inv_intros]:
  assumes "preserves P m" "\<And>a. preserves P (f a)"
  shows "preserves P (bind_st m f)"
proof
  fix s
  assume "P s"
  then have "P (fst (m s))" using assms(1) by (rule preservesD [rotated])
  then show "P (fst (bind_st m f s))"
    using preservesD [OF assms(2)] by (auto simp: bind_st_apply split: prod.splits sum.splits)
qed

lemma preserves_then [inv_intros]: "preserves P m \<Longrightarrow> preserves P n \<Longrightarrow> preserves P (then_st m n)"
  by (simp add: then_st_def preserves_bind)

lemma preserves_if [inv_intros]:
  "(c \<Longrightarrow> preserves P m) \<Longrightarrow> (\<not> c \<Longrightarrow> preserves P n) \<Longrightarrow> preserves P (if c then m else n)"
  by simp

section \<open>Signed 32-bit arithmetic\<close>

text \<open>
  The flow-control windows are \<open>i32\<close>: integers with the wrap-around written out.  \<open>i32_wrap\<close> is
  the value of a wrapping operation, \<open>i32_of_nat\<close> the cast \<open>n as i32\<close>.
\<close>

definition i32_range :: "int \<Rightarrow> bool" where
  "i32_range x \<longleftrightarrow> - 2147483648 \<le> x \<and> x \<le> 2147483647"

definition i32_wrap :: "int \<Rightarrow> int" where
  "i32_wrap x = (x + 2147483648) mod 4294967296 - 2147483648"

definition i32_of_nat :: "nat \<Rightarrow> int" where
  "i32_of_nat n = i32_wrap (int n)"

definition i32_checked_add :: "int \<Rightarrow> int \<Rightarrow> int option" where
  "i32_checked_add x y = (if i32_range (x + y) then Some (x + y) else None)"

definition i32_saturating_add :: "int \<Rightarrow> int \<Rightarrow> int" where
  "i32_saturating_add x y = max (- 2147483648) (min 2147483647 (x + y))"

lemma i32_wrap_range [simp]: "i32_range (i32_wrap x)"
proof -
  have "0 \<le> (x + 2147483648) mod 4294967296" "(x + 2147483648) mod 4294967296 < 4294967296" by simp_all
  then show ?thesis by (simp add: i32_range_def i32_wrap_def)
qed

lemma i32_wrap_id: "i32_range x \<Longrightarrow> i32_wrap x = x"
  by (simp add: i32_range_def i32_wrap_def)

lemma i32_of_nat_small: "n < 2147483648 \<Longrightarrow> i32_of_nat n = int n"
  by (simp add: i32_of_nat_def i32_wrap_id i32_range_def)

lemma i32_of_nat_range [simp]: "i32_range (i32_of_nat n)"
  by (simp add: i32_of_nat_def)

lemma i32_saturating_add_range [simp]: "i32_range (i32_saturating_add x y)"
  by (simp add: i32_saturating_add_def i32_range_def)

end
