(* ===== verification/Http2_Error.thy ===== *)
theory Http2_Error
  imports Prelude
begin

text \<open>
  Model of \<open>src/http2/error.rs\<close>: the RFC 7540 error codes, the implementation's error
  type, how an error is displayed, and how it is classified into connection errors
  (GOAWAY), stream errors (RST_STREAM) and the rest. An \<open>io::Error\<close> carries the one
  distinction the code makes, whether its kind is \<open>WouldBlock\<close>, and its display text.
\<close>

section \<open>Error codes\<close>

datatype http2_error_code =
    NoError | ProtocolError | InternalError | FlowControlError | SettingsTimeout
  | StreamClosed | FrameSizeError | RefusedStream | Cancel | CompressionError
  | ConnectError | EnhanceYourCalm | InadequateSecurity | Http11Required

text \<open>The discriminants of the \<open>repr(u32)\<close> enum, read by \<open>as u32\<close>.\<close>

fun error_code_as_u32 :: "http2_error_code \<Rightarrow> u32" where
  "error_code_as_u32 NoError = 0x0"
| "error_code_as_u32 ProtocolError = 0x1"
| "error_code_as_u32 InternalError = 0x2"
| "error_code_as_u32 FlowControlError = 0x3"
| "error_code_as_u32 SettingsTimeout = 0x4"
| "error_code_as_u32 StreamClosed = 0x5"
| "error_code_as_u32 FrameSizeError = 0x6"
| "error_code_as_u32 RefusedStream = 0x7"
| "error_code_as_u32 Cancel = 0x8"
| "error_code_as_u32 CompressionError = 0x9"
| "error_code_as_u32 ConnectError = 0xa"
| "error_code_as_u32 EnhanceYourCalm = 0xb"
| "error_code_as_u32 InadequateSecurity = 0xc"
| "error_code_as_u32 Http11Required = 0xd"

definition error_code_from_u32 :: "u32 \<Rightarrow> http2_error_code" where
  "error_code_from_u32 code =
    (if code = 0x0 then NoError
     else if code = 0x1 then ProtocolError
     else if code = 0x2 then InternalError
     else if code = 0x3 then FlowControlError
     else if code = 0x4 then SettingsTimeout
     else if code = 0x5 then StreamClosed
     else if code = 0x6 then FrameSizeError
     else if code = 0x7 then RefusedStream
     else if code = 0x8 then Cancel
     else if code = 0x9 then CompressionError
     else if code = 0xa then ConnectError
     else if code = 0xb then EnhanceYourCalm
     else if code = 0xc then InadequateSecurity
     else if code = 0xd then Http11Required
     else InternalError)"

fun display_error_code :: "http2_error_code \<Rightarrow> string" where
  "display_error_code NoError = ''NO_ERROR''"
| "display_error_code ProtocolError = ''PROTOCOL_ERROR''"
| "display_error_code InternalError = ''INTERNAL_ERROR''"
| "display_error_code FlowControlError = ''FLOW_CONTROL_ERROR''"
| "display_error_code SettingsTimeout = ''SETTINGS_TIMEOUT''"
| "display_error_code StreamClosed = ''STREAM_CLOSED''"
| "display_error_code FrameSizeError = ''FRAME_SIZE_ERROR''"
| "display_error_code RefusedStream = ''REFUSED_STREAM''"
| "display_error_code Cancel = ''CANCEL''"
| "display_error_code CompressionError = ''COMPRESSION_ERROR''"
| "display_error_code ConnectError = ''CONNECT_ERROR''"
| "display_error_code EnhanceYourCalm = ''ENHANCE_YOUR_CALM''"
| "display_error_code InadequateSecurity = ''INADEQUATE_SECURITY''"
| "display_error_code Http11Required = ''HTTP_1_1_REQUIRED''"

section \<open>Errors\<close>

datatype io_error =
    IoWouldBlock string
  | IoOther string

fun display_io_error :: "io_error \<Rightarrow> string" where
  "display_io_error (IoWouldBlock msg) = msg"
| "display_io_error (IoOther msg) = msg"

datatype http2_error =
    ConnectionError http2_error_code string
  | StreamError u32 http2_error_code string
  | Io io_error
  | HpackDecode string
  | HpackEncode string
  | InvalidPreface
  | Timeout
  | ConnectionClosed
  | FrameTooLarge nat nat
  | InvalidFrame string
  | TooManyStreams
  | WindowOverflow

type_synonym 'a http2_result = "http2_error + 'a"

fun display_error :: "http2_error \<Rightarrow> string" where
  "display_error (ConnectionError code msg) =
     ''Connection error '' @ display_error_code code @ '': '' @ msg"
| "display_error (StreamError sid code msg) =
     ''Stream '' @ show_nat (unat sid) @ '' error '' @ display_error_code code @ '': '' @ msg"
| "display_error (Io e) = ''I/O error: '' @ display_io_error e"
| "display_error (HpackDecode msg) = ''HPACK decode error: '' @ msg"
| "display_error (HpackEncode msg) = ''HPACK encode error: '' @ msg"
| "display_error InvalidPreface = ''Invalid connection preface''"
| "display_error Timeout = ''Operation timed out''"
| "display_error ConnectionClosed = ''Connection closed''"
| "display_error (FrameTooLarge actual mx) =
     ''Frame too large: '' @ show_nat actual @ '' bytes (max: '' @ show_nat mx @ '')''"
| "display_error (InvalidFrame msg) = ''Invalid frame: '' @ msg"
| "display_error TooManyStreams = ''Too many concurrent streams''"
| "display_error WindowOverflow = ''Flow control window overflow''"

text \<open>The constructor functions of \<open>impl Http2Error\<close>.\<close>

definition connection_error :: "http2_error_code \<Rightarrow> string \<Rightarrow> http2_error" where
  [simp]: "connection_error code msg = ConnectionError code msg"

definition stream_error :: "u32 \<Rightarrow> http2_error_code \<Rightarrow> string \<Rightarrow> http2_error" where
  [simp]: "stream_error sid code msg = StreamError sid code msg"

definition protocol_error :: "string \<Rightarrow> http2_error" where
  [simp]: "protocol_error msg = ConnectionError ProtocolError msg"

definition frame_size_error :: "string \<Rightarrow> http2_error" where
  [simp]: "frame_size_error msg = ConnectionError FrameSizeError msg"

definition compression_error :: "string \<Rightarrow> http2_error" where
  [simp]: "compression_error msg = ConnectionError CompressionError msg"

definition stream_closed :: "u32 \<Rightarrow> u32 \<Rightarrow> http2_error" where
  "stream_closed sid code =
     StreamError sid (error_code_from_u32 code)
       (''Stream closed with error code '' @ show_nat (unat code))"

definition should_goaway :: "http2_error \<Rightarrow> bool" where
  "should_goaway e = (case e of ConnectionError _ _ \<Rightarrow> True | FrameTooLarge _ _ \<Rightarrow> True | _ \<Rightarrow> False)"

definition rst_stream_id :: "http2_error \<Rightarrow> u32 option" where
  "rst_stream_id e = (case e of StreamError sid _ _ \<Rightarrow> Some sid | _ \<Rightarrow> None)"

fun error_code :: "http2_error \<Rightarrow> http2_error_code" where
  "error_code (ConnectionError code _) = code"
| "error_code (StreamError _ code _) = code"
| "error_code (Io _) = InternalError"
| "error_code (HpackDecode _) = CompressionError"
| "error_code (HpackEncode _) = CompressionError"
| "error_code InvalidPreface = ProtocolError"
| "error_code Timeout = SettingsTimeout"
| "error_code ConnectionClosed = NoError"
| "error_code (FrameTooLarge _ _) = FrameSizeError"
| "error_code (InvalidFrame _) = ProtocolError"
| "error_code TooManyStreams = RefusedStream"
| "error_code WindowOverflow = FlowControlError"

section \<open>Lemmas\<close>

lemma error_code_from_as_u32 [simp]: "error_code_from_u32 (error_code_as_u32 c) = c"
  by (cases c) (simp_all add: error_code_from_u32_def)

lemma error_code_as_u32_inj: "error_code_as_u32 c = error_code_as_u32 d \<Longrightarrow> c = d"
  by (metis error_code_from_as_u32)

lemma error_code_unknown: "0xd < code \<Longrightarrow> error_code_from_u32 code = InternalError"
  by (auto simp: error_code_from_u32_def)

lemma should_goaway_simps [simp]:
  "should_goaway (ConnectionError c m)"
  "should_goaway (FrameTooLarge a b)"
  "\<not> should_goaway (StreamError i c m)"
  "\<not> should_goaway (Io e)"
  "\<not> should_goaway (InvalidFrame m)"
  "\<not> should_goaway (HpackEncode m)"
  "\<not> should_goaway ConnectionClosed"
  by (simp_all add: should_goaway_def)

lemma rst_stream_id_simps [simp]:
  "rst_stream_id (ConnectionError c m) = None"
  "rst_stream_id (FrameTooLarge a b) = None"
  "rst_stream_id (StreamError i c m) = Some i"
  "rst_stream_id (Io e) = None"
  "rst_stream_id (InvalidFrame m) = None"
  "rst_stream_id (HpackEncode m) = None"
  "rst_stream_id ConnectionClosed = None"
  by (simp_all add: rst_stream_id_def)

lemma goaway_rst_exclusive: "should_goaway e \<Longrightarrow> rst_stream_id e = None"
  by (cases e) (simp_all add: should_goaway_def rst_stream_id_def)

end
