(* ===== verification/Frame_Types.thy ===== *)
theory Frame_Types
  imports Http2_Error
begin

unbundle bit_operations_syntax

text \<open>
  Model of \<open>src/http2/frame/types.rs\<close>: frame types, flags, the 9-byte frame header
  with its bit-level encoder and decoder, and the decoded frames.
\<close>

section \<open>Frame types and flags\<close>

datatype frame_type =
    TData | THeaders | TPriority | TRstStream | TSettings | TPushPromise
  | TPing | TGoAway | TWindowUpdate | TContinuation

fun frame_type_as_u8 :: "frame_type \<Rightarrow> u8" where
  "frame_type_as_u8 TData = 0x0"
| "frame_type_as_u8 THeaders = 0x1"
| "frame_type_as_u8 TPriority = 0x2"
| "frame_type_as_u8 TRstStream = 0x3"
| "frame_type_as_u8 TSettings = 0x4"
| "frame_type_as_u8 TPushPromise = 0x5"
| "frame_type_as_u8 TPing = 0x6"
| "frame_type_as_u8 TGoAway = 0x7"
| "frame_type_as_u8 TWindowUpdate = 0x8"
| "frame_type_as_u8 TContinuation = 0x9"

definition frame_type_from_u8 :: "u8 \<Rightarrow> frame_type option" where
  "frame_type_from_u8 v =
    (if v = 0x0 then Some TData
     else if v = 0x1 then Some THeaders
     else if v = 0x2 then Some TPriority
     else if v = 0x3 then Some TRstStream
     else if v = 0x4 then Some TSettings
     else if v = 0x5 then Some TPushPromise
     else if v = 0x6 then Some TPing
     else if v = 0x7 then Some TGoAway
     else if v = 0x8 then Some TWindowUpdate
     else if v = 0x9 then Some TContinuation
     else None)"

definition END_STREAM :: u8 where [simp]: "END_STREAM = 0x01"
definition ACK :: u8 where [simp]: "ACK = 0x01"
definition END_HEADERS :: u8 where [simp]: "END_HEADERS = 0x04"
definition PADDED :: u8 where [simp]: "PADDED = 0x08"
definition PRIORITY :: u8 where [simp]: "PRIORITY = 0x20"

section \<open>Frame header\<close>

record frame_header =
  fh_length :: u32
  fh_frame_type :: u8
  fh_flags :: u8
  fh_stream_id :: u32

definition FRAME_HEADER_SIZE :: nat where [simp]: "FRAME_HEADER_SIZE = 9"

definition frame_header_new :: "frame_type \<Rightarrow> u8 \<Rightarrow> u32 \<Rightarrow> u32 \<Rightarrow> frame_header" where
  "frame_header_new ft flags sid len =
     \<lparr>fh_length = len, fh_frame_type = frame_type_as_u8 ft, fh_flags = flags,
      fh_stream_id = sid AND 0x7FFFFFFF\<rparr>"

text \<open>\<open>buf\<close> is a \<open>[u8; 9]\<close>: the indices below are in range.\<close>

definition frame_header_decode :: "bytes \<Rightarrow> frame_header" where
  "frame_header_decode buf =
    (let len = push_bit 16 (ucast (buf ! 0)) OR push_bit 8 (ucast (buf ! 1)) OR ucast (buf ! 2);
         ft = buf ! 3;
         flags = buf ! 4;
         sid = push_bit 24 (ucast (buf ! 5)) OR push_bit 16 (ucast (buf ! 6))
           OR push_bit 8 (ucast (buf ! 7)) OR ucast (buf ! 8);
         sid' = sid AND 0x7FFFFFFF
     in \<lparr>fh_length = len, fh_frame_type = ft, fh_flags = flags, fh_stream_id = sid'\<rparr>)"

definition frame_header_encode :: "frame_header \<Rightarrow> bytes" where
  "frame_header_encode h =
    [ucast (drop_bit 16 (fh_length h) AND 0xFF),
     ucast (drop_bit 8 (fh_length h) AND 0xFF),
     ucast (fh_length h AND 0xFF),
     fh_frame_type h,
     fh_flags h,
     ucast (drop_bit 24 (fh_stream_id h) AND 0x7F),
     ucast (drop_bit 16 (fh_stream_id h) AND 0xFF),
     ucast (drop_bit 8 (fh_stream_id h) AND 0xFF),
     ucast (fh_stream_id h AND 0xFF)]"

definition get_frame_type :: "frame_header \<Rightarrow> frame_type option" where
  "get_frame_type h = frame_type_from_u8 (fh_frame_type h)"

definition is_end_stream :: "frame_header \<Rightarrow> bool" where
  "is_end_stream h = (fh_flags h AND END_STREAM \<noteq> 0)"

definition is_end_headers :: "frame_header \<Rightarrow> bool" where
  "is_end_headers h = (fh_flags h AND END_HEADERS \<noteq> 0)"

definition is_ack :: "frame_header \<Rightarrow> bool" where
  "is_ack h = (fh_flags h AND ACK \<noteq> 0)"

definition is_padded :: "frame_header \<Rightarrow> bool" where
  "is_padded h = (fh_flags h AND PADDED \<noteq> 0)"

definition is_priority :: "frame_header \<Rightarrow> bool" where
  "is_priority h = (fh_flags h AND PRIORITY \<noteq> 0)"

section \<open>Frames\<close>

record priority_spec =
  ps_dependency :: u32
  ps_exclusive :: bool
  ps_weight :: u8

definition priority_spec_default :: priority_spec where
  "priority_spec_default = \<lparr>ps_dependency = 0, ps_exclusive = False, ps_weight = 16\<rparr>"

datatype frame =
    FData u32 bool bytes
      \<comment> \<open>stream id, END_STREAM, data\<close>
  | FHeaders u32 bool bool "priority_spec option" bytes
      \<comment> \<open>stream id, END_STREAM, END_HEADERS, priority, header block\<close>
  | FPriority u32 priority_spec
  | FRstStream u32 u32
      \<comment> \<open>stream id, error code\<close>
  | FSettings bool "(u16 \<times> u32) list"
      \<comment> \<open>ACK, settings\<close>
  | FPushPromise u32 u32 bool bytes
      \<comment> \<open>stream id, promised stream id, END_HEADERS, header block\<close>
  | FPing bool bytes
      \<comment> \<open>ACK, the 8 payload bytes\<close>
  | FGoAway u32 u32 bytes
      \<comment> \<open>last stream id, error code, debug data\<close>
  | FWindowUpdate u32 u32
      \<comment> \<open>stream id, increment\<close>
  | FContinuation u32 bool bytes
      \<comment> \<open>stream id, END_HEADERS, header block\<close>
  | FUnknown u8 u8 u32 bytes
      \<comment> \<open>frame type, flags, stream id, payload\<close>

fun frame_stream_id :: "frame \<Rightarrow> u32" where
  "frame_stream_id (FData sid _ _) = sid"
| "frame_stream_id (FHeaders sid _ _ _ _) = sid"
| "frame_stream_id (FPriority sid _) = sid"
| "frame_stream_id (FRstStream sid _) = sid"
| "frame_stream_id (FSettings _ _) = 0"
| "frame_stream_id (FPushPromise sid _ _ _) = sid"
| "frame_stream_id (FPing _ _) = 0"
| "frame_stream_id (FGoAway _ _ _) = 0"
| "frame_stream_id (FWindowUpdate sid _) = sid"
| "frame_stream_id (FContinuation sid _ _) = sid"
| "frame_stream_id (FUnknown _ _ sid _) = sid"

fun frame_frame_type :: "frame \<Rightarrow> frame_type" where
  "frame_frame_type (FData _ _ _) = TData"
| "frame_frame_type (FHeaders _ _ _ _ _) = THeaders"
| "frame_frame_type (FPriority _ _) = TPriority"
| "frame_frame_type (FRstStream _ _) = TRstStream"
| "frame_frame_type (FSettings _ _) = TSettings"
| "frame_frame_type (FPushPromise _ _ _ _) = TPushPromise"
| "frame_frame_type (FPing _ _) = TPing"
| "frame_frame_type (FGoAway _ _ _) = TGoAway"
| "frame_frame_type (FWindowUpdate _ _) = TWindowUpdate"
| "frame_frame_type (FContinuation _ _ _) = TContinuation"
| "frame_frame_type (FUnknown _ _ _ _) = TData"

section \<open>Lemmas\<close>

lemma frame_type_from_as_u8 [simp]: "frame_type_from_u8 (frame_type_as_u8 t) = Some t"
  by (cases t) (simp_all add: frame_type_from_u8_def)

lemma length_frame_header_encode [simp]: "length (frame_header_encode h) = 9"
  by (simp add: frame_header_encode_def)

text \<open>Masking with \<open>0x7FFFFFFF\<close> is truncation to 31 bits, and truncation is \<open>mod\<close>.\<close>

lemma mask31: "(0x7FFFFFFF :: u32) = mask 31"
  by (simp add: mask_eq_exp_minus_1)

lemma mask8_u32: "(0xFF :: u32) = mask 8"
  by (simp add: mask_eq_exp_minus_1)

lemma mask7_u32: "(0x7F :: u32) = mask 7"
  by (simp add: mask_eq_exp_minus_1)

lemma bit_small_u32: "(w :: u32) < 2 ^ k \<Longrightarrow> k < 32 \<Longrightarrow> k \<le> n \<Longrightarrow> \<not> bit w n"
  by (metis bit_take_bit_iff less_mask_eq linorder_not_le take_bit_eq_mask)

lemma u32_high_bits: "bit w n \<Longrightarrow> (w :: u32) < 2147483648 \<Longrightarrow> n < 31"
  using bit_small_u32 [of w 31 n] by force

lemma u32_high_bits24: "bit w n \<Longrightarrow> (w :: u32) < 16777216 \<Longrightarrow> n < 24"
  using bit_small_u32 [of w 24 n] by force

lemma stream_id_mask_id [simp]: "(sid :: u32) < 2 ^ 31 \<Longrightarrow> sid AND 0x7FFFFFFF = sid"
  by (rule bit_word_eqI) (auto simp: mask31 bit_simps dest: u32_high_bits)

lemma stream_id_mask_less [simp]: "(sid :: u32) AND 0x7FFFFFFF < 2 ^ 31"
  unfolding mask31 by (rule and_mask_less') simp

lemma u24_of_bytes:
  fixes l :: u32
  assumes "l < 2 ^ 24"
  shows "push_bit 16 (ucast (ucast (drop_bit 16 l AND 0xFF) :: u8))
      OR push_bit 8 (ucast (ucast (drop_bit 8 l AND 0xFF) :: u8))
      OR ucast (ucast (l AND 0xFF) :: u8) = l" (is "?w = l")
proof (rule bit_word_eqI)
  fix n :: nat
  assume "n < LENGTH(32)"
  with assms show "bit ?w n = bit l n"
    by (cases "n < 8"; cases "n < 16"; cases "n < 24")
      (auto simp: mask8_u32 bit_simps le_add_diff_inverse dest: u32_high_bits24)
qed

lemma u31_of_bytes:
  fixes s :: u32
  assumes "s < 2 ^ 31"
  shows "(push_bit 24 (ucast (ucast (drop_bit 24 s AND 0x7F) :: u8))
      OR push_bit 16 (ucast (ucast (drop_bit 16 s AND 0xFF) :: u8))
      OR push_bit 8 (ucast (ucast (drop_bit 8 s AND 0xFF) :: u8))
      OR ucast (ucast (s AND 0xFF) :: u8)) AND 0x7FFFFFFF = s" (is "?w = s")
proof (rule bit_word_eqI)
  fix n :: nat
  assume "n < LENGTH(32)"
  with assms show "bit ?w n = bit s n"
    by (cases "n < 8"; cases "n < 16"; cases "n < 24"; cases "n < 31")
      (auto simp: mask8_u32 mask7_u32 mask31 bit_simps le_add_diff_inverse dest: u32_high_bits)
qed

text \<open>
  The frame header survives encoding and decoding when its length fits 24 bits and its
  stream id 31 bits.
\<close>

lemma frame_header_decode_encode:
  assumes "fh_length h < 2 ^ 24" and "fh_stream_id h < 2 ^ 31"
  shows "frame_header_decode (frame_header_encode h) = h"
  using u24_of_bytes [OF assms(1)] u31_of_bytes [OF assms(2)]
  by (simp add: frame_header_decode_def frame_header_encode_def Let_def)

text \<open>What the decoder produces is within those bounds, whatever the nine bytes are.\<close>

lemma frame_header_decode_bounds:
  "fh_length (frame_header_decode buf) < 2 ^ 24"
  "fh_stream_id (frame_header_decode buf) < 2 ^ 31"
proof -
  let ?l = "fh_length (frame_header_decode buf)"
  have "take_bit 24 ?l = ?l"
    by (rule bit_word_eqI) (auto simp: frame_header_decode_def Let_def bit_simps)
  then show "?l < 2 ^ 24"
    using and_mask_less' [of 24 ?l] by (simp add: take_bit_eq_mask)
  show "fh_stream_id (frame_header_decode buf) < 2 ^ 31"
    unfolding frame_header_decode_def Let_def frame_header.simps by (rule stream_id_mask_less)
qed

end
