(* ===== verification/Frame_Codec.thy ===== *)
theory Frame_Codec
  imports Frame_Types
begin

unbundle bit_operations_syntax

text \<open>
  Model of \<open>src/http2/frame/encoder.rs\<close> and \<open>src/http2/frame/decoder.rs\<close>. The encoder
  appends to an output buffer; its \<open>max_frame_size\<close> is stored and never read by it. The
  lemmas show that every encodable well-formed frame is recovered by the decoder, that
  every frame the decoder accepts is well formed, and which error each malformed frame
  gets.
\<close>

section \<open>Encoder\<close>

record frame_encoder =
  fe_max_frame_size :: u32

definition frame_encoder_new :: "u32 \<Rightarrow> frame_encoder" where
  "frame_encoder_new sz = \<lparr>fe_max_frame_size = sz\<rparr>"

definition fe_set_max_frame_size :: "u32 \<Rightarrow> frame_encoder \<Rightarrow> frame_encoder" where
  "fe_set_max_frame_size sz e = e\<lparr>fe_max_frame_size := sz\<rparr>"

definition u8_saturating_sub1 :: "u8 \<Rightarrow> u8" where
  "u8_saturating_sub1 w = (if w = 0 then 0 else w - 1)"

definition u8_saturating_add1 :: "u8 \<Rightarrow> u8" where
  "u8_saturating_add1 w = (if w = 255 then 255 else w + 1)"

definition encode_data_into :: "bytes \<Rightarrow> u32 \<Rightarrow> bytes \<Rightarrow> bool \<Rightarrow> bytes" where
  "encode_data_into out sid data end_stream =
    (let flags = (if end_stream then 0 OR END_STREAM else 0);
         header = frame_header_new TData flags sid (of_nat (length data))
     in out @ frame_header_encode header @ data)"

definition encode_data :: "u32 \<Rightarrow> bytes \<Rightarrow> bool \<Rightarrow> bytes" where
  "encode_data sid data end_stream = encode_data_into [] sid data end_stream"

definition encode_priority_spec :: "priority_spec \<Rightarrow> bytes" where
  "encode_priority_spec p =
    (let dep = (if ps_exclusive p then ps_dependency p OR 0x80000000 else ps_dependency p)
     in u32_to_be dep @ [u8_saturating_sub1 (ps_weight p)])"

definition encode_headers_into ::
    "bytes \<Rightarrow> u32 \<Rightarrow> bytes \<Rightarrow> bool \<Rightarrow> bool \<Rightarrow> priority_spec option \<Rightarrow> bytes" where
  "encode_headers_into out sid block end_stream end_headers prio =
    (let flags = (if end_stream then 0 OR END_STREAM else 0);
         flags = (if end_headers then flags OR END_HEADERS else flags);
         flags = (if prio \<noteq> None then flags OR PRIORITY else flags);
         priority_len = (if prio \<noteq> None then 5 else 0);
         len = of_nat priority_len + of_nat (length block);
         header = frame_header_new THeaders flags sid len
     in out @ frame_header_encode header
          @ (case prio of None \<Rightarrow> [] | Some p \<Rightarrow> encode_priority_spec p) @ block)"

definition encode_headers ::
    "u32 \<Rightarrow> bytes \<Rightarrow> bool \<Rightarrow> bool \<Rightarrow> priority_spec option \<Rightarrow> bytes" where
  "encode_headers sid block end_stream end_headers prio =
     encode_headers_into [] sid block end_stream end_headers prio"

definition encode_settings :: "(u16 \<times> u32) list \<Rightarrow> bool \<Rightarrow> bytes" where
  "encode_settings settings ack =
    (let flags = (if ack then ACK else 0);
         len = (if ack then 0 else length settings * 6);
         header = frame_header_new TSettings flags 0 (of_nat len)
     in frame_header_encode header
          @ (if ack then [] else concat (map (\<lambda>(i, v). u16_to_be i @ u32_to_be v) settings)))"

definition encode_settings_ack :: bytes where
  "encode_settings_ack = encode_settings [] True"

definition encode_window_update :: "u32 \<Rightarrow> u32 \<Rightarrow> bytes" where
  "encode_window_update sid increment =
    (let header = frame_header_new TWindowUpdate 0 sid 4
     in frame_header_encode header @ u32_to_be (increment AND 0x7FFFFFFF))"

definition encode_ping :: "bytes \<Rightarrow> bool \<Rightarrow> bytes" where
  "encode_ping data ack =
    (let flags = (if ack then ACK else 0);
         header = frame_header_new TPing flags 0 8
     in frame_header_encode header @ data)"

definition encode_rst_stream :: "u32 \<Rightarrow> u32 \<Rightarrow> bytes" where
  "encode_rst_stream sid code =
    (let header = frame_header_new TRstStream 0 sid 4
     in frame_header_encode header @ u32_to_be code)"

definition encode_goaway :: "u32 \<Rightarrow> u32 \<Rightarrow> bytes \<Rightarrow> bytes" where
  "encode_goaway last_stream_id code debug_data =
    (let len = 8 + of_nat (length debug_data);
         header = frame_header_new TGoAway 0 0 len
     in frame_header_encode header @ u32_to_be (last_stream_id AND 0x7FFFFFFF)
          @ u32_to_be code @ debug_data)"

definition encode_continuation :: "u32 \<Rightarrow> bytes \<Rightarrow> bool \<Rightarrow> bytes" where
  "encode_continuation sid block end_headers =
    (let flags = (if end_headers then END_HEADERS else 0);
         header = frame_header_new TContinuation flags sid (of_nat (length block))
     in frame_header_encode header @ block)"

definition encode_priority :: "u32 \<Rightarrow> priority_spec \<Rightarrow> bytes" where
  "encode_priority sid p =
    (let header = frame_header_new TPriority 0 sid 5
     in frame_header_encode header @ encode_priority_spec p)"

fun frame_encode :: "frame \<Rightarrow> bytes" where
  "frame_encode (FData sid es data) = encode_data sid data es"
| "frame_encode (FHeaders sid es eh prio block) = encode_headers sid block es eh prio"
| "frame_encode (FSettings ack settings) = encode_settings settings ack"
| "frame_encode (FWindowUpdate sid increment) = encode_window_update sid increment"
| "frame_encode (FPing ack data) = encode_ping data ack"
| "frame_encode (FRstStream sid code) = encode_rst_stream sid code"
| "frame_encode (FGoAway lsid code dbg) = encode_goaway lsid code dbg"
| "frame_encode (FContinuation sid eh block) = encode_continuation sid block eh"
| "frame_encode (FPriority sid p) = encode_priority sid p"
| "frame_encode (FPushPromise _ _ _ _) = []"
| "frame_encode (FUnknown _ _ _ _) = []"

section \<open>Decoder\<close>

record frame_decoder =
  fd_max_frame_size :: u32

definition frame_decoder_new :: "u32 \<Rightarrow> frame_decoder" where
  "frame_decoder_new sz = \<lparr>fd_max_frame_size = sz\<rparr>"

definition fd_set_max_frame_size :: "u32 \<Rightarrow> frame_decoder \<Rightarrow> frame_decoder" where
  "fd_set_max_frame_size sz d = d\<lparr>fd_max_frame_size := sz\<rparr>"

definition decode_header :: "frame_decoder \<Rightarrow> bytes \<Rightarrow> frame_header http2_result" where
  "decode_header dec buf =
    (if length buf < FRAME_HEADER_SIZE
     then Inl (InvalidFrame ''Buffer too short for frame header'')
     else let header = frame_header_decode (take 9 buf)
          in if fh_length header > fd_max_frame_size dec
             then Inl (FrameTooLarge (unat (fh_length header)) (unat (fd_max_frame_size dec)))
             else Inr header)"

definition extract_padding :: "frame_header \<Rightarrow> bytes \<Rightarrow> (bytes \<times> nat) http2_result" where
  "extract_padding header payload =
    (if \<not> is_padded header then Inr (payload, 0)
     else if payload = [] then Inl (protocol_error ''PADDED frame has no pad length'')
     else let pad_length = unat (payload ! 0)
          in if pad_length \<ge> length payload then Inl (protocol_error ''Pad length exceeds payload'')
             else let data_end = length payload - pad_length
                  in Inr (drop 1 (take data_end payload), pad_length))"

definition decode_priority_spec :: "bytes \<Rightarrow> priority_spec" where
  "decode_priority_spec data =
    (let first_word = u32_from_be (data ! 0) (data ! 1) (data ! 2) (data ! 3)
     in \<lparr>ps_dependency = first_word AND 0x7FFFFFFF,
         ps_exclusive = (first_word AND 0x80000000 \<noteq> 0),
         ps_weight = u8_saturating_add1 (data ! 4)\<rparr>)"

definition decode_data :: "frame_header \<Rightarrow> bytes \<Rightarrow> frame http2_result" where
  "decode_data header payload =
    (if fh_stream_id header = 0 then Inl (protocol_error ''DATA frame with stream ID 0'')
     else bind_res (extract_padding header payload) (\<lambda>(data, _).
       Inr (FData (fh_stream_id header) (is_end_stream header) data)))"

definition decode_headers :: "frame_header \<Rightarrow> bytes \<Rightarrow> frame http2_result" where
  "decode_headers header payload =
    (if fh_stream_id header = 0 then Inl (protocol_error ''HEADERS frame with stream ID 0'')
     else bind_res (extract_padding header payload) (\<lambda>(data, _).
       if is_priority header then
         if length data < 5 then Inl (frame_size_error ''HEADERS priority too short'')
         else Inr (FHeaders (fh_stream_id header) (is_end_stream header) (is_end_headers header)
                (Some (decode_priority_spec (take 5 data))) (drop 5 data))
       else Inr (FHeaders (fh_stream_id header) (is_end_stream header) (is_end_headers header)
                None data)))"

definition decode_priority :: "frame_header \<Rightarrow> bytes \<Rightarrow> frame http2_result" where
  "decode_priority header payload =
    (if fh_stream_id header = 0 then Inl (protocol_error ''PRIORITY frame with stream ID 0'')
     else if length payload \<noteq> 5 then Inl (frame_size_error ''PRIORITY frame must be 5 bytes'')
     else Inr (FPriority (fh_stream_id header) (decode_priority_spec payload)))"

definition decode_rst_stream :: "frame_header \<Rightarrow> bytes \<Rightarrow> frame http2_result" where
  "decode_rst_stream header payload =
    (if fh_stream_id header = 0 then Inl (protocol_error ''RST_STREAM frame with stream ID 0'')
     else if length payload \<noteq> 4 then Inl (frame_size_error ''RST_STREAM frame must be 4 bytes'')
     else Inr (FRstStream (fh_stream_id header)
            (u32_from_be (payload ! 0) (payload ! 1) (payload ! 2) (payload ! 3))))"

text \<open>
  The loop over \<open>payload.chunks(6)\<close>: one identifier and one value per chunk. The callers
  check first that the length is a multiple of 6.
\<close>

fun settings_chunks :: "bytes \<Rightarrow> (u16 \<times> u32) list" where
  "settings_chunks (a # b # c # d # e # f # rest) =
     (u16_from_be a b, u32_from_be c d e f) # settings_chunks rest"
| "settings_chunks _ = []"

definition decode_settings :: "frame_header \<Rightarrow> bytes \<Rightarrow> frame http2_result" where
  "decode_settings header payload =
    (if fh_stream_id header \<noteq> 0
     then Inl (protocol_error ''SETTINGS frame with non-zero stream ID'')
     else if is_ack header then
       (if payload \<noteq> [] then Inl (frame_size_error ''SETTINGS ACK must be empty'')
        else Inr (FSettings True []))
     else if length payload mod 6 \<noteq> 0
       then Inl (frame_size_error ''SETTINGS payload must be multiple of 6'')
     else Inr (FSettings False (settings_chunks payload)))"

definition decode_push_promise :: "frame_header \<Rightarrow> bytes \<Rightarrow> frame http2_result" where
  "decode_push_promise header payload =
    (if fh_stream_id header = 0 then Inl (protocol_error ''PUSH_PROMISE frame with stream ID 0'')
     else bind_res (extract_padding header payload) (\<lambda>(data, _).
       if length data < 4 then Inl (frame_size_error ''PUSH_PROMISE too short'')
       else Inr (FPushPromise (fh_stream_id header)
              (u32_from_be (data ! 0) (data ! 1) (data ! 2) (data ! 3) AND 0x7FFFFFFF)
              (is_end_headers header) (drop 4 data))))"

definition decode_ping :: "frame_header \<Rightarrow> bytes \<Rightarrow> frame http2_result" where
  "decode_ping header payload =
    (if fh_stream_id header \<noteq> 0 then Inl (protocol_error ''PING frame with non-zero stream ID'')
     else if length payload \<noteq> 8 then Inl (frame_size_error ''PING frame must be 8 bytes'')
     else Inr (FPing (is_ack header) payload))"

definition decode_goaway :: "frame_header \<Rightarrow> bytes \<Rightarrow> frame http2_result" where
  "decode_goaway header payload =
    (if fh_stream_id header \<noteq> 0 then Inl (protocol_error ''GOAWAY frame with non-zero stream ID'')
     else if length payload < 8 then Inl (frame_size_error ''GOAWAY frame too short'')
     else Inr (FGoAway
            (u32_from_be (payload ! 0) (payload ! 1) (payload ! 2) (payload ! 3) AND 0x7FFFFFFF)
            (u32_from_be (payload ! 4) (payload ! 5) (payload ! 6) (payload ! 7))
            (drop 8 payload)))"

definition decode_window_update :: "frame_header \<Rightarrow> bytes \<Rightarrow> frame http2_result" where
  "decode_window_update header payload =
    (if length payload \<noteq> 4 then Inl (frame_size_error ''WINDOW_UPDATE frame must be 4 bytes'')
     else let increment =
            u32_from_be (payload ! 0) (payload ! 1) (payload ! 2) (payload ! 3) AND 0x7FFFFFFF
          in if increment = 0
             then Inl (protocol_error ''WINDOW_UPDATE increment must be non-zero'')
             else Inr (FWindowUpdate (fh_stream_id header) increment))"

definition decode_continuation :: "frame_header \<Rightarrow> bytes \<Rightarrow> frame http2_result" where
  "decode_continuation header payload =
    (if fh_stream_id header = 0 then Inl (protocol_error ''CONTINUATION frame with stream ID 0'')
     else Inr (FContinuation (fh_stream_id header) (is_end_headers header) payload))"

definition frame_decode :: "frame_header \<Rightarrow> bytes \<Rightarrow> frame http2_result" where
  "frame_decode header payload =
    (if length payload \<noteq> unat (fh_length header) then Inl (InvalidFrame ''Payload length mismatch'')
     else case frame_type_from_u8 (fh_frame_type header) of
       Some TData \<Rightarrow> decode_data header payload
     | Some THeaders \<Rightarrow> decode_headers header payload
     | Some TPriority \<Rightarrow> decode_priority header payload
     | Some TRstStream \<Rightarrow> decode_rst_stream header payload
     | Some TSettings \<Rightarrow> decode_settings header payload
     | Some TPushPromise \<Rightarrow> decode_push_promise header payload
     | Some TPing \<Rightarrow> decode_ping header payload
     | Some TGoAway \<Rightarrow> decode_goaway header payload
     | Some TWindowUpdate \<Rightarrow> decode_window_update header payload
     | Some TContinuation \<Rightarrow> decode_continuation header payload
     | None \<Rightarrow> Inr (FUnknown (fh_frame_type header) (fh_flags header) (fh_stream_id header) payload))"

lemmas frame_decoder_defs =
  decode_data_def decode_headers_def decode_priority_def decode_rst_stream_def
  decode_settings_def decode_push_promise_def decode_ping_def decode_goaway_def
  decode_window_update_def decode_continuation_def

lemmas frame_encoder_defs =
  encode_data_def encode_data_into_def encode_headers_def encode_headers_into_def
  encode_settings_def encode_window_update_def encode_ping_def encode_rst_stream_def
  encode_goaway_def encode_continuation_def encode_priority_def

lemmas frame_flag_defs =
  is_end_stream_def is_end_headers_def is_ack_def is_padded_def is_priority_def

section \<open>Well-formed frames\<close>

definition wf_priority :: "priority_spec \<Rightarrow> bool" where
  "wf_priority p = (ps_dependency p < 2 ^ 31 \<and> ps_weight p \<noteq> 0)"

fun wf_frame :: "frame \<Rightarrow> bool" where
  "wf_frame (FData sid es data) = (sid \<noteq> 0 \<and> sid < 2 ^ 31 \<and> length data < 2 ^ 24)"
| "wf_frame (FHeaders sid es eh prio block) =
     (sid \<noteq> 0 \<and> sid < 2 ^ 31 \<and> pred_option wf_priority prio
      \<and> (if prio = None then 0 else 5) + length block < 2 ^ 24)"
| "wf_frame (FPriority sid p) = (sid \<noteq> 0 \<and> sid < 2 ^ 31 \<and> wf_priority p)"
| "wf_frame (FRstStream sid code) = (sid \<noteq> 0 \<and> sid < 2 ^ 31)"
| "wf_frame (FSettings ack settings) = ((ack \<longrightarrow> settings = []) \<and> length settings * 6 < 2 ^ 24)"
| "wf_frame (FPushPromise sid promised eh block) =
     (sid \<noteq> 0 \<and> sid < 2 ^ 31 \<and> promised < 2 ^ 31 \<and> length block < 2 ^ 24)"
| "wf_frame (FPing ack data) = (length data = 8)"
| "wf_frame (FGoAway lsid code dbg) = (lsid < 2 ^ 31 \<and> 8 + length dbg < 2 ^ 24)"
| "wf_frame (FWindowUpdate sid increment) =
     (sid < 2 ^ 31 \<and> increment \<noteq> 0 \<and> increment < 2 ^ 31)"
| "wf_frame (FContinuation sid eh block) = (sid \<noteq> 0 \<and> sid < 2 ^ 31 \<and> length block < 2 ^ 24)"
| "wf_frame (FUnknown ft flags sid payload) =
     (frame_type_from_u8 ft = None \<and> sid < 2 ^ 31 \<and> length payload < 2 ^ 24)"

text \<open>The encoder emits nothing for PUSH_PROMISE and unknown frames.\<close>

fun encodable :: "frame \<Rightarrow> bool" where
  "encodable (FPushPromise _ _ _ _) = False"
| "encodable (FUnknown _ _ _ _) = False"
| "encodable _ = True"

section \<open>Lemmas on the parts\<close>

lemma u8_saturating_add1_sub1: "w \<noteq> 0 \<Longrightarrow> u8_saturating_add1 (u8_saturating_sub1 w) = w"
proof -
  have "w = 0" if "w - 1 = (255 :: u8)"
  proof -
    have "w = (w - 1) + 1" by simp
    also have "\<dots> = 255 + 1" by (simp only: that)
    also have "\<dots> = 0" by simp
    finally show ?thesis .
  qed
  then show "w \<noteq> 0 \<Longrightarrow> ?thesis"
    by (auto simp: u8_saturating_add1_def u8_saturating_sub1_def)
qed

lemma u8_saturating_add1_nonzero: "u8_saturating_add1 w \<noteq> 0"
proof -
  have "w = 255" if "w + 1 = (0 :: u8)"
  proof -
    have "w = (w + 1) - 1" by simp
    also have "\<dots> = 0 - 1" by (simp only: that)
    also have "\<dots> = 255" by simp
    finally show ?thesis .
  qed
  then have "w \<noteq> 255 \<Longrightarrow> w + 1 \<noteq> 0" by blast
  then show ?thesis
    by (simp add: u8_saturating_add1_def split: if_split)
qed

lemma length_encode_priority_spec [simp]: "length (encode_priority_spec p) = 5"
  by (simp add: encode_priority_spec_def Let_def)

lemma bit_top_u32: "bit (0x80000000 :: u32) n = (n = 31)"
proof -
  have "(0x80000000 :: u32) = 2 ^ 31" by simp
  then show ?thesis by (simp only: bit_exp_iff possible_bit_word) auto
qed

lemma exclusive_bit_low:
  fixes d :: u32
  assumes "d < 2 ^ 31"
  shows "(d OR 0x80000000) AND 0x7FFFFFFF = d"
  unfolding mask31 using assms
  by (intro bit_word_eqI)
    (auto simp: bit_and_iff bit_or_iff bit_mask_iff bit_top_u32 simp del: bit_numeral_word_iff
      dest: u32_high_bits)

lemma exclusive_bit_set:
  fixes d :: u32
  shows "(d OR 0x80000000) AND 0x80000000 \<noteq> 0"
proof
  have top: "bit ((d OR 0x80000000) AND 0x80000000) 31"
    by (simp only: bit_and_iff bit_or_iff bit_top_u32 simp_thms)
  assume zero: "(d OR 0x80000000) AND 0x80000000 = 0"
  have "bit (0 :: u32) 31" using top by (simp only: zero)
  then show False by (simp only: bit_0_eq bot_fun_def bot_bool_def)
qed

lemma exclusive_bit_clear:
  fixes d :: u32
  assumes "d < 2 ^ 31"
  shows "d AND 0x80000000 = 0"
  using assms
  by (intro bit_word_eqI)
    (auto simp: bit_and_iff bit_top_u32 simp del: bit_numeral_word_iff dest: u32_high_bits)

lemma decode_priority_spec_be:
  "decode_priority_spec (u32_to_be w @ [b]) =
     \<lparr>ps_dependency = w AND 0x7FFFFFFF, ps_exclusive = (w AND 0x80000000 \<noteq> 0),
      ps_weight = u8_saturating_add1 b\<rparr>"
  by (simp add: decode_priority_spec_def Let_def u32_to_be_def)

lemma decode_encode_priority_spec:
  assumes "wf_priority p"
  shows "decode_priority_spec (encode_priority_spec p) = p"
proof -
  let ?d = "ps_dependency p"
  let ?w = "if ps_exclusive p then ?d OR 0x80000000 else ?d"
  have d: "?d < 2 ^ 31" and w: "ps_weight p \<noteq> 0"
    using assms by (simp_all add: wf_priority_def)
  have "?w AND 0x7FFFFFFF = ?d" "(?w AND 0x80000000 \<noteq> 0) = ps_exclusive p"
    by (simp_all only: exclusive_bit_low [OF d] exclusive_bit_set exclusive_bit_clear [OF d]
        stream_id_mask_id [OF d] simp_thms split: if_split)
  then show ?thesis
    by (simp only: encode_priority_spec_def Let_def decode_priority_spec_be
        u8_saturating_add1_sub1 [OF w] priority_spec.surjective [symmetric] old.unit.exhaust) simp
qed

section \<open>Round trip\<close>

lemma unat_of_nat_u32: "n < 2 ^ 32 \<Longrightarrow> unat (of_nat n :: u32) = n"
  by (simp add: unat_of_nat)

lemma of_nat_u32_less24: "n < 2 ^ 24 \<Longrightarrow> (of_nat n :: u32) < 2 ^ 24"
  by (simp add: word_less_nat_alt unat_of_nat_u32)

lemma decode_header_encode:
  assumes "fh_length h < 2 ^ 24" and "fh_stream_id h < 2 ^ 31"
    and "fh_length h \<le> fd_max_frame_size dec"
  shows "decode_header dec (frame_header_encode h @ p) = Inr h"
  using assms frame_header_decode_encode [OF assms(1,2)]
  by (simp add: decode_header_def Let_def not_less)

lemma settings_chunks_encode [simp]:
  "settings_chunks (concat (map (\<lambda>(i, v). u16_to_be i @ u32_to_be v) ss)) = ss"
  by (induction ss) (auto simp: u16_to_be_def u32_to_be_def)

lemma length_settings_encode [simp]:
  "length (concat (map (\<lambda>(i, v). u16_to_be i @ u32_to_be v) ss)) = length ss * 6"
  by (induction ss) auto

text \<open>
  \<open>frame_on_wire dec f bs\<close>: a reader positioned at the start of \<open>bs\<close> accepts its header,
  takes the announced number of payload bytes and gets the frame \<open>f\<close>.
\<close>

definition frame_on_wire :: "frame_decoder \<Rightarrow> frame \<Rightarrow> bytes \<Rightarrow> bool" where
  "frame_on_wire dec f bs =
    (case decode_header dec bs of
       Inl _ \<Rightarrow> False
     | Inr h \<Rightarrow> 9 + unat (fh_length h) \<le> length bs
         \<and> frame_decode h (take (unat (fh_length h)) (drop 9 bs)) = Inr f)"

lemma frame_on_wireI:
  assumes "fh_length h = of_nat (length p)" and "length p < 2 ^ 24" and "fh_stream_id h < 2 ^ 31"
    and "length p \<le> unat (fd_max_frame_size dec)" and "frame_decode h p = Inr f"
  shows "frame_on_wire dec f (frame_header_encode h @ p @ rest)"
proof -
  have len: "unat (fh_length h) = length p"
    using assms(1,2) by (simp add: unat_of_nat_u32)
  moreover have "fh_length h < 2 ^ 24"
    using assms(1) of_nat_u32_less24 [OF assms(2)] by simp
  moreover have "fh_length h \<le> fd_max_frame_size dec"
    using assms(4) len by (simp add: word_le_nat_alt)
  ultimately show ?thesis
    using assms(3,5) by (simp add: frame_on_wire_def decode_header_encode)
qed

lemma frame_header_new_sel [simp]:
  "fh_length (frame_header_new t fl sid len) = len"
  "fh_frame_type (frame_header_new t fl sid len) = frame_type_as_u8 t"
  "fh_flags (frame_header_new t fl sid len) = fl"
  "fh_stream_id (frame_header_new t fl sid len) = sid AND 0x7FFFFFFF"
  by (simp_all add: frame_header_new_def)

text \<open>The header the encoder puts in front of each frame, and the payload that follows.\<close>

fun frame_flags :: "frame \<Rightarrow> u8" where
  "frame_flags (FData _ es _) = (if es then END_STREAM else 0)"
| "frame_flags (FHeaders _ es eh prio _) =
     (if es then END_STREAM else 0) OR (if eh then END_HEADERS else 0)
       OR (if prio \<noteq> None then PRIORITY else 0)"
| "frame_flags (FSettings ack _) = (if ack then ACK else 0)"
| "frame_flags (FPing ack _) = (if ack then ACK else 0)"
| "frame_flags (FContinuation _ eh _) = (if eh then END_HEADERS else 0)"
| "frame_flags _ = 0"

fun frame_payload :: "frame \<Rightarrow> bytes" where
  "frame_payload (FData _ _ data) = data"
| "frame_payload (FHeaders _ _ _ prio block) =
     (case prio of None \<Rightarrow> [] | Some p \<Rightarrow> encode_priority_spec p) @ block"
| "frame_payload (FPriority _ p) = encode_priority_spec p"
| "frame_payload (FRstStream _ code) = u32_to_be code"
| "frame_payload (FSettings ack ss) =
     (if ack then [] else concat (map (\<lambda>(i, v). u16_to_be i @ u32_to_be v) ss))"
| "frame_payload (FPing _ data) = data"
| "frame_payload (FGoAway lsid code dbg) = u32_to_be (lsid AND 0x7FFFFFFF) @ u32_to_be code @ dbg"
| "frame_payload (FWindowUpdate _ inc) = u32_to_be (inc AND 0x7FFFFFFF)"
| "frame_payload (FContinuation _ _ block) = block"
| "frame_payload _ = []"

definition frame_wire_header :: "frame \<Rightarrow> frame_header" where
  "frame_wire_header f =
     frame_header_new (frame_frame_type f) (frame_flags f) (frame_stream_id f)
       (of_nat (length (frame_payload f)))"

lemma frame_encode_parts:
  assumes "wf_frame f" and "encodable f"
  shows "frame_encode f = frame_header_encode (frame_wire_header f) @ frame_payload f"
  using assms
  by (cases f) (auto simp: frame_encoder_defs frame_wire_header_def Let_def split: option.splits)

lemma wf_frame_payload_length: "wf_frame f \<Longrightarrow> encodable f \<Longrightarrow> length (frame_payload f) < 2 ^ 24"
  by (cases f) (auto split: option.splits)

lemma wf_frame_stream_id: "wf_frame f \<Longrightarrow> frame_stream_id f < 2 ^ 31"
  by (cases f) auto

lemma frame_wire_header_sel [simp]:
  "fh_length (frame_wire_header f) = of_nat (length (frame_payload f))"
  "fh_frame_type (frame_wire_header f) = frame_type_as_u8 (frame_frame_type f)"
  "fh_flags (frame_wire_header f) = frame_flags f"
  "wf_frame f \<Longrightarrow> fh_stream_id (frame_wire_header f) = frame_stream_id f"
  using wf_frame_stream_id [of f] by (simp_all add: frame_wire_header_def)

lemma frame_decode_wire:
  assumes wf: "wf_frame f" and enc: "encodable f"
  shows "frame_decode (frame_wire_header f) (frame_payload f) = Inr f"
proof -
  have len: "unat (of_nat (length (frame_payload f)) :: u32) = length (frame_payload f)"
    using wf_frame_payload_length [OF assms] by (simp add: unat_of_nat_u32)
  show ?thesis
  proof (cases f)
    case (FData sid es data)
    then show ?thesis using wf len
      by (auto simp: frame_decode_def frame_type_from_u8_def decode_data_def extract_padding_def frame_flag_defs)
  next
    case (FHeaders sid es eh prio block)
    then show ?thesis using wf len
      by (cases prio)
        (auto simp: frame_decode_def frame_type_from_u8_def decode_headers_def extract_padding_def frame_flag_defs
           decode_encode_priority_spec)
  next
    case (FPriority sid p)
    then show ?thesis using wf len
      by (auto simp: frame_decode_def frame_type_from_u8_def decode_priority_def decode_encode_priority_spec)
  next
    case (FRstStream sid code)
    then show ?thesis using wf len
      by (auto simp: frame_decode_def frame_type_from_u8_def decode_rst_stream_def u32_to_be_def)
  next
    case (FSettings ack ss)
    then show ?thesis using wf len
      by (cases ack)
        (simp_all add: frame_decode_def frame_type_from_u8_def decode_settings_def frame_flag_defs
          del: concat_eq_Nil_conv)
  next
    case (FPing ack data)
    then show ?thesis using wf len
      by (auto simp: frame_decode_def frame_type_from_u8_def decode_ping_def frame_flag_defs)
  next
    case (FGoAway lsid code dbg)
    then show ?thesis using wf len
      by (auto simp: frame_decode_def frame_type_from_u8_def decode_goaway_def u32_to_be_def)
  next
    case (FWindowUpdate sid inc)
    then show ?thesis using wf len
      by (auto simp: frame_decode_def frame_type_from_u8_def decode_window_update_def u32_to_be_def Let_def)
  next
    case (FContinuation sid eh block)
    then show ?thesis using wf len
      by (auto simp: frame_decode_def frame_type_from_u8_def decode_continuation_def frame_flag_defs)
  qed (use enc in auto)
qed

text \<open>What the encoder writes for a well-formed frame reads back as that frame.\<close>

lemma frame_encode_on_wire:
  assumes "wf_frame f" and "encodable f"
    and "length (frame_payload f) \<le> unat (fd_max_frame_size dec)"
  shows "frame_on_wire dec f (frame_encode f @ rest)"
proof -
  have "frame_on_wire dec f (frame_header_encode (frame_wire_header f) @ frame_payload f @ rest)"
    using assms wf_frame_payload_length wf_frame_stream_id frame_decode_wire
    by (intro frame_on_wireI) auto
  then show ?thesis
    by (simp add: frame_encode_parts [OF assms(1,2)])
qed

section \<open>What the decoder accepts\<close>

lemma extract_padding_length:
  "extract_padding h payload = Inr (data, pad) \<Longrightarrow> length data \<le> length payload"
  by (auto simp: extract_padding_def Let_def split: if_splits)

lemma extract_padding_shape:
  assumes "extract_padding h payload = Inr (data, pad)" and "is_padded h"
  shows "\<exists>padding. payload = of_nat pad # data @ padding \<and> length padding = pad"
proof -
  from assms obtain b rest where payload: "payload = b # rest" and pad: "pad = unat b"
    and le: "unat b \<le> length rest" and data: "data = take (length rest - unat b) rest"
    by (cases payload)
      (auto simp: extract_padding_def Let_def not_le less_Suc_eq_le Suc_diff_le split: if_splits)
  have "rest = data @ drop (length rest - unat b) rest" by (simp add: data)
  with payload pad le show ?thesis
    by (intro exI [of _ "drop (length rest - unat b) rest"]) auto
qed

lemma wf_decode_priority_spec: "wf_priority (decode_priority_spec data)"
proof -
  have "ps_dependency (decode_priority_spec data) < 2 ^ 31"
    unfolding decode_priority_spec_def Let_def priority_spec.simps by (rule stream_id_mask_less)
  then show ?thesis
    by (simp add: wf_priority_def decode_priority_spec_def Let_def u8_saturating_add1_nonzero)
qed

lemma length_settings_chunks: "length (settings_chunks bs) = length bs div 6"
  by (induction bs rule: settings_chunks.induct) auto

text \<open>Every accepted frame is well formed and carries the header's type and stream id.\<close>

lemma frame_decode_wf:
  assumes dec: "frame_decode h payload = Inr f"
    and bounds: "fh_length h < 2 ^ 24" "fh_stream_id h < 2 ^ 31"
  shows "wf_frame f"
proof -
  have len: "length payload = unat (fh_length h)"
    using dec by (simp add: frame_decode_def split: if_splits)
  then have small: "length payload < 16777216"
    using bounds(1) by (simp add: word_less_nat_alt)
  have mask: "\<And>w :: u32. w AND 0x7FFFFFFF < 2147483648"
    using stream_id_mask_less by simp
  show ?thesis
    using dec len small bounds(2)
    by (auto simp: frame_decode_def frame_decoder_defs Let_def mask wf_decode_priority_spec
          length_settings_chunks frame_type_from_u8_def
          dest!: extract_padding_length split: if_splits)
qed

section \<open>Properties\<close>

text \<open>C1: A frame the server can send survives the wire: its encoding, followed by any other
  bytes, is read back by the header decoder and the payload decoder as the same frame, provided
  its fields fit their widths and its payload fits the receiver's frame size.\<close>

theorem frame_roundtrip:
  assumes "wf_frame f" and "encodable f"
    and "length (frame_payload f) \<le> unat (fd_max_frame_size dec)"
  shows "frame_on_wire dec f (frame_encode f @ rest)"
  using assms by (rule frame_encode_on_wire)

theorem frame_roundtrip_witness:
  "frame_on_wire (frame_decoder_new 16384)
     (FHeaders 5 True True (Some \<lparr>ps_dependency = 3, ps_exclusive = True, ps_weight = 16\<rparr>) [0x82, 0x86])
     (frame_encode (FHeaders 5 True True (Some \<lparr>ps_dependency = 3, ps_exclusive = True, ps_weight = 16\<rparr>)
        [0x82, 0x86]) @ [1, 2, 3])"
  by (rule frame_roundtrip) (simp_all add: wf_priority_def frame_decoder_new_def encode_priority_spec_def)

text \<open>C2: Whatever the nine header bytes and the payload are, a frame the decoder accepts is
  well formed: stream ids and window increments below 2^31, a non-zero stream id where the
  frame type demands one, no settings in an acknowledgement, eight bytes of PING data, and no
  payload beyond the negotiated frame size.\<close>

theorem frame_decode_sound:
  assumes "decode_header dec buf = Inr h" and "frame_decode h payload = Inr f"
  shows "wf_frame f \<and> length payload \<le> unat (fd_max_frame_size dec)"
proof -
  from assms(1) have h: "h = frame_header_decode (take 9 buf)" and size: "fh_length h \<le> fd_max_frame_size dec"
    by (auto simp: decode_header_def Let_def split: if_splits)
  have "length payload = unat (fh_length h)"
    using assms(2) by (simp add: frame_decode_def split: if_splits)
  moreover have "wf_frame f"
    using frame_decode_wf [OF assms(2)] frame_header_decode_bounds [of "take 9 buf"] by (simp add: h)
  ultimately show ?thesis using size by (simp add: word_le_nat_alt)
qed

theorem frame_decode_sound_witness:
  "wf_frame (FWindowUpdate 1 1000) \<and> length [0 :: u8, 0, 3, 232] \<le> unat (fd_max_frame_size (frame_decoder_new 16384))"
proof (rule frame_decode_sound)
  show "decode_header (frame_decoder_new 16384) [0, 0, 4, 8, 0, 0, 0, 0, 1] =
      Inr \<lparr>fh_length = 4, fh_frame_type = 8, fh_flags = 0, fh_stream_id = 1\<rparr>"
    by code_simp
  show "frame_decode \<lparr>fh_length = 4, fh_frame_type = 8, fh_flags = 0, fh_stream_id = 1\<rparr> [0, 0, 3, 232] =
      Inr (FWindowUpdate 1 1000)"
    by code_simp
qed

end
