(* ===== verification/Settings.thy ===== *)
theory Settings
  imports Frame_Codec
begin

text \<open>
  Model of \<open>src/http2/settings.rs\<close>: the SETTINGS parameters, their defaults, and the
  encoding and decoding of a SETTINGS payload. A decoded payload starts from the default
  settings and applies its parameters in order; the limits for DoS protection are local
  and never travel.
\<close>

section \<open>Parameters and defaults\<close>

datatype settings_id =
    HeaderTableSize | EnablePush | MaxConcurrentStreams | InitialWindowSize
  | MaxFrameSize | MaxHeaderListSize

fun settings_id_as_u16 :: "settings_id \<Rightarrow> u16" where
  "settings_id_as_u16 HeaderTableSize = 0x1"
| "settings_id_as_u16 EnablePush = 0x2"
| "settings_id_as_u16 MaxConcurrentStreams = 0x3"
| "settings_id_as_u16 InitialWindowSize = 0x4"
| "settings_id_as_u16 MaxFrameSize = 0x5"
| "settings_id_as_u16 MaxHeaderListSize = 0x6"

definition settings_id_from_u16 :: "u16 \<Rightarrow> settings_id option" where
  "settings_id_from_u16 v =
    (if v = 0x1 then Some HeaderTableSize
     else if v = 0x2 then Some EnablePush
     else if v = 0x3 then Some MaxConcurrentStreams
     else if v = 0x4 then Some InitialWindowSize
     else if v = 0x5 then Some MaxFrameSize
     else if v = 0x6 then Some MaxHeaderListSize
     else None)"

definition HEADER_TABLE_SIZE :: u32 where [simp]: "HEADER_TABLE_SIZE = 4096"
definition MAX_CONCURRENT_STREAMS :: u32 where [simp]: "MAX_CONCURRENT_STREAMS = 100"
definition INITIAL_WINDOW_SIZE :: u32 where [simp]: "INITIAL_WINDOW_SIZE = 65535"
definition MAX_FRAME_SIZE :: u32 where [simp]: "MAX_FRAME_SIZE = 16384"
definition MAX_FRAME_SIZE_UPPER_LIMIT :: u32 where [simp]: "MAX_FRAME_SIZE_UPPER_LIMIT = 16777215"
definition MAX_HEADER_LIST_SIZE :: u32 where [simp]: "MAX_HEADER_LIST_SIZE = 16384"
definition CONNECTION_WINDOW_SIZE :: u32 where [simp]: "CONNECTION_WINDOW_SIZE = 65535"
definition MAX_RST_STREAM_PER_SECOND :: u32 where [simp]: "MAX_RST_STREAM_PER_SECOND = 100"
definition MAX_CONTROL_FRAMES_PER_SECOND :: u32 where [simp]: "MAX_CONTROL_FRAMES_PER_SECOND = 500"
definition MAX_CONTINUATION_FRAMES :: u32 where [simp]: "MAX_CONTINUATION_FRAMES = 10"
definition MAX_HEADER_BLOCK_SIZE :: nat where [simp]: "MAX_HEADER_BLOCK_SIZE = 65536"
definition STREAM_IDLE_TIMEOUT_SECS :: nat where [simp]: "STREAM_IDLE_TIMEOUT_SECS = 60"

record http2_settings =
  hs_header_table_size :: u32
  hs_enable_push :: bool
  hs_max_concurrent_streams :: u32
  hs_initial_window_size :: u32
  hs_max_frame_size :: u32
  hs_max_header_list_size :: u32
  hs_connection_window_size :: u32
  hs_max_rst_stream_per_second :: u32
  hs_max_control_frames_per_second :: u32
  hs_max_continuation_frames :: u32
  hs_max_header_block_size :: nat
  hs_stream_idle_timeout_secs :: nat

definition settings_default :: http2_settings where
  "settings_default =
    \<lparr>hs_header_table_size = HEADER_TABLE_SIZE,
     hs_enable_push = False,
     hs_max_concurrent_streams = MAX_CONCURRENT_STREAMS,
     hs_initial_window_size = INITIAL_WINDOW_SIZE,
     hs_max_frame_size = MAX_FRAME_SIZE,
     hs_max_header_list_size = MAX_HEADER_LIST_SIZE,
     hs_connection_window_size = CONNECTION_WINDOW_SIZE,
     hs_max_rst_stream_per_second = MAX_RST_STREAM_PER_SECOND,
     hs_max_control_frames_per_second = MAX_CONTROL_FRAMES_PER_SECOND,
     hs_max_continuation_frames = MAX_CONTINUATION_FRAMES,
     hs_max_header_block_size = MAX_HEADER_BLOCK_SIZE,
     hs_stream_idle_timeout_secs = STREAM_IDLE_TIMEOUT_SECS\<rparr>"

definition settings_high_performance :: http2_settings where
  "settings_high_performance =
    \<lparr>hs_header_table_size = 65536,
     hs_enable_push = False,
     hs_max_concurrent_streams = 256,
     hs_initial_window_size = 1048576,
     hs_max_frame_size = 65536,
     hs_max_header_list_size = 65536,
     hs_connection_window_size = 16777216,
     hs_max_rst_stream_per_second = MAX_RST_STREAM_PER_SECOND,
     hs_max_control_frames_per_second = MAX_CONTROL_FRAMES_PER_SECOND,
     hs_max_continuation_frames = MAX_CONTINUATION_FRAMES,
     hs_max_header_block_size = MAX_HEADER_BLOCK_SIZE,
     hs_stream_idle_timeout_secs = STREAM_IDLE_TIMEOUT_SECS\<rparr>"

section \<open>Payload\<close>

definition bool_as_u32 :: "bool \<Rightarrow> u32" where
  "bool_as_u32 b = (if b then 1 else 0)"

definition settings_encode :: "http2_settings \<Rightarrow> bytes" where
  "settings_encode s =
     u16_to_be (settings_id_as_u16 HeaderTableSize) @ u32_to_be (hs_header_table_size s)
     @ u16_to_be (settings_id_as_u16 EnablePush) @ u32_to_be (bool_as_u32 (hs_enable_push s))
     @ u16_to_be (settings_id_as_u16 MaxConcurrentStreams) @ u32_to_be (hs_max_concurrent_streams s)
     @ u16_to_be (settings_id_as_u16 InitialWindowSize) @ u32_to_be (hs_initial_window_size s)
     @ u16_to_be (settings_id_as_u16 MaxFrameSize) @ u32_to_be (hs_max_frame_size s)
     @ u16_to_be (settings_id_as_u16 MaxHeaderListSize) @ u32_to_be (hs_max_header_list_size s)"

text \<open>One iteration of the loop in \<open>Http2Settings::decode\<close>.\<close>

definition settings_decode_step ::
    "http2_settings \<Rightarrow> u16 \<times> u32 \<Rightarrow> string + http2_settings" where
  "settings_decode_step s = (\<lambda>(i, v).
    case settings_id_from_u16 i of
      Some HeaderTableSize \<Rightarrow> Inr (s\<lparr>hs_header_table_size := v\<rparr>)
    | Some EnablePush \<Rightarrow>
        if v > 1 then Inl ''ENABLE_PUSH must be 0 or 1''
        else Inr (s\<lparr>hs_enable_push := (v = 1)\<rparr>)
    | Some MaxConcurrentStreams \<Rightarrow> Inr (s\<lparr>hs_max_concurrent_streams := v\<rparr>)
    | Some InitialWindowSize \<Rightarrow>
        if v > 0x7FFFFFFF then Inl ''INITIAL_WINDOW_SIZE too large''
        else Inr (s\<lparr>hs_initial_window_size := v\<rparr>)
    | Some MaxFrameSize \<Rightarrow>
        if \<not> (MAX_FRAME_SIZE \<le> v \<and> v \<le> MAX_FRAME_SIZE_UPPER_LIMIT)
        then Inl (''MAX_FRAME_SIZE must be between '' @ show_nat (unat MAX_FRAME_SIZE)
               @ '' and '' @ show_nat (unat MAX_FRAME_SIZE_UPPER_LIMIT))
        else Inr (s\<lparr>hs_max_frame_size := v\<rparr>)
    | Some MaxHeaderListSize \<Rightarrow> Inr (s\<lparr>hs_max_header_list_size := v\<rparr>)
    | None \<Rightarrow> Inr s)"

fun settings_decode_loop ::
    "http2_settings \<Rightarrow> (u16 \<times> u32) list \<Rightarrow> string + http2_settings" where
  "settings_decode_loop s [] = Inr s"
| "settings_decode_loop s (c # cs) =
     bind_res (settings_decode_step s c) (\<lambda>s'. settings_decode_loop s' cs)"

definition settings_decode :: "bytes \<Rightarrow> string + http2_settings" where
  "settings_decode payload =
    (if length payload mod 6 \<noteq> 0 then Inl ''SETTINGS payload length must be multiple of 6''
     else settings_decode_loop settings_default (settings_chunks payload))"

definition settings_apply :: "http2_settings \<Rightarrow> http2_settings \<Rightarrow> http2_settings" where
  "settings_apply self other = self
    \<lparr>hs_header_table_size := hs_header_table_size other,
     hs_enable_push := hs_enable_push other,
     hs_max_concurrent_streams := hs_max_concurrent_streams other,
     hs_initial_window_size := hs_initial_window_size other,
     hs_max_frame_size := hs_max_frame_size other,
     hs_max_header_list_size := hs_max_header_list_size other\<rparr>"

section \<open>Validity and the round trip\<close>

text \<open>The ranges RFC 7540 Section 6.5.2 allows.\<close>

definition valid_settings :: "http2_settings \<Rightarrow> bool" where
  "valid_settings s =
    (hs_initial_window_size s \<le> 0x7FFFFFFF
     \<and> MAX_FRAME_SIZE \<le> hs_max_frame_size s
     \<and> hs_max_frame_size s \<le> MAX_FRAME_SIZE_UPPER_LIMIT)"

lemma settings_id_from_as_u16 [simp]: "settings_id_from_u16 (settings_id_as_u16 i) = Some i"
  by (cases i) (simp_all add: settings_id_from_u16_def)

lemma valid_settings_default [simp]: "valid_settings settings_default"
  by (simp add: valid_settings_def settings_default_def)

lemma valid_settings_high_performance [simp]: "valid_settings settings_high_performance"
  by (simp add: valid_settings_def settings_high_performance_def)

lemma settings_decode_step_valid:
  "settings_decode_step s c = Inr s' \<Longrightarrow> valid_settings s \<Longrightarrow> valid_settings s'"
  by (cases c)
    (auto simp: settings_decode_step_def valid_settings_def split: option.splits settings_id.splits if_splits)

lemma settings_decode_loop_valid:
  "settings_decode_loop s cs = Inr s' \<Longrightarrow> valid_settings s \<Longrightarrow> valid_settings s'"
  by (induction cs arbitrary: s) (auto dest: settings_decode_step_valid)

lemma length_settings_encode36 [simp]: "length (settings_encode s) = 36"
  by (simp add: settings_encode_def)

text \<open>The six parameters a settings payload carries, in order.\<close>

definition settings_params :: "http2_settings \<Rightarrow> (u16 \<times> u32) list" where
  "settings_params s =
    [(settings_id_as_u16 HeaderTableSize, hs_header_table_size s),
     (settings_id_as_u16 EnablePush, bool_as_u32 (hs_enable_push s)),
     (settings_id_as_u16 MaxConcurrentStreams, hs_max_concurrent_streams s),
     (settings_id_as_u16 InitialWindowSize, hs_initial_window_size s),
     (settings_id_as_u16 MaxFrameSize, hs_max_frame_size s),
     (settings_id_as_u16 MaxHeaderListSize, hs_max_header_list_size s)]"

lemma settings_encode_params:
  "settings_encode s = concat (map (\<lambda>(i, v). u16_to_be i @ u32_to_be v) (settings_params s))"
  by (simp add: settings_encode_def settings_params_def del: settings_id_as_u16.simps)

lemma settings_chunks_settings_encode [simp]:
  "settings_chunks (settings_encode s) = settings_params s"
  by (simp only: settings_encode_params settings_chunks_encode)

lemma bool_as_u32_simps [simp]: "bool_as_u32 b \<le> 1" "(bool_as_u32 b = 1) = b" "\<not> 1 < bool_as_u32 b"
  by (simp_all add: bool_as_u32_def)

lemma settings_decode_params:
  assumes "valid_settings s"
  shows "settings_decode_loop t (settings_params s) = Inr (settings_apply t s)"
  using assms
  by (simp add: settings_params_def settings_decode_step_def valid_settings_def settings_apply_def
      not_less del: settings_id_as_u16.simps)

section \<open>Properties\<close>

text \<open>C3: A valid settings block survives the wire: decoding the encoded payload yields the six
  transmitted parameters on top of the defaults.\<close>

theorem settings_roundtrip:
  assumes "valid_settings s"
  shows "settings_decode (settings_encode s) = Inr (settings_apply settings_default s)"
  using settings_decode_params [OF assms] by (simp add: settings_decode_def)

theorem settings_roundtrip_witness:
  "settings_decode (settings_encode settings_high_performance) =
    Inr (settings_apply settings_default settings_high_performance)"
  by (rule settings_roundtrip) simp

text \<open>C4: Decoding never yields settings outside the ranges of RFC 7540 Section 6.5.2, whatever
  the payload contains and in whatever order, repeated and unknown parameters included.\<close>

theorem settings_decode_valid:
  assumes "settings_decode payload = Inr s"
  shows "valid_settings s"
  using assms settings_decode_loop_valid [OF _ valid_settings_default]
  by (auto simp: settings_decode_def split: if_splits)

theorem settings_decode_valid_witness:
  "valid_settings (settings_default\<lparr>hs_max_frame_size := 16777215, hs_initial_window_size := 0\<rparr>)"
  by (rule settings_decode_valid [where payload =
        "[0, 5, 0, 255, 255, 255, 0, 9, 1, 1, 1, 1, 0, 4, 0, 0, 0, 0]"])
    (simp add: settings_decode_def settings_decode_step_def settings_default_def settings_id_from_u16_def
      u16_from_be_def u32_from_be_def)

end
