(* ===== verification/Hpack_Int.thy ===== *)
theory Hpack_Int
  imports Prelude
begin

unbundle bit_operations_syntax

text \<open>
  Model of \<open>src/http2/hpack/mod.rs\<close>: the HPACK error type and the prefix-coded integers
  of RFC 7541 Section 5.1. Values are \<open>usize\<close> on a 64-bit target: \<open>checked_shl\<close> fails
  only on a shift of 64 or more and drops bits beyond 64, \<open>checked_add\<close> fails on
  overflow. The decoder stops after five continuation bytes.
\<close>

section \<open>Errors\<close>

datatype hpack_error =
    InvalidIndex nat
  | IntegerOverflow
  | HuffmanDecodeError
  | InvalidString
  | BufferTooShort
  | TableSizeExceeded
  | TableSizeUpdateAfterHeader
  | InvalidEncoding string

type_synonym 'a hpack_result = "hpack_error + 'a"

fun display_hpack_error :: "hpack_error \<Rightarrow> string" where
  "display_hpack_error (InvalidIndex i) = ''Invalid HPACK index: '' @ show_nat i"
| "display_hpack_error IntegerOverflow = ''HPACK integer overflow''"
| "display_hpack_error HuffmanDecodeError = ''Huffman decode error''"
| "display_hpack_error InvalidString = ''Invalid HPACK string''"
| "display_hpack_error BufferTooShort = ''Buffer too short for HPACK''"
| "display_hpack_error TableSizeExceeded = ''Dynamic table size exceeded''"
| "display_hpack_error TableSizeUpdateAfterHeader = ''Dynamic table size update after header''"
| "display_hpack_error (InvalidEncoding s) = ''Invalid HPACK encoding: '' @ s"

section \<open>Integers\<close>

definition checked_shl_usize :: "nat \<Rightarrow> nat \<Rightarrow> nat option" where
  "checked_shl_usize v m = (if m \<ge> 64 then None else Some ((v * 2 ^ m) mod 2 ^ 64))"

definition checked_add_usize :: "nat \<Rightarrow> nat \<Rightarrow> nat option" where
  "checked_add_usize a b = (if a + b \<ge> 2 ^ 64 then None else Some (a + b))"

definition prefix_mask :: "nat \<Rightarrow> u8" where
  "prefix_mask prefix_bits = (if prefix_bits \<ge> 8 then 0xFF else push_bit prefix_bits 1 - 1)"

text \<open>The \<open>loop\<close>: \<open>rest\<close> is \<open>buf[i..]\<close>.\<close>

fun decode_integer_loop :: "bytes \<Rightarrow> nat \<Rightarrow> nat \<Rightarrow> nat \<Rightarrow> (nat \<times> nat) hpack_result" where
  "decode_integer_loop [] value m i = Inl BufferTooShort"
| "decode_integer_loop (byte # rest) value m i =
    (case checked_shl_usize (unat (byte AND 0x7F)) m of
       None \<Rightarrow> Inl IntegerOverflow
     | Some add \<Rightarrow>
       (case checked_add_usize value add of
          None \<Rightarrow> Inl IntegerOverflow
        | Some value' \<Rightarrow>
            if byte AND 0x80 = 0 then Inr (value', i + 1)
            else if m + 7 > 28 then Inl IntegerOverflow
            else decode_integer_loop rest value' (m + 7) (i + 1)))"

declare decode_integer_loop.simps(2) [simp del]

definition decode_integer :: "bytes \<Rightarrow> nat \<Rightarrow> (nat \<times> nat) hpack_result" where
  "decode_integer buf prefix_bits =
    (case buf of
       [] \<Rightarrow> Inl BufferTooShort
     | b0 # rest \<Rightarrow>
         let mask = prefix_mask prefix_bits; first_byte = b0 AND mask
         in if first_byte < mask then Inr (unat first_byte, 1)
            else decode_integer_loop rest (unat mask) 0 1)"

fun encode_integer_rest :: "nat \<Rightarrow> bytes" where
  "encode_integer_rest remaining =
    (if remaining \<ge> 128
     then (0x80 OR (of_nat remaining AND 0x7F)) # encode_integer_rest (remaining div 128)
     else [of_nat remaining])"

declare encode_integer_rest.simps [simp del]

definition encode_integer :: "bytes \<Rightarrow> nat \<Rightarrow> nat \<Rightarrow> u8 \<Rightarrow> bytes" where
  "encode_integer buf value prefix_bits prefix =
    (let mask = prefix_mask prefix_bits
     in if value < unat mask then buf @ [prefix OR of_nat value]
        else buf @ [prefix OR mask] @ encode_integer_rest (value - unat mask))"

section \<open>Lemmas\<close>

lemma encode_integer_append: "encode_integer buf v p prefix = buf @ encode_integer [] v p prefix"
  by (simp add: encode_integer_def Let_def)

lemma u8_and_7F: "unat (b AND (0x7F :: u8)) = unat b mod 128"
proof -
  have "(0x7F :: u8) = mask 7" by (simp add: mask_eq_exp_minus_1)
  then have "b AND 0x7F = take_bit 7 b" by (simp only: take_bit_eq_mask)
  then show ?thesis by (simp only: unsigned_take_bit_eq) (simp add: take_bit_eq_mod)
qed

lemma u8_and_80: "(b AND (0x80 :: u8) = 0) = (unat b < 128)"
proof -
  have "(0x80 :: u8) = 2 ^ 7" by simp
  then have "(b AND 0x80 = 0) = (\<not> bit b 7)"
    by (simp only: and_exp_eq_0_iff_not_bit)
  also have "\<dots> = (\<not> bit (unat b) 7)"
    by (simp add: bit_unsigned_iff)
  also have "\<dots> = (even (unat b div 128))"
    by (simp add: bit_iff_odd)
  also have "\<dots> = (unat b div 128 = 0)"
  proof -
    have "unat b div 128 < 2"
      using unsigned_less [of b, where 'a = nat] by (simp add: div_less_iff_less_mult)
    then show ?thesis by (auto simp: less_2_cases_iff)
  qed
  also have "\<dots> = (unat b < 128)"
    by (simp add: div_eq_0_iff)
  finally show ?thesis .
qed

lemma unat_of_nat_u8: "unat (of_nat n :: u8) = n mod 256"
  by (simp add: unat_of_nat)

lemma unat_continuation_byte: "unat (0x80 OR (of_nat n AND (0x7F :: u8))) = 128 + n mod 128"
proof -
  have "unat (0x80 OR (of_nat n AND (0x7F :: u8))) = unat (0x80 + (of_nat n AND (0x7F :: u8)))"
  proof (subst disjunctive_add)
    have "(0x80 :: u8) = 2 ^ 7" and "(0x7F :: u8) = mask 7"
      by (simp_all add: mask_eq_exp_minus_1)
    then show "\<not> bit (0x80 :: u8) k \<or> \<not> bit (of_nat n AND (0x7F :: u8)) k" for k
      by (simp only: bit_and_iff bit_exp_iff bit_mask_iff) auto
  qed simp
  also have "\<dots> = 128 + unat (of_nat n AND (0x7F :: u8))"
    by (subst unat_add_lem [THEN iffD1]) (simp_all add: u8_and_7F)
  also have "\<dots> = 128 + n mod 128"
    by (simp add: u8_and_7F unat_of_nat_u8 mod_mod_cancel)
  finally show ?thesis .
qed

lemma checked_shl_small:
  "v < 128 \<Longrightarrow> m \<le> 28 \<Longrightarrow> checked_shl_usize v m = Some (v * 2 ^ m)"
proof -
  assume "v < 128" and "m \<le> 28"
  then have "v * 2 ^ m < 128 * 2 ^ 28"
    by (intro mult_less_le_imp_less power_increasing) auto
  with \<open>m \<le> 28\<close> show ?thesis by (simp add: checked_shl_usize_def)
qed

lemma shift_split: "(r mod 128) * 2 ^ m + (r div 128) * 2 ^ (m + 7) = r * 2 ^ m" for r :: nat
proof -
  have "(r mod 128) * 2 ^ m + (r div 128) * 2 ^ (m + 7) = (r mod 128 + r div 128 * 128) * 2 ^ m"
    by (simp only: power_add add_mult_distrib) simp
  then show ?thesis by (simp only: mod_div_mult_eq)
qed

text \<open>One iteration of the loop, on a continuation byte and on the last byte.\<close>

lemma decode_integer_loop_continue:
  assumes "unat b = 128 + d" and "k \<le> 3" and "acc + d * 2 ^ (7 * k) < 2 ^ 64"
  shows "decode_integer_loop (b # rest) acc (7 * k) i =
    decode_integer_loop rest (acc + d * 2 ^ (7 * k)) (7 * Suc k) (i + 1)"
proof -
  have d: "d < 128" using assms(1) unsigned_less [of b, where 'a = nat] by simp
  have "unat (b AND 0x7F) = d" and "b AND 0x80 \<noteq> 0"
    using d assms(1) by (simp_all only: u8_and_7F u8_and_80) simp_all
  moreover have "checked_shl_usize d (7 * k) = Some (d * 2 ^ (7 * k))"
    using d assms(2) by (intro checked_shl_small) simp_all
  moreover have "checked_add_usize acc (d * 2 ^ (7 * k)) = Some (acc + d * 2 ^ (7 * k))"
    using assms(3) by (simp add: checked_add_usize_def)
  moreover have "\<not> 7 * k + 7 > 28" and "7 * k + 7 = 7 * Suc k" using assms(2) by simp_all
  ultimately show ?thesis by (simp only: decode_integer_loop.simps option.case if_False)
qed

lemma decode_integer_loop_last:
  assumes "unat b < 128" and "k \<le> 4" and "acc + unat b * 2 ^ (7 * k) < 2 ^ 64"
  shows "decode_integer_loop (b # rest) acc (7 * k) i = Inr (acc + unat b * 2 ^ (7 * k), i + 1)"
proof -
  have "unat (b AND 0x7F) = unat b" and "b AND 0x80 = 0"
    using assms(1) by (simp_all only: u8_and_7F u8_and_80) simp_all
  moreover have "checked_shl_usize (unat b) (7 * k) = Some (unat b * 2 ^ (7 * k))"
    using assms(1,2) by (intro checked_shl_small) simp_all
  moreover have "checked_add_usize acc (unat b * 2 ^ (7 * k)) = Some (acc + unat b * 2 ^ (7 * k))"
    using assms(3) by (simp add: checked_add_usize_def)
  ultimately show ?thesis by (simp only: decode_integer_loop.simps option.case if_True simp_thms)
qed

text \<open>The loop reads back what the encoder's loop wrote, from any accumulator.\<close>

lemma decode_integer_loop_encode:
  assumes "r < 2 ^ (35 - 7 * k)" and "k \<le> 4" and "acc + r * 2 ^ (7 * k) < 2 ^ 64"
  shows "decode_integer_loop (encode_integer_rest r @ rest) acc (7 * k) i =
    Inr (acc + r * 2 ^ (7 * k), i + length (encode_integer_rest r))"
  using assms
proof (induction r arbitrary: acc k i rule: encode_integer_rest.induct)
  case (1 r)
  show ?case
  proof (cases "r \<ge> 128")
    case True
    let ?acc = "acc + (r mod 128) * 2 ^ (7 * k)"
    have k: "k \<le> 3"
    proof (rule ccontr)
      assume "\<not> k \<le> 3"
      with "1.prems"(2) have "k = 4" by simp
      with "1.prems"(1) True show False by simp
    qed
    have "35 - 7 * k = (35 - 7 * Suc k) + 7" using k by simp
    with "1.prems"(1) have "r < 2 ^ (35 - 7 * Suc k) * 128" by (simp only: power_add) simp
    then have small: "r div 128 < 2 ^ (35 - 7 * Suc k)"
      by (simp only: div_less_iff_less_mult zero_less_numeral)
    have total: "?acc + (r div 128) * 2 ^ (7 * Suc k) = acc + r * 2 ^ (7 * k)"
      using shift_split [of r "7 * k"] by (simp add: add.commute)
    have "decode_integer_loop (encode_integer_rest (r div 128) @ rest) ?acc (7 * Suc k) (i + 1) =
      Inr (acc + r * 2 ^ (7 * k), i + 1 + length (encode_integer_rest (r div 128)))"
      using "1.IH" [OF True small, of ?acc "i + 1"] k "1.prems"(3) total by simp
    moreover have "?acc < 2 ^ 64" using total "1.prems"(3) by linarith
    ultimately show ?thesis
      using True k
      by (simp add: encode_integer_rest.simps [of r]
          decode_integer_loop_continue [OF unat_continuation_byte])
  next
    case False
    then have "unat (of_nat r :: u8) = r" by (simp add: unat_of_nat_u8)
    then have "decode_integer_loop (of_nat r # rest) acc (7 * k) i =
        Inr (acc + r * 2 ^ (7 * k), i + 1)"
      using decode_integer_loop_last [of "of_nat r" k acc rest i] False "1.prems"(2,3)
      by (simp only: not_le)
    with False show ?thesis
      by (simp add: encode_integer_rest.simps [of r])
  qed
qed

section \<open>Round trip and bounds\<close>

lemma prefix_mask_eq: "p \<le> 8 \<Longrightarrow> prefix_mask p = mask p"
proof (cases "p = 8")
  case True
  have "(mask 8 :: u8) = 0xFF" by (simp add: mask_eq_exp_minus_1)
  with True show ?thesis by (simp add: prefix_mask_def)
qed (simp add: prefix_mask_def mask_eq_exp_minus_1 push_bit_eq_mult)

lemma unat_prefix_mask: "p \<le> 8 \<Longrightarrow> unat (prefix_mask p) = 2 ^ p - 1"
proof -
  assume "p \<le> 8"
  have "(mask p :: nat) < 2 ^ p" by (simp add: mask_eq_exp_minus_1)
  also have "(2 :: nat) ^ p \<le> 2 ^ 8" using \<open>p \<le> 8\<close> by (intro power_increasing) simp_all
  finally have "unat (of_nat (mask p) :: u8) = mask p" by (simp add: unat_of_nat_u8)
  with \<open>p \<le> 8\<close> show ?thesis
    by (simp add: prefix_mask_eq mask_eq_exp_minus_1 of_nat_mask_eq)
qed

lemma prefix_or_and_mask:
  fixes prefix x :: u8
  assumes "prefix AND prefix_mask p = 0"
  shows "(prefix OR x) AND prefix_mask p = x AND prefix_mask p"
  using assms by (simp add: bit.conj_disj_distrib2)

lemma small_and_prefix_mask:
  assumes "p \<le> 8" and "v < 2 ^ p"
  shows "(of_nat v :: u8) AND prefix_mask p = of_nat v"
proof -
  have "(of_nat v :: u8) AND mask p = of_nat (take_bit p v)"
    by (simp add: of_nat_take_bit flip: take_bit_eq_mask)
  also have "take_bit p v = v"
    using assms(2) by (simp add: take_bit_nat_eq_self)
  finally show ?thesis by (simp add: prefix_mask_eq [OF assms(1)])
qed

lemma decode_encode_integer:
  assumes p: "1 \<le> p" "p \<le> 8" and pre: "prefix AND prefix_mask p = 0" and v: "v < 2 ^ 35"
  shows "decode_integer (encode_integer [] v p prefix @ rest) p =
    Inr (v, length (encode_integer [] v p prefix))"
proof (cases "v < unat (prefix_mask p)")
  case True
  then have small: "v < 2 ^ p" using unat_prefix_mask [OF p(2)] by linarith
  have "(2 :: nat) ^ p \<le> 2 ^ 8" using p(2) by (intro power_increasing) simp_all
  with small have "unat (of_nat v :: u8) = v" by (simp add: unat_of_nat_u8)
  moreover from this True have "(of_nat v :: u8) < prefix_mask p"
    by (simp add: word_less_nat_alt)
  ultimately show ?thesis
    using True
    by (simp add: encode_integer_def decode_integer_def Let_def prefix_or_and_mask [OF pre]
        small_and_prefix_mask [OF p(2) small])
next
  case False
  let ?m = "unat (prefix_mask p)"
  have m: "?m < 2 ^ 8" using unsigned_less [of "prefix_mask p", where 'a = nat] by simp
  have "decode_integer_loop (encode_integer_rest (v - ?m) @ rest) ?m (7 * 0) 1 =
    Inr (?m + (v - ?m) * 2 ^ (7 * 0), 1 + length (encode_integer_rest (v - ?m)))"
    using v m False by (intro decode_integer_loop_encode) simp_all
  with False show ?thesis
    by (simp add: encode_integer_def decode_integer_def Let_def prefix_or_and_mask [OF pre])
qed

text \<open>A decoded integer consumes at least one and at most six of the available bytes.\<close>

lemma decode_integer_loop_bounds:
  assumes "decode_integer_loop rest acc (7 * k) i = Inr (v, n)" and "k \<le> 4"
  shows "n \<le> i + length rest \<and> i < n \<and> n + k \<le> i + 5 \<and> v + 2 ^ (7 * k) \<le> acc + 2 ^ 35"
  using assms
proof (induction rest arbitrary: acc k i)
  case (Cons b rest)
  let ?d = "unat (b AND 0x7F)"
  have d: "?d \<le> 127" by (simp add: u8_and_7F)
  then have dm: "?d * 2 ^ (7 * k) \<le> 127 * 2 ^ (7 * k)" by simp
  have "checked_shl_usize ?d (7 * k) = Some (?d * 2 ^ (7 * k))"
    using d Cons.prems(2) by (intro checked_shl_small) simp_all
  then consider (stop) "v = acc + ?d * 2 ^ (7 * k)" "n = i + 1"
    | (more) "decode_integer_loop rest (acc + ?d * 2 ^ (7 * k)) (7 * Suc k) (i + 1) = Inr (v, n)" "k \<le> 3"
    using Cons.prems(1)
    by (auto simp: decode_integer_loop.simps(2) checked_add_usize_def add.commute split: if_splits)
  then show ?case
  proof cases
    case stop
    have "(2 :: nat) ^ (7 * k) \<le> 2 ^ 28" using Cons.prems(2) by (intro power_increasing) simp_all
    then have "128 * (2 :: nat) ^ (7 * k) \<le> 128 * 2 ^ 28" by (rule mult_le_mono2)
    with dm have "?d * 2 ^ (7 * k) + 2 ^ (7 * k) \<le> 128 * 2 ^ 28" by linarith
    with stop Cons.prems(2) show ?thesis by simp
  next
    case more
    from Cons.IH [OF more(1)] more(2)
    have IH: "n \<le> (i + 1) + length rest \<and> i + 1 < n \<and> n + Suc k \<le> (i + 1) + 5
        \<and> v + 2 ^ (7 * Suc k) \<le> (acc + ?d * 2 ^ (7 * k)) + 2 ^ 35" by simp
    then have "v + 2 ^ (7 * Suc k) \<le> (acc + ?d * 2 ^ (7 * k)) + 2 ^ 35" by simp
    moreover have "(2 :: nat) ^ (7 * Suc k) = 128 * 2 ^ (7 * k)" by (simp add: power_add)
    ultimately have "v + 2 ^ (7 * k) \<le> acc + 2 ^ 35" using dm by linarith
    with IH show ?thesis by simp
  qed
qed simp

lemma decode_integer_bounds:
  assumes "decode_integer buf p = Inr (v, n)"
  shows "1 \<le> n" and "n \<le> 6" and "n \<le> length buf" and "v < 2 ^ 35 + 256"
proof -
  from assms obtain b rest where buf: "buf = b # rest"
    by (cases buf) (auto simp: decode_integer_def)
  have m: "unat (prefix_mask p) < 256"
    using unsigned_less [of "prefix_mask p", where 'a = nat] by simp
  have fb: "unat (b AND prefix_mask p) < 256"
    using unsigned_less [of "b AND prefix_mask p", where 'a = nat] by simp
  from assms buf consider "v = unat (b AND prefix_mask p)" "n = 1"
    | "decode_integer_loop rest (unat (prefix_mask p)) (7 * 0) 1 = Inr (v, n)"
    by (auto simp: decode_integer_def Let_def split: if_splits)
  then have "1 \<le> n \<and> n \<le> 6 \<and> n \<le> length buf \<and> v < 2 ^ 35 + 256"
  proof cases
    case 1
    with fb buf show ?thesis by simp
  next
    case 2
    from decode_integer_loop_bounds [OF this] m buf show ?thesis by simp
  qed
  then show "1 \<le> n" "n \<le> 6" "n \<le> length buf" "v < 2 ^ 35 + 256" by auto
qed

section \<open>Properties\<close>

text \<open>C5: HPACK integers survive the wire for every prefix width: the decoder returns the
  encoded number and the number of bytes the encoder wrote, whatever follows them, for all
  values below 2^35.\<close>

theorem integer_roundtrip:
  assumes "1 \<le> p" "p \<le> 8" "prefix AND prefix_mask p = 0" "v < 2 ^ 35"
  shows "decode_integer (encode_integer [] v p prefix @ rest) p =
    Inr (v, length (encode_integer [] v p prefix))"
  using assms by (rule decode_encode_integer)

theorem integer_roundtrip_witness:
  "decode_integer (encode_integer [] 1337 5 0x20 @ [7]) 5 = Inr (1337, length (encode_integer [] 1337 5 0x20))"
  by (rule integer_roundtrip) (simp_all add: prefix_mask_def)

text \<open>C6: The decoder reads at least one and at most six bytes, never past the end of the buffer,
  and the number it returns stays below 2^35 + 256, far from the end of the 64-bit range: a
  hostile peer can neither overflow the accumulator nor stall the reader.\<close>

theorem integer_decode_bounds:
  assumes "decode_integer buf p = Inr (v, n)"
  shows "1 \<le> n \<and> n \<le> 6 \<and> n \<le> length buf \<and> v < 2 ^ 35 + 256"
  using decode_integer_bounds [OF assms] by blast

theorem integer_decode_bounds_witness:
  "(1 :: nat) \<le> 3 \<and> (3 :: nat) \<le> 6 \<and> 3 \<le> length [0x1F :: u8, 0x9A, 0x0A] \<and> (1337 :: nat) < 2 ^ 35 + 256"
  by (rule integer_decode_bounds [where p = 5])
    (simp add: decode_integer_def prefix_mask_def decode_integer_loop.simps(2) checked_shl_usize_def
      checked_add_usize_def)

end
