(* ===== verification/Hpack_Table.thy ===== *)
theory Hpack_Table
  imports Hpack_Int
begin

text \<open>
  The HPACK header tables of src/src/http2/hpack/table.rs: header fields and their RFC 7541
  size, the static table, the size-bounded dynamic table with its two eviction loops, and the
  combined index space (1 to 61 static, 62 and up dynamic).

  The dynamic table is specified by the function \<open>fit\<close>: the contents are the longest run of
  newest entries whose total size stays within the limit.  The locale \<open>bounded_table\<close> states
  that contract for any table and derives what its clients use; it is interpreted on the
  code's table at the end.
\<close>

section \<open>Header fields\<close>

record header_field =
  hf_name :: bytes
  hf_value :: bytes

definition header_field_new :: "bytes \<Rightarrow> bytes \<Rightarrow> header_field" where
  "header_field_new name val = \<lparr>hf_name = name, hf_value = val\<rparr>"

definition header_field_size :: "header_field \<Rightarrow> nat" where
  "header_field_size f = length (hf_name f) + length (hf_value f) + 32"

definition name_eq :: "header_field \<Rightarrow> bytes \<Rightarrow> bool" where
  "name_eq f other \<longleftrightarrow> hf_name f = other"

definition eq_field :: "header_field \<Rightarrow> bytes \<Rightarrow> bytes \<Rightarrow> bool" where
  "eq_field f name val \<longleftrightarrow> hf_name f = name \<and> hf_value f = val"

lemma header_field_new_sel [simp]:
  "hf_name (header_field_new n v) = n" "hf_value (header_field_new n v) = v"
  by (simp_all add: header_field_new_def)

lemma header_field_new_collapse [simp]:
  fixes f :: header_field
  shows "header_field_new (hf_name f) (hf_value f) = f"
  by (simp add: header_field_new_def)

lemma header_field_size_pos [simp]: "32 \<le> header_field_size f"
  by (simp add: header_field_size_def)

section \<open>The static table\<close>

definition STATIC_SIZE :: nat where
  "STATIC_SIZE = 61"

definition STATIC_ENTRIES :: "(bytes \<times> bytes) list" where
  "STATIC_ENTRIES =
    [(ascii '':authority'', ascii ''''),
     (ascii '':method'', ascii ''GET''),
     (ascii '':method'', ascii ''POST''),
     (ascii '':path'', ascii ''/''),
     (ascii '':path'', ascii ''/index.html''),
     (ascii '':scheme'', ascii ''http''),
     (ascii '':scheme'', ascii ''https''),
     (ascii '':status'', ascii ''200''),
     (ascii '':status'', ascii ''204''),
     (ascii '':status'', ascii ''206''),
     (ascii '':status'', ascii ''304''),
     (ascii '':status'', ascii ''400''),
     (ascii '':status'', ascii ''404''),
     (ascii '':status'', ascii ''500''),
     (ascii ''accept-charset'', ascii ''''),
     (ascii ''accept-encoding'', ascii ''gzip, deflate''),
     (ascii ''accept-language'', ascii ''''),
     (ascii ''accept-ranges'', ascii ''''),
     (ascii ''accept'', ascii ''''),
     (ascii ''access-control-allow-origin'', ascii ''''),
     (ascii ''age'', ascii ''''),
     (ascii ''allow'', ascii ''''),
     (ascii ''authorization'', ascii ''''),
     (ascii ''cache-control'', ascii ''''),
     (ascii ''content-disposition'', ascii ''''),
     (ascii ''content-encoding'', ascii ''''),
     (ascii ''content-language'', ascii ''''),
     (ascii ''content-length'', ascii ''''),
     (ascii ''content-location'', ascii ''''),
     (ascii ''content-range'', ascii ''''),
     (ascii ''content-type'', ascii ''''),
     (ascii ''cookie'', ascii ''''),
     (ascii ''date'', ascii ''''),
     (ascii ''etag'', ascii ''''),
     (ascii ''expect'', ascii ''''),
     (ascii ''expires'', ascii ''''),
     (ascii ''from'', ascii ''''),
     (ascii ''host'', ascii ''''),
     (ascii ''if-match'', ascii ''''),
     (ascii ''if-modified-since'', ascii ''''),
     (ascii ''if-none-match'', ascii ''''),
     (ascii ''if-range'', ascii ''''),
     (ascii ''if-unmodified-since'', ascii ''''),
     (ascii ''last-modified'', ascii ''''),
     (ascii ''link'', ascii ''''),
     (ascii ''location'', ascii ''''),
     (ascii ''max-forwards'', ascii ''''),
     (ascii ''proxy-authenticate'', ascii ''''),
     (ascii ''proxy-authorization'', ascii ''''),
     (ascii ''range'', ascii ''''),
     (ascii ''referer'', ascii ''''),
     (ascii ''refresh'', ascii ''''),
     (ascii ''retry-after'', ascii ''''),
     (ascii ''server'', ascii ''''),
     (ascii ''set-cookie'', ascii ''''),
     (ascii ''strict-transport-security'', ascii ''''),
     (ascii ''transfer-encoding'', ascii ''''),
     (ascii ''user-agent'', ascii ''''),
     (ascii ''vary'', ascii ''''),
     (ascii ''via'', ascii ''''),
     (ascii ''www-authenticate'', ascii '''')]"

definition static_get :: "nat \<Rightarrow> (bytes \<times> bytes) option" where
  "static_get index =
    (if index = 0 \<or> index > STATIC_SIZE then None else Some (STATIC_ENTRIES ! (index - 1)))"

fun enumerate_find :: "('a \<Rightarrow> bool) \<Rightarrow> nat \<Rightarrow> 'a list \<Rightarrow> nat option" where
  "enumerate_find P i [] = None"
| "enumerate_find P i (x # xs) = (if P x then Some (i + 1) else enumerate_find P (i + 1) xs)"

definition static_find_exact :: "bytes \<Rightarrow> bytes \<Rightarrow> nat option" where
  "static_find_exact name val = enumerate_find (\<lambda>(n, v). n = name \<and> v = val) 0 STATIC_ENTRIES"

definition static_find_name :: "bytes \<Rightarrow> nat option" where
  "static_find_name name = enumerate_find (\<lambda>(n, v). n = name) 0 STATIC_ENTRIES"

lemma length_STATIC_ENTRIES [simp]: "length STATIC_ENTRIES = STATIC_SIZE"
  by (simp add: STATIC_ENTRIES_def STATIC_SIZE_def)

lemma enumerate_find_SomeD:
  assumes "enumerate_find P i xs = Some k"
  shows "i < k" and "k \<le> i + length xs" and "P (xs ! (k - i - 1))"
    and "\<And>j. j < k - i - 1 \<Longrightarrow> \<not> P (xs ! j)"
proof -
  have "i < k \<and> k \<le> i + length xs \<and> P (xs ! (k - i - 1)) \<and> (\<forall>j < k - i - 1. \<not> P (xs ! j))"
    using assms
  proof (induction xs arbitrary: i)
    case (Cons x xs)
    show ?case
    proof (cases "P x")
      case False
      with Cons have IH: "i + 1 < k" "k \<le> i + 1 + length xs" "P (xs ! (k - (i + 1) - 1))"
        "\<forall>j < k - (i + 1) - 1. \<not> P (xs ! j)"
        by fastforce+
      then have k: "k - i - 1 = Suc (k - (i + 1) - 1)" by simp
      have "\<not> P ((x # xs) ! j)" if "j < k - i - 1" for j
        using that False IH(4) by (cases j) (simp_all add: k)
      with IH k show ?thesis by auto
    qed (use Cons.prems in auto)
  qed simp
  then show "i < k" "k \<le> i + length xs" "P (xs ! (k - i - 1))"
    "\<And>j. j < k - i - 1 \<Longrightarrow> \<not> P (xs ! j)" by auto
qed

lemma enumerate_find_None_iff: "enumerate_find P i xs = None \<longleftrightarrow> (\<forall>x \<in> set xs. \<not> P x)"
  by (induction xs arbitrary: i) auto

lemma static_find_exact_get:
  "static_find_exact n v = Some i \<Longrightarrow> static_get i = Some (n, v)"
  using enumerate_find_SomeD [of "\<lambda>(n', v'). n' = n \<and> v' = v" 0 STATIC_ENTRIES i]
  by (auto simp: static_find_exact_def static_get_def)

lemma static_find_name_get:
  "static_find_name n = Some i \<Longrightarrow> \<exists>v. static_get i = Some (n, v)"
  using enumerate_find_SomeD [of "\<lambda>(n', v'). n' = n" 0 STATIC_ENTRIES i]
  by (auto simp: static_find_name_def static_get_def)

section \<open>The dynamic table\<close>

record dynamic_table =
  dt_entries :: "header_field list"
  dt_size :: nat
  dt_max_size :: nat

definition dynamic_table_new :: "nat \<Rightarrow> dynamic_table" where
  "dynamic_table_new max_size = \<lparr>dt_entries = [], dt_size = 0, dt_max_size = max_size\<rparr>"

text \<open>
  The two eviction loops differ only in the room they make: \<open>insert\<close> asks for the size of the
  new entry, \<open>evict\<close> for none.  The oldest entry is the last of the list.
\<close>

fun evict_loop :: "nat \<Rightarrow> nat \<Rightarrow> header_field list \<Rightarrow> nat \<Rightarrow> header_field list \<times> nat" where
  "evict_loop max_size room entries sz =
    (if sz + room > max_size \<and> entries \<noteq> []
     then evict_loop max_size room (butlast entries) (sz - header_field_size (last entries))
     else (entries, sz))"

declare evict_loop.simps [simp del]

definition evict :: "dynamic_table \<Rightarrow> dynamic_table" where
  "evict t =
    (let (entries, sz) = evict_loop (dt_max_size t) 0 (dt_entries t) (dt_size t)
     in t\<lparr>dt_entries := entries, dt_size := sz\<rparr>)"

definition set_max_size :: "nat \<Rightarrow> dynamic_table \<Rightarrow> dynamic_table" where
  "set_max_size max_size t = evict (t\<lparr>dt_max_size := max_size\<rparr>)"

definition dynamic_insert :: "bytes \<Rightarrow> bytes \<Rightarrow> dynamic_table \<Rightarrow> dynamic_table" where
  "dynamic_insert name val t =
    (let entry = header_field_new name val;
         entry_size = header_field_size entry
     in if entry_size > dt_max_size t then t\<lparr>dt_entries := [], dt_size := 0\<rparr>
        else
          let (entries, sz) = evict_loop (dt_max_size t) entry_size (dt_entries t) (dt_size t)
          in t\<lparr>dt_entries := entry # entries, dt_size := sz + entry_size\<rparr>)"

definition dynamic_get :: "dynamic_table \<Rightarrow> nat \<Rightarrow> header_field option" where
  "dynamic_get t index =
    (if index = 0 then None
     else if index - 1 < length (dt_entries t) then Some (dt_entries t ! (index - 1)) else None)"

definition dynamic_find_exact :: "dynamic_table \<Rightarrow> bytes \<Rightarrow> bytes \<Rightarrow> nat option" where
  "dynamic_find_exact t name val = enumerate_find (\<lambda>f. eq_field f name val) 0 (dt_entries t)"

definition dynamic_find_name :: "dynamic_table \<Rightarrow> bytes \<Rightarrow> nat option" where
  "dynamic_find_name t name = enumerate_find (\<lambda>f. name_eq f name) 0 (dt_entries t)"

definition dynamic_clear :: "dynamic_table \<Rightarrow> dynamic_table" where
  "dynamic_clear t = t\<lparr>dt_entries := [], dt_size := 0\<rparr>"

definition get_indexed :: "dynamic_table \<Rightarrow> nat \<Rightarrow> (bytes \<times> bytes) option" where
  "get_indexed t index =
    (if index = 0 then None
     else if index \<le> STATIC_SIZE then static_get index
     else map_option (\<lambda>f. (hf_name f, hf_value f)) (dynamic_get t (index - STATIC_SIZE)))"

section \<open>The contents a size limit leaves\<close>

definition total_size :: "header_field list \<Rightarrow> nat" where
  "total_size es = sum_list (map header_field_size es)"

fun fit :: "nat \<Rightarrow> header_field list \<Rightarrow> header_field list" where
  "fit m [] = []"
| "fit m (e # es) =
    (if header_field_size e \<le> m then e # fit (m - header_field_size e) es else [])"

lemma total_size_simps [simp]:
  "total_size [] = 0"
  "total_size (e # es) = header_field_size e + total_size es"
  "total_size (es @ es') = total_size es + total_size es'"
  by (simp_all add: total_size_def)

lemma total_size_butlast:
  "es \<noteq> [] \<Longrightarrow> total_size (butlast es) = total_size es - header_field_size (last es)"
  using total_size_simps(3) [of "butlast es" "[last es]"] by simp

lemma total_size_ge_length: "32 * length es \<le> total_size es"
proof (induction es)
  case (Cons e es)
  then show ?case by (simp add: header_field_size_def)
qed simp

lemma total_size_fit: "total_size (fit m es) \<le> m"
proof (induction es arbitrary: m)
  case (Cons e es)
  from Cons [of "m - header_field_size e"] show ?case
    by (cases "header_field_size e \<le> m") (simp_all add: le_diff_conv2)
qed simp

lemma fit_id: "total_size es \<le> m \<Longrightarrow> fit m es = es"
  by (induction es arbitrary: m) auto

lemma fit_butlast: "m < total_size es \<Longrightarrow> fit m es = fit m (butlast es)"
  by (induction es arbitrary: m) (auto simp: not_le)

lemma fit_take: "\<exists>k. fit m es = take k es"
proof (induction es arbitrary: m)
  case (Cons e es)
  then obtain k where "fit (m - header_field_size e) es = take k es" by blast
  then have "fit m (e # es) = take (if header_field_size e \<le> m then Suc k else 0) (e # es)" by simp
  then show ?case by blast
qed simp

text \<open>Nothing more would fit: the first entry left out exceeds the limit.\<close>

lemma fit_maximal:
  "length (fit m es) < length es \<Longrightarrow> m < total_size (take (Suc (length (fit m es))) es)"
proof (induction es arbitrary: m)
  case (Cons e es)
  show ?case
  proof (cases "header_field_size e \<le> m")
    case True
    with Cons.prems Cons.IH [of "m - header_field_size e"] show ?thesis
      by (simp add: less_diff_conv2 add.commute)
  qed simp
qed simp

lemma fit_fit: "fit m (fit m' es) = fit (min m m') es"
proof (induction es arbitrary: m m')
  case (Cons e es)
  have "min m m' - header_field_size e = min (m - header_field_size e) (m' - header_field_size e)"
    by simp
  with Cons show ?case by auto
qed simp

lemma fit_append_fit: "fit m (xs @ fit m ys) = fit m (xs @ ys)"
proof (induction xs arbitrary: m)
  case Nil
  show ?case by (simp add: fit_fit)
next
  case (Cons x xs)
  have "fit k (xs @ fit m ys) = fit k (xs @ ys)" if "k \<le> m" for k
    using that
  proof (induction xs arbitrary: k)
    case Nil
    then show ?case by (simp add: fit_fit min_def)
  qed auto
  then show ?case by simp
qed

section \<open>The table invariant and its refinement to \<open>fit\<close>\<close>

definition table_inv :: "dynamic_table \<Rightarrow> bool" where
  "table_inv t \<longleftrightarrow> dt_size t = total_size (dt_entries t) \<and> dt_size t \<le> dt_max_size t"

lemma evict_loop_fit:
  assumes "room \<le> m"
  shows "evict_loop m room es (total_size es) = (fit (m - room) es, total_size (fit (m - room) es))"
proof (induction es rule: length_induct)
  case (1 es)
  show ?case
  proof (cases "total_size es + room > m \<and> es \<noteq> []")
    case True
    with assms have "fit (m - room) es = fit (m - room) (butlast es)"
      by (intro fit_butlast) linarith
    with True 1 show ?thesis
      by (subst evict_loop.simps) (simp add: total_size_butlast [symmetric])
  next
    case False
    with assms have "fit (m - room) es = es"
      by (cases "es = []") (simp_all add: fit_id)
    with False show ?thesis by (subst evict_loop.simps) auto
  qed
qed

lemma table_inv_new [intro]: "table_inv (dynamic_table_new m)"
  by (simp add: table_inv_def dynamic_table_new_def)

lemma dynamic_table_new_sel [simp]:
  "dt_entries (dynamic_table_new m) = []" "dt_max_size (dynamic_table_new m) = m"
  by (simp_all add: dynamic_table_new_def)

lemma table_inv_clear [intro]: "table_inv (dynamic_clear t)"
  by (simp add: table_inv_def dynamic_clear_def)

lemma set_max_size_entries:
  "table_inv t \<Longrightarrow> dt_entries (set_max_size m t) = fit m (dt_entries t)"
  by (simp add: set_max_size_def evict_def table_inv_def evict_loop_fit)

lemma set_max_size_max [simp]: "dt_max_size (set_max_size m t) = m"
  by (simp add: set_max_size_def evict_def split: prod.splits)

lemma set_max_size_inv [intro]: "table_inv t \<Longrightarrow> table_inv (set_max_size m t)"
  by (simp add: set_max_size_def evict_def table_inv_def evict_loop_fit total_size_fit)

lemma dynamic_insert_entries:
  "table_inv t \<Longrightarrow>
   dt_entries (dynamic_insert n v t) = fit (dt_max_size t) (header_field_new n v # dt_entries t)"
  by (auto simp: dynamic_insert_def Let_def table_inv_def evict_loop_fit not_less)

lemma dynamic_insert_max [simp]: "dt_max_size (dynamic_insert n v t) = dt_max_size t"
  by (simp add: dynamic_insert_def Let_def split: prod.splits)

lemma dynamic_insert_inv [intro]:
  assumes "table_inv t"
  shows "table_inv (dynamic_insert n v t)"
proof (cases "header_field_size (header_field_new n v) \<le> dt_max_size t")
  case True
  have "total_size (fit (dt_max_size t - header_field_size (header_field_new n v)) (dt_entries t))
      \<le> dt_max_size t - header_field_size (header_field_new n v)"
    by (rule total_size_fit)
  with assms True show ?thesis
    by (simp add: dynamic_insert_def Let_def table_inv_def evict_loop_fit)
qed (simp add: dynamic_insert_def Let_def table_inv_def)

text \<open>A table satisfying the invariant is determined by its contents and its limit.\<close>

lemma table_inv_eqI:
  fixes s t :: dynamic_table
  assumes "table_inv s" "table_inv t" "dt_entries s = dt_entries t" "dt_max_size s = dt_max_size t"
  shows "s = t"
  using assms by (simp add: table_inv_def)

section \<open>Lookups\<close>

lemma dynamic_find_exact_get:
  "dynamic_find_exact t n v = Some i \<Longrightarrow> dynamic_get t i = Some (header_field_new n v)"
  using enumerate_find_SomeD [of "\<lambda>f. eq_field f n v" 0 "dt_entries t" i]
  by (auto simp: dynamic_find_exact_def dynamic_get_def eq_field_def simp flip: header_field_new_collapse)

lemma dynamic_find_name_get:
  "dynamic_find_name t n = Some i \<Longrightarrow> \<exists>f. dynamic_get t i = Some f \<and> hf_name f = n"
  using enumerate_find_SomeD [of "\<lambda>f. name_eq f n" 0 "dt_entries t" i]
  by (auto simp: dynamic_find_name_def dynamic_get_def name_eq_def)

lemma dynamic_find_pos: "dynamic_find_exact t n v = Some i \<Longrightarrow> 1 \<le> i"
  "dynamic_find_name t n = Some i \<Longrightarrow> 1 \<le> i"
  by (auto simp: dynamic_find_exact_def dynamic_find_name_def dest: enumerate_find_SomeD(1))

lemma get_indexed_0 [simp]: "get_indexed t 0 = None"
  by (simp add: get_indexed_def)

lemma get_indexed_Some_iff:
  "(\<exists>nv. get_indexed t i = Some nv) \<longleftrightarrow> 1 \<le> i \<and> i \<le> STATIC_SIZE + length (dt_entries t)"
  by (auto simp: get_indexed_def static_get_def dynamic_get_def)

section \<open>The table as an interface\<close>

text \<open>
  What a user of a size-bounded header table relies on: its contents after an insertion and
  after a change of the limit, for states that satisfy its invariant.
\<close>

locale bounded_table =
  fixes inv :: "'t \<Rightarrow> bool"
    and contents :: "'t \<Rightarrow> header_field list"
    and limit :: "'t \<Rightarrow> nat"
    and add_entry :: "bytes \<Rightarrow> bytes \<Rightarrow> 't \<Rightarrow> 't"
    and resize :: "nat \<Rightarrow> 't \<Rightarrow> 't"
  assumes within: "inv t \<Longrightarrow> total_size (contents t) \<le> limit t"
    and add_inv: "inv t \<Longrightarrow> inv (add_entry n v t)"
    and add_contents: "inv t \<Longrightarrow> contents (add_entry n v t) = fit (limit t) (header_field_new n v # contents t)"
    and add_limit: "inv t \<Longrightarrow> limit (add_entry n v t) = limit t"
    and resize_inv: "inv t \<Longrightarrow> inv (resize m t)"
    and resize_contents: "inv t \<Longrightarrow> contents (resize m t) = fit m (contents t)"
    and resize_limit: "inv t \<Longrightarrow> limit (resize m t) = m"
begin

definition add_all :: "(bytes \<times> bytes) list \<Rightarrow> 't \<Rightarrow> 't" where
  "add_all nvs t = fold (\<lambda>(n, v). add_entry n v) nvs t"

lemma add_all_spec:
  assumes "inv t"
  shows "inv (add_all nvs t)" and "limit (add_all nvs t) = limit t"
    and "contents (add_all nvs t) =
      fit (limit t) (rev (map (\<lambda>(n, v). header_field_new n v) nvs) @ contents t)"
proof -
  have "inv (add_all nvs t) \<and> limit (add_all nvs t) = limit t \<and> contents (add_all nvs t) =
      fit (limit t) (rev (map (\<lambda>(n, v). header_field_new n v) nvs) @ contents t)"
    using assms
  proof (induction nvs arbitrary: t)
    case Nil
    then show ?case by (simp add: add_all_def fit_id within)
  next
    case (Cons nv nvs)
    obtain n v where nv: "nv = (n, v)" by force
    have "add_all (nv # nvs) t = add_all nvs (add_entry n v t)" by (simp add: add_all_def nv)
    with Cons.IH [OF add_inv [OF Cons.prems, of n v]] show ?case
      by (simp add: nv add_limit add_contents Cons.prems fit_append_fit del: fit.simps)
  qed
  then show "inv (add_all nvs t)" "limit (add_all nvs t) = limit t"
    "contents (add_all nvs t) =
      fit (limit t) (rev (map (\<lambda>(n, v). header_field_new n v) nvs) @ contents t)" by auto
qed

lemma entry_count: "inv t \<Longrightarrow> 32 * length (contents t) \<le> limit t"
  using within total_size_ge_length order_trans by blast

lemma resize_shrink_grow:
  "inv t \<Longrightarrow> contents (resize m' (resize m t)) = fit (min m' m) (contents t)"
  by (simp add: resize_contents resize_inv fit_fit)

end

interpretation dyn: bounded_table table_inv dt_entries dt_max_size dynamic_insert set_max_size
  by unfold_locales
    (auto simp: dynamic_insert_entries set_max_size_entries, auto simp: table_inv_def)

section \<open>Properties\<close>

text \<open>C7: After any sequence of insertions the dynamic table holds exactly the longest run of
  newest entries that fits its limit, the older ones evicted, and its size counter is the sum
  of the entry sizes.\<close>

theorem dynamic_table_refines_fit:
  assumes "table_inv t"
  shows "dt_entries (fold (\<lambda>(n, v). dynamic_insert n v) nvs t) =
      fit (dt_max_size t) (rev (map (\<lambda>(n, v). header_field_new n v) nvs) @ dt_entries t)
    \<and> table_inv (fold (\<lambda>(n, v). dynamic_insert n v) nvs t)"
  using dyn.add_all_spec [OF assms, of nvs] by (simp add: dyn.add_all_def)

theorem dynamic_table_refines_fit_witness:
  "dt_entries (fold (\<lambda>(n, v). dynamic_insert n v) [([1], [2]), ([3], [4, 5])] (dynamic_table_new 68)) =
      fit (dt_max_size (dynamic_table_new 68))
        (rev (map (\<lambda>(n, v). header_field_new n v) [([1], [2]), ([3], [4, 5])])
         @ dt_entries (dynamic_table_new 68))
    \<and> table_inv (fold (\<lambda>(n, v). dynamic_insert n v) [([1], [2]), ([3], [4, 5])] (dynamic_table_new 68))"
  by (rule dynamic_table_refines_fit) (rule table_inv_new)

text \<open>The combined index space shifts as RFC 7541 prescribes: an entry that fits is found at
  index 62 right after its insertion, every surviving dynamic entry moves up by one, and the
  static indices keep their meaning.\<close>

lemma get_indexed_after_insert:
  assumes "table_inv t" and "header_field_size (header_field_new n v) \<le> dt_max_size t"
  shows "get_indexed (dynamic_insert n v t) 62 = Some (n, v)
    \<and> (\<forall>i. 62 \<le> i \<longrightarrow> i < 61 + length (dt_entries (dynamic_insert n v t)) \<longrightarrow>
        get_indexed (dynamic_insert n v t) (i + 1) = get_indexed t i)
    \<and> (\<forall>i \<le> 61. get_indexed (dynamic_insert n v t) i = get_indexed t i)"
proof -
  let ?e = "header_field_new n v"
  obtain k where k: "dt_entries (dynamic_insert n v t) = ?e # take k (dt_entries t)"
    using fit_take [of "dt_max_size t - header_field_size ?e" "dt_entries t"] assms
    by (auto simp: dynamic_insert_entries)
  have "get_indexed (dynamic_insert n v t) (i + 1) = get_indexed t i"
    if "62 \<le> i" "i < 61 + length (dt_entries (dynamic_insert n v t))" for i
    using that by (auto simp: get_indexed_def dynamic_get_def STATIC_SIZE_def k Suc_diff_le nth_Cons')
  then show ?thesis
    by (simp add: get_indexed_def dynamic_get_def STATIC_SIZE_def k)
qed

end
