(* ===== verification/Huffman_Tables.thy ===== *)
theory Huffman_Tables
  imports Hpack_Table
begin

text \<open>
  The two Huffman tables of the HPACK coder, literally: the code of every symbol
  (src/src/http2/hpack/huffman.rs) and the generated four-bit decoding automaton
  (src/src/http2/hpack/huffman_decode_table.rs), cut into blocks of rows.  The lemmas
  evaluate them: the decoding table is the automaton of the code table
  (\<open>decode_table_ok\<close>), and the codes are prefix free (\<open>codes_in_order\<close>).
\<close>

section \<open>The code table\<close>

definition HUFFMAN_ENCODE_TABLE_0 :: "(u32 \<times> u8) list" where
  "HUFFMAN_ENCODE_TABLE_0 =
    [(0x1ff8, 13), (0x7fffd8, 23), (0xfffffe2, 28), (0xfffffe3, 28), (0xfffffe4, 28), (0xfffffe5, 28),
     (0xfffffe6, 28), (0xfffffe7, 28), (0xfffffe8, 28), (0xffffea, 24), (0x3ffffffc, 30), (0xfffffe9, 28),
     (0xfffffea, 28), (0x3ffffffd, 30), (0xfffffeb, 28), (0xfffffec, 28), (0xfffffed, 28), (0xfffffee, 28),
     (0xfffffef, 28), (0xffffff0, 28), (0xffffff1, 28), (0xffffff2, 28), (0x3ffffffe, 30), (0xffffff3, 28),
     (0xffffff4, 28), (0xffffff5, 28), (0xffffff6, 28), (0xffffff7, 28), (0xffffff8, 28), (0xffffff9, 28),
     (0xffffffa, 28), (0xffffffb, 28), (0x14, 6), (0x3f8, 10), (0x3f9, 10), (0xffa, 12),
     (0x1ff9, 13), (0x15, 6), (0xf8, 8), (0x7fa, 11), (0x3fa, 10), (0x3fb, 10),
     (0xf9, 8), (0x7fb, 11), (0xfa, 8), (0x16, 6), (0x17, 6), (0x18, 6),
     (0x0, 5), (0x1, 5), (0x2, 5), (0x19, 6), (0x1a, 6), (0x1b, 6),
     (0x1c, 6), (0x1d, 6), (0x1e, 6), (0x1f, 6), (0x5c, 7), (0xfb, 8),
     (0x7ffc, 15), (0x20, 6), (0xffb, 12), (0x3fc, 10), (0x1ffa, 13), (0x21, 6),
     (0x5d, 7), (0x5e, 7), (0x5f, 7), (0x60, 7), (0x61, 7), (0x62, 7),
     (0x63, 7), (0x64, 7), (0x65, 7), (0x66, 7), (0x67, 7), (0x68, 7),
     (0x69, 7), (0x6a, 7), (0x6b, 7), (0x6c, 7), (0x6d, 7), (0x6e, 7),
     (0x6f, 7), (0x70, 7), (0x71, 7), (0x72, 7), (0xfc, 8), (0x73, 7),
     (0xfd, 8), (0x1ffb, 13), (0x7fff0, 19), (0x1ffc, 13), (0x3ffc, 14), (0x22, 6),
     (0x7ffd, 15), (0x3, 5), (0x23, 6), (0x4, 5), (0x24, 6), (0x5, 5),
     (0x25, 6), (0x26, 6), (0x27, 6), (0x6, 5), (0x74, 7), (0x75, 7),
     (0x28, 6), (0x29, 6), (0x2a, 6), (0x7, 5), (0x2b, 6), (0x76, 7),
     (0x2c, 6), (0x8, 5), (0x9, 5), (0x2d, 6), (0x77, 7), (0x78, 7),
     (0x79, 7), (0x7a, 7), (0x7b, 7), (0x7ffe, 15), (0x7fc, 11), (0x3ffd, 14),
     (0x1ffd, 13), (0xffffffc, 28), (0xfffe6, 20), (0x3fffd2, 22)]"

definition HUFFMAN_ENCODE_TABLE_1 :: "(u32 \<times> u8) list" where
  "HUFFMAN_ENCODE_TABLE_1 =
    [(0xfffe7, 20), (0xfffe8, 20), (0x3fffd3, 22), (0x3fffd4, 22), (0x3fffd5, 22), (0x7fffd9, 23),
     (0x3fffd6, 22), (0x7fffda, 23), (0x7fffdb, 23), (0x7fffdc, 23), (0x7fffdd, 23), (0x7fffde, 23),
     (0xffffeb, 24), (0x7fffdf, 23), (0xffffec, 24), (0xffffed, 24), (0x3fffd7, 22), (0x7fffe0, 23),
     (0xffffee, 24), (0x7fffe1, 23), (0x7fffe2, 23), (0x7fffe3, 23), (0x7fffe4, 23), (0x1fffdc, 21),
     (0x3fffd8, 22), (0x7fffe5, 23), (0x3fffd9, 22), (0x7fffe6, 23), (0x7fffe7, 23), (0xffffef, 24),
     (0x3fffda, 22), (0x1fffdd, 21), (0xfffe9, 20), (0x3fffdb, 22), (0x3fffdc, 22), (0x7fffe8, 23),
     (0x7fffe9, 23), (0x1fffde, 21), (0x7fffea, 23), (0x3fffdd, 22), (0x3fffde, 22), (0xfffff0, 24),
     (0x1fffdf, 21), (0x3fffdf, 22), (0x7fffeb, 23), (0x7fffec, 23), (0x1fffe0, 21), (0x1fffe1, 21),
     (0x3fffe0, 22), (0x1fffe2, 21), (0x7fffed, 23), (0x3fffe1, 22), (0x7fffee, 23), (0x7fffef, 23),
     (0xfffea, 20), (0x3fffe2, 22), (0x3fffe3, 22), (0x3fffe4, 22), (0x7ffff0, 23), (0x3fffe5, 22),
     (0x3fffe6, 22), (0x7ffff1, 23), (0x3ffffe0, 26), (0x3ffffe1, 26), (0xfffeb, 20), (0x7fff1, 19),
     (0x3fffe7, 22), (0x7ffff2, 23), (0x3fffe8, 22), (0x1ffffec, 25), (0x3ffffe2, 26), (0x3ffffe3, 26),
     (0x3ffffe4, 26), (0x7ffffde, 27), (0x7ffffdf, 27), (0x3ffffe5, 26), (0xfffff1, 24), (0x1ffffed, 25),
     (0x7fff2, 19), (0x1fffe3, 21), (0x3ffffe6, 26), (0x7ffffe0, 27), (0x7ffffe1, 27), (0x3ffffe7, 26),
     (0x7ffffe2, 27), (0xfffff2, 24), (0x1fffe4, 21), (0x1fffe5, 21), (0x3ffffe8, 26), (0x3ffffe9, 26),
     (0xffffffd, 28), (0x7ffffe3, 27), (0x7ffffe4, 27), (0x7ffffe5, 27), (0xfffec, 20), (0xfffff3, 24),
     (0xfffed, 20), (0x1fffe6, 21), (0x3fffe9, 22), (0x1fffe7, 21), (0x1fffe8, 21), (0x7ffff3, 23),
     (0x3fffea, 22), (0x3fffeb, 22), (0x1ffffee, 25), (0x1ffffef, 25), (0xfffff4, 24), (0xfffff5, 24),
     (0x3ffffea, 26), (0x7ffff4, 23), (0x3ffffeb, 26), (0x7ffffe6, 27), (0x3ffffec, 26), (0x3ffffed, 26),
     (0x7ffffe7, 27), (0x7ffffe8, 27), (0x7ffffe9, 27), (0x7ffffea, 27), (0x7ffffeb, 27), (0xffffffe, 28),
     (0x7ffffec, 27), (0x7ffffed, 27), (0x7ffffee, 27), (0x7ffffef, 27), (0x7fffff0, 27), (0x3ffffee, 26),
     (0x3fffffff, 30)]"

definition HUFFMAN_ENCODE_TABLE :: "(u32 \<times> u8) list" where
  "HUFFMAN_ENCODE_TABLE = HUFFMAN_ENCODE_TABLE_0 @ HUFFMAN_ENCODE_TABLE_1"

section \<open>The decoding table\<close>

definition HUFFMAN_DECODE_STRIDE :: nat where
  "HUFFMAN_DECODE_STRIDE = 4"

definition HUFFMAN_DECODE_PEEK_MASK :: u32 where
  "HUFFMAN_DECODE_PEEK_MASK = 15"

definition HUFFMAN_DECODE_TABLE_0 :: "u32 list list" where
  "HUFFMAN_DECODE_TABLE_0 =
    [[0x0f040000, 0x10040000, 0x11040000, 0x12040000, 0x13040000, 0x14040000, 0x15040000, 0x16040000,
      0x17040000, 0x18040000, 0x19040000, 0x1a040000, 0x1b040000, 0x1c040000, 0x1d040000, 0x1e040000],
     [0x00043001, 0x00043101, 0x00043201, 0x00046101, 0x00046301, 0x00046501, 0x00046901, 0x00046f01,
      0x00047301, 0x00047401, 0x1f040000, 0x20040000, 0x21040000, 0x22040000, 0x23040000, 0x24040000],
     [0x25040000, 0x26040000, 0x27040000, 0x28040000, 0x29040000, 0x2a040000, 0x2b040000, 0x2c040000,
      0x2d040000, 0x2e040000, 0x2f040000, 0x30040000, 0x31040000, 0x32040000, 0x33040000, 0x34040000],
     [0x00033001, 0x00033001, 0x00033101, 0x00033101, 0x00033201, 0x00033201, 0x00036101, 0x00036101,
      0x00036301, 0x00036301, 0x00036501, 0x00036501, 0x00036901, 0x00036901, 0x00036f01, 0x00036f01],
     [0x00037301, 0x00037301, 0x00037401, 0x00037401, 0x00042001, 0x00042501, 0x00042d01, 0x00042e01,
      0x00042f01, 0x00043301, 0x00043401, 0x00043501, 0x00043601, 0x00043701, 0x00043801, 0x00043901],
     [0x00043d01, 0x00044101, 0x00045f01, 0x00046201, 0x00046401, 0x00046601, 0x00046701, 0x00046801,
      0x00046c01, 0x00046d01, 0x00046e01, 0x00047001, 0x00047201, 0x00047501, 0x35040000, 0x36040000],
     [0x37040000, 0x38040000, 0x39040000, 0x3a040000, 0x3b040000, 0x3c040000, 0x3d040000, 0x3e040000,
      0x3f040000, 0x40040000, 0x41040000, 0x42040000, 0x43040000, 0x44040000, 0x45040000, 0x46040000],
     [0x00023001, 0x00023001, 0x00023001, 0x00023001, 0x00023101, 0x00023101, 0x00023101, 0x00023101,
      0x00023201, 0x00023201, 0x00023201, 0x00023201, 0x00026101, 0x00026101, 0x00026101, 0x00026101],
     [0x00026301, 0x00026301, 0x00026301, 0x00026301, 0x00026501, 0x00026501, 0x00026501, 0x00026501,
      0x00026901, 0x00026901, 0x00026901, 0x00026901, 0x00026f01, 0x00026f01, 0x00026f01, 0x00026f01],
     [0x00027301, 0x00027301, 0x00027301, 0x00027301, 0x00027401, 0x00027401, 0x00027401, 0x00027401,
      0x00032001, 0x00032001, 0x00032501, 0x00032501, 0x00032d01, 0x00032d01, 0x00032e01, 0x00032e01],
     [0x00032f01, 0x00032f01, 0x00033301, 0x00033301, 0x00033401, 0x00033401, 0x00033501, 0x00033501,
      0x00033601, 0x00033601, 0x00033701, 0x00033701, 0x00033801, 0x00033801, 0x00033901, 0x00033901],
     [0x00033d01, 0x00033d01, 0x00034101, 0x00034101, 0x00035f01, 0x00035f01, 0x00036201, 0x00036201,
      0x00036401, 0x00036401, 0x00036601, 0x00036601, 0x00036701, 0x00036701, 0x00036801, 0x00036801],
     [0x00036c01, 0x00036c01, 0x00036d01, 0x00036d01, 0x00036e01, 0x00036e01, 0x00037001, 0x00037001,
      0x00037201, 0x00037201, 0x00037501, 0x00037501, 0x00043a01, 0x00044201, 0x00044301, 0x00044401],
     [0x00044501, 0x00044601, 0x00044701, 0x00044801, 0x00044901, 0x00044a01, 0x00044b01, 0x00044c01,
      0x00044d01, 0x00044e01, 0x00044f01, 0x00045001, 0x00045101, 0x00045201, 0x00045301, 0x00045401],
     [0x00045501, 0x00045601, 0x00045701, 0x00045901, 0x00046a01, 0x00046b01, 0x00047101, 0x00047601,
      0x00047701, 0x00047801, 0x00047901, 0x00047a01, 0x47040000, 0x48040000, 0x49040000, 0x4a040000],
     [0x00013001, 0x00013001, 0x00013001, 0x00013001, 0x00013001, 0x00013001, 0x00013001, 0x00013001,
      0x00013101, 0x00013101, 0x00013101, 0x00013101, 0x00013101, 0x00013101, 0x00013101, 0x00013101],
     [0x00013201, 0x00013201, 0x00013201, 0x00013201, 0x00013201, 0x00013201, 0x00013201, 0x00013201,
      0x00016101, 0x00016101, 0x00016101, 0x00016101, 0x00016101, 0x00016101, 0x00016101, 0x00016101],
     [0x00016301, 0x00016301, 0x00016301, 0x00016301, 0x00016301, 0x00016301, 0x00016301, 0x00016301,
      0x00016501, 0x00016501, 0x00016501, 0x00016501, 0x00016501, 0x00016501, 0x00016501, 0x00016501],
     [0x00016901, 0x00016901, 0x00016901, 0x00016901, 0x00016901, 0x00016901, 0x00016901, 0x00016901,
      0x00016f01, 0x00016f01, 0x00016f01, 0x00016f01, 0x00016f01, 0x00016f01, 0x00016f01, 0x00016f01],
     [0x00017301, 0x00017301, 0x00017301, 0x00017301, 0x00017301, 0x00017301, 0x00017301, 0x00017301,
      0x00017401, 0x00017401, 0x00017401, 0x00017401, 0x00017401, 0x00017401, 0x00017401, 0x00017401],
     [0x00022001, 0x00022001, 0x00022001, 0x00022001, 0x00022501, 0x00022501, 0x00022501, 0x00022501,
      0x00022d01, 0x00022d01, 0x00022d01, 0x00022d01, 0x00022e01, 0x00022e01, 0x00022e01, 0x00022e01],
     [0x00022f01, 0x00022f01, 0x00022f01, 0x00022f01, 0x00023301, 0x00023301, 0x00023301, 0x00023301,
      0x00023401, 0x00023401, 0x00023401, 0x00023401, 0x00023501, 0x00023501, 0x00023501, 0x00023501],
     [0x00023601, 0x00023601, 0x00023601, 0x00023601, 0x00023701, 0x00023701, 0x00023701, 0x00023701,
      0x00023801, 0x00023801, 0x00023801, 0x00023801, 0x00023901, 0x00023901, 0x00023901, 0x00023901],
     [0x00023d01, 0x00023d01, 0x00023d01, 0x00023d01, 0x00024101, 0x00024101, 0x00024101, 0x00024101,
      0x00025f01, 0x00025f01, 0x00025f01, 0x00025f01, 0x00026201, 0x00026201, 0x00026201, 0x00026201],
     [0x00026401, 0x00026401, 0x00026401, 0x00026401, 0x00026601, 0x00026601, 0x00026601, 0x00026601,
      0x00026701, 0x00026701, 0x00026701, 0x00026701, 0x00026801, 0x00026801, 0x00026801, 0x00026801],
     [0x00026c01, 0x00026c01, 0x00026c01, 0x00026c01, 0x00026d01, 0x00026d01, 0x00026d01, 0x00026d01,
      0x00026e01, 0x00026e01, 0x00026e01, 0x00026e01, 0x00027001, 0x00027001, 0x00027001, 0x00027001],
     [0x00027201, 0x00027201, 0x00027201, 0x00027201, 0x00027501, 0x00027501, 0x00027501, 0x00027501,
      0x00033a01, 0x00033a01, 0x00034201, 0x00034201, 0x00034301, 0x00034301, 0x00034401, 0x00034401],
     [0x00034501, 0x00034501, 0x00034601, 0x00034601, 0x00034701, 0x00034701, 0x00034801, 0x00034801,
      0x00034901, 0x00034901, 0x00034a01, 0x00034a01, 0x00034b01, 0x00034b01, 0x00034c01, 0x00034c01],
     [0x00034d01, 0x00034d01, 0x00034e01, 0x00034e01, 0x00034f01, 0x00034f01, 0x00035001, 0x00035001,
      0x00035101, 0x00035101, 0x00035201, 0x00035201, 0x00035301, 0x00035301, 0x00035401, 0x00035401]]"

definition HUFFMAN_DECODE_TABLE_1 :: "u32 list list" where
  "HUFFMAN_DECODE_TABLE_1 =
    [[0x00035501, 0x00035501, 0x00035601, 0x00035601, 0x00035701, 0x00035701, 0x00035901, 0x00035901,
      0x00036a01, 0x00036a01, 0x00036b01, 0x00036b01, 0x00037101, 0x00037101, 0x00037601, 0x00037601],
     [0x00037701, 0x00037701, 0x00037801, 0x00037801, 0x00037901, 0x00037901, 0x00037a01, 0x00037a01,
      0x00042601, 0x00042a01, 0x00042c01, 0x00043b01, 0x00045801, 0x00045a01, 0x4b040000, 0x4c040000],
     [0x00012001, 0x00012001, 0x00012001, 0x00012001, 0x00012001, 0x00012001, 0x00012001, 0x00012001,
      0x00012501, 0x00012501, 0x00012501, 0x00012501, 0x00012501, 0x00012501, 0x00012501, 0x00012501],
     [0x00012d01, 0x00012d01, 0x00012d01, 0x00012d01, 0x00012d01, 0x00012d01, 0x00012d01, 0x00012d01,
      0x00012e01, 0x00012e01, 0x00012e01, 0x00012e01, 0x00012e01, 0x00012e01, 0x00012e01, 0x00012e01],
     [0x00012f01, 0x00012f01, 0x00012f01, 0x00012f01, 0x00012f01, 0x00012f01, 0x00012f01, 0x00012f01,
      0x00013301, 0x00013301, 0x00013301, 0x00013301, 0x00013301, 0x00013301, 0x00013301, 0x00013301],
     [0x00013401, 0x00013401, 0x00013401, 0x00013401, 0x00013401, 0x00013401, 0x00013401, 0x00013401,
      0x00013501, 0x00013501, 0x00013501, 0x00013501, 0x00013501, 0x00013501, 0x00013501, 0x00013501],
     [0x00013601, 0x00013601, 0x00013601, 0x00013601, 0x00013601, 0x00013601, 0x00013601, 0x00013601,
      0x00013701, 0x00013701, 0x00013701, 0x00013701, 0x00013701, 0x00013701, 0x00013701, 0x00013701],
     [0x00013801, 0x00013801, 0x00013801, 0x00013801, 0x00013801, 0x00013801, 0x00013801, 0x00013801,
      0x00013901, 0x00013901, 0x00013901, 0x00013901, 0x00013901, 0x00013901, 0x00013901, 0x00013901],
     [0x00013d01, 0x00013d01, 0x00013d01, 0x00013d01, 0x00013d01, 0x00013d01, 0x00013d01, 0x00013d01,
      0x00014101, 0x00014101, 0x00014101, 0x00014101, 0x00014101, 0x00014101, 0x00014101, 0x00014101],
     [0x00015f01, 0x00015f01, 0x00015f01, 0x00015f01, 0x00015f01, 0x00015f01, 0x00015f01, 0x00015f01,
      0x00016201, 0x00016201, 0x00016201, 0x00016201, 0x00016201, 0x00016201, 0x00016201, 0x00016201],
     [0x00016401, 0x00016401, 0x00016401, 0x00016401, 0x00016401, 0x00016401, 0x00016401, 0x00016401,
      0x00016601, 0x00016601, 0x00016601, 0x00016601, 0x00016601, 0x00016601, 0x00016601, 0x00016601],
     [0x00016701, 0x00016701, 0x00016701, 0x00016701, 0x00016701, 0x00016701, 0x00016701, 0x00016701,
      0x00016801, 0x00016801, 0x00016801, 0x00016801, 0x00016801, 0x00016801, 0x00016801, 0x00016801],
     [0x00016c01, 0x00016c01, 0x00016c01, 0x00016c01, 0x00016c01, 0x00016c01, 0x00016c01, 0x00016c01,
      0x00016d01, 0x00016d01, 0x00016d01, 0x00016d01, 0x00016d01, 0x00016d01, 0x00016d01, 0x00016d01],
     [0x00016e01, 0x00016e01, 0x00016e01, 0x00016e01, 0x00016e01, 0x00016e01, 0x00016e01, 0x00016e01,
      0x00017001, 0x00017001, 0x00017001, 0x00017001, 0x00017001, 0x00017001, 0x00017001, 0x00017001],
     [0x00017201, 0x00017201, 0x00017201, 0x00017201, 0x00017201, 0x00017201, 0x00017201, 0x00017201,
      0x00017501, 0x00017501, 0x00017501, 0x00017501, 0x00017501, 0x00017501, 0x00017501, 0x00017501],
     [0x00023a01, 0x00023a01, 0x00023a01, 0x00023a01, 0x00024201, 0x00024201, 0x00024201, 0x00024201,
      0x00024301, 0x00024301, 0x00024301, 0x00024301, 0x00024401, 0x00024401, 0x00024401, 0x00024401],
     [0x00024501, 0x00024501, 0x00024501, 0x00024501, 0x00024601, 0x00024601, 0x00024601, 0x00024601,
      0x00024701, 0x00024701, 0x00024701, 0x00024701, 0x00024801, 0x00024801, 0x00024801, 0x00024801],
     [0x00024901, 0x00024901, 0x00024901, 0x00024901, 0x00024a01, 0x00024a01, 0x00024a01, 0x00024a01,
      0x00024b01, 0x00024b01, 0x00024b01, 0x00024b01, 0x00024c01, 0x00024c01, 0x00024c01, 0x00024c01],
     [0x00024d01, 0x00024d01, 0x00024d01, 0x00024d01, 0x00024e01, 0x00024e01, 0x00024e01, 0x00024e01,
      0x00024f01, 0x00024f01, 0x00024f01, 0x00024f01, 0x00025001, 0x00025001, 0x00025001, 0x00025001],
     [0x00025101, 0x00025101, 0x00025101, 0x00025101, 0x00025201, 0x00025201, 0x00025201, 0x00025201,
      0x00025301, 0x00025301, 0x00025301, 0x00025301, 0x00025401, 0x00025401, 0x00025401, 0x00025401],
     [0x00025501, 0x00025501, 0x00025501, 0x00025501, 0x00025601, 0x00025601, 0x00025601, 0x00025601,
      0x00025701, 0x00025701, 0x00025701, 0x00025701, 0x00025901, 0x00025901, 0x00025901, 0x00025901],
     [0x00026a01, 0x00026a01, 0x00026a01, 0x00026a01, 0x00026b01, 0x00026b01, 0x00026b01, 0x00026b01,
      0x00027101, 0x00027101, 0x00027101, 0x00027101, 0x00027601, 0x00027601, 0x00027601, 0x00027601],
     [0x00027701, 0x00027701, 0x00027701, 0x00027701, 0x00027801, 0x00027801, 0x00027801, 0x00027801,
      0x00027901, 0x00027901, 0x00027901, 0x00027901, 0x00027a01, 0x00027a01, 0x00027a01, 0x00027a01],
     [0x00032601, 0x00032601, 0x00032a01, 0x00032a01, 0x00032c01, 0x00032c01, 0x00033b01, 0x00033b01,
      0x00035801, 0x00035801, 0x00035a01, 0x00035a01, 0x4d040000, 0x4e040000, 0x4f040000, 0x50040000],
     [0x00013a01, 0x00013a01, 0x00013a01, 0x00013a01, 0x00013a01, 0x00013a01, 0x00013a01, 0x00013a01,
      0x00014201, 0x00014201, 0x00014201, 0x00014201, 0x00014201, 0x00014201, 0x00014201, 0x00014201],
     [0x00014301, 0x00014301, 0x00014301, 0x00014301, 0x00014301, 0x00014301, 0x00014301, 0x00014301,
      0x00014401, 0x00014401, 0x00014401, 0x00014401, 0x00014401, 0x00014401, 0x00014401, 0x00014401],
     [0x00014501, 0x00014501, 0x00014501, 0x00014501, 0x00014501, 0x00014501, 0x00014501, 0x00014501,
      0x00014601, 0x00014601, 0x00014601, 0x00014601, 0x00014601, 0x00014601, 0x00014601, 0x00014601],
     [0x00014701, 0x00014701, 0x00014701, 0x00014701, 0x00014701, 0x00014701, 0x00014701, 0x00014701,
      0x00014801, 0x00014801, 0x00014801, 0x00014801, 0x00014801, 0x00014801, 0x00014801, 0x00014801],
     [0x00014901, 0x00014901, 0x00014901, 0x00014901, 0x00014901, 0x00014901, 0x00014901, 0x00014901,
      0x00014a01, 0x00014a01, 0x00014a01, 0x00014a01, 0x00014a01, 0x00014a01, 0x00014a01, 0x00014a01]]"

definition HUFFMAN_DECODE_TABLE_2 :: "u32 list list" where
  "HUFFMAN_DECODE_TABLE_2 =
    [[0x00014b01, 0x00014b01, 0x00014b01, 0x00014b01, 0x00014b01, 0x00014b01, 0x00014b01, 0x00014b01,
      0x00014c01, 0x00014c01, 0x00014c01, 0x00014c01, 0x00014c01, 0x00014c01, 0x00014c01, 0x00014c01],
     [0x00014d01, 0x00014d01, 0x00014d01, 0x00014d01, 0x00014d01, 0x00014d01, 0x00014d01, 0x00014d01,
      0x00014e01, 0x00014e01, 0x00014e01, 0x00014e01, 0x00014e01, 0x00014e01, 0x00014e01, 0x00014e01],
     [0x00014f01, 0x00014f01, 0x00014f01, 0x00014f01, 0x00014f01, 0x00014f01, 0x00014f01, 0x00014f01,
      0x00015001, 0x00015001, 0x00015001, 0x00015001, 0x00015001, 0x00015001, 0x00015001, 0x00015001],
     [0x00015101, 0x00015101, 0x00015101, 0x00015101, 0x00015101, 0x00015101, 0x00015101, 0x00015101,
      0x00015201, 0x00015201, 0x00015201, 0x00015201, 0x00015201, 0x00015201, 0x00015201, 0x00015201],
     [0x00015301, 0x00015301, 0x00015301, 0x00015301, 0x00015301, 0x00015301, 0x00015301, 0x00015301,
      0x00015401, 0x00015401, 0x00015401, 0x00015401, 0x00015401, 0x00015401, 0x00015401, 0x00015401],
     [0x00015501, 0x00015501, 0x00015501, 0x00015501, 0x00015501, 0x00015501, 0x00015501, 0x00015501,
      0x00015601, 0x00015601, 0x00015601, 0x00015601, 0x00015601, 0x00015601, 0x00015601, 0x00015601],
     [0x00015701, 0x00015701, 0x00015701, 0x00015701, 0x00015701, 0x00015701, 0x00015701, 0x00015701,
      0x00015901, 0x00015901, 0x00015901, 0x00015901, 0x00015901, 0x00015901, 0x00015901, 0x00015901],
     [0x00016a01, 0x00016a01, 0x00016a01, 0x00016a01, 0x00016a01, 0x00016a01, 0x00016a01, 0x00016a01,
      0x00016b01, 0x00016b01, 0x00016b01, 0x00016b01, 0x00016b01, 0x00016b01, 0x00016b01, 0x00016b01],
     [0x00017101, 0x00017101, 0x00017101, 0x00017101, 0x00017101, 0x00017101, 0x00017101, 0x00017101,
      0x00017601, 0x00017601, 0x00017601, 0x00017601, 0x00017601, 0x00017601, 0x00017601, 0x00017601],
     [0x00017701, 0x00017701, 0x00017701, 0x00017701, 0x00017701, 0x00017701, 0x00017701, 0x00017701,
      0x00017801, 0x00017801, 0x00017801, 0x00017801, 0x00017801, 0x00017801, 0x00017801, 0x00017801],
     [0x00017901, 0x00017901, 0x00017901, 0x00017901, 0x00017901, 0x00017901, 0x00017901, 0x00017901,
      0x00017a01, 0x00017a01, 0x00017a01, 0x00017a01, 0x00017a01, 0x00017a01, 0x00017a01, 0x00017a01],
     [0x00022601, 0x00022601, 0x00022601, 0x00022601, 0x00022a01, 0x00022a01, 0x00022a01, 0x00022a01,
      0x00022c01, 0x00022c01, 0x00022c01, 0x00022c01, 0x00023b01, 0x00023b01, 0x00023b01, 0x00023b01],
     [0x00025801, 0x00025801, 0x00025801, 0x00025801, 0x00025a01, 0x00025a01, 0x00025a01, 0x00025a01,
      0x00042101, 0x00042201, 0x00042801, 0x00042901, 0x00043f01, 0x51040000, 0x52040000, 0x53040000],
     [0x00012601, 0x00012601, 0x00012601, 0x00012601, 0x00012601, 0x00012601, 0x00012601, 0x00012601,
      0x00012a01, 0x00012a01, 0x00012a01, 0x00012a01, 0x00012a01, 0x00012a01, 0x00012a01, 0x00012a01],
     [0x00012c01, 0x00012c01, 0x00012c01, 0x00012c01, 0x00012c01, 0x00012c01, 0x00012c01, 0x00012c01,
      0x00013b01, 0x00013b01, 0x00013b01, 0x00013b01, 0x00013b01, 0x00013b01, 0x00013b01, 0x00013b01],
     [0x00015801, 0x00015801, 0x00015801, 0x00015801, 0x00015801, 0x00015801, 0x00015801, 0x00015801,
      0x00015a01, 0x00015a01, 0x00015a01, 0x00015a01, 0x00015a01, 0x00015a01, 0x00015a01, 0x00015a01],
     [0x00032101, 0x00032101, 0x00032201, 0x00032201, 0x00032801, 0x00032801, 0x00032901, 0x00032901,
      0x00033f01, 0x00033f01, 0x00042701, 0x00042b01, 0x00047c01, 0x54040000, 0x55040000, 0x56040000],
     [0x00022101, 0x00022101, 0x00022101, 0x00022101, 0x00022201, 0x00022201, 0x00022201, 0x00022201,
      0x00022801, 0x00022801, 0x00022801, 0x00022801, 0x00022901, 0x00022901, 0x00022901, 0x00022901],
     [0x00023f01, 0x00023f01, 0x00023f01, 0x00023f01, 0x00032701, 0x00032701, 0x00032b01, 0x00032b01,
      0x00037c01, 0x00037c01, 0x00042301, 0x00043e01, 0x57040000, 0x58040000, 0x59040000, 0x5a040000],
     [0x00012101, 0x00012101, 0x00012101, 0x00012101, 0x00012101, 0x00012101, 0x00012101, 0x00012101,
      0x00012201, 0x00012201, 0x00012201, 0x00012201, 0x00012201, 0x00012201, 0x00012201, 0x00012201],
     [0x00012801, 0x00012801, 0x00012801, 0x00012801, 0x00012801, 0x00012801, 0x00012801, 0x00012801,
      0x00012901, 0x00012901, 0x00012901, 0x00012901, 0x00012901, 0x00012901, 0x00012901, 0x00012901],
     [0x00013f01, 0x00013f01, 0x00013f01, 0x00013f01, 0x00013f01, 0x00013f01, 0x00013f01, 0x00013f01,
      0x00022701, 0x00022701, 0x00022701, 0x00022701, 0x00022b01, 0x00022b01, 0x00022b01, 0x00022b01],
     [0x00027c01, 0x00027c01, 0x00027c01, 0x00027c01, 0x00032301, 0x00032301, 0x00033e01, 0x00033e01,
      0x00040001, 0x00042401, 0x00044001, 0x00045b01, 0x00045d01, 0x00047e01, 0x5b040000, 0x5c040000],
     [0x00012701, 0x00012701, 0x00012701, 0x00012701, 0x00012701, 0x00012701, 0x00012701, 0x00012701,
      0x00012b01, 0x00012b01, 0x00012b01, 0x00012b01, 0x00012b01, 0x00012b01, 0x00012b01, 0x00012b01],
     [0x00017c01, 0x00017c01, 0x00017c01, 0x00017c01, 0x00017c01, 0x00017c01, 0x00017c01, 0x00017c01,
      0x00022301, 0x00022301, 0x00022301, 0x00022301, 0x00023e01, 0x00023e01, 0x00023e01, 0x00023e01],
     [0x00030001, 0x00030001, 0x00032401, 0x00032401, 0x00034001, 0x00034001, 0x00035b01, 0x00035b01,
      0x00035d01, 0x00035d01, 0x00037e01, 0x00037e01, 0x00045e01, 0x00047d01, 0x5d040000, 0x5e040000],
     [0x00012301, 0x00012301, 0x00012301, 0x00012301, 0x00012301, 0x00012301, 0x00012301, 0x00012301,
      0x00013e01, 0x00013e01, 0x00013e01, 0x00013e01, 0x00013e01, 0x00013e01, 0x00013e01, 0x00013e01],
     [0x00020001, 0x00020001, 0x00020001, 0x00020001, 0x00022401, 0x00022401, 0x00022401, 0x00022401,
      0x00024001, 0x00024001, 0x00024001, 0x00024001, 0x00025b01, 0x00025b01, 0x00025b01, 0x00025b01],
     [0x00025d01, 0x00025d01, 0x00025d01, 0x00025d01, 0x00027e01, 0x00027e01, 0x00027e01, 0x00027e01,
      0x00035e01, 0x00035e01, 0x00037d01, 0x00037d01, 0x00043c01, 0x00046001, 0x00047b01, 0x5f040000]]"

definition HUFFMAN_DECODE_TABLE_3 :: "u32 list list" where
  "HUFFMAN_DECODE_TABLE_3 =
    [[0x00010001, 0x00010001, 0x00010001, 0x00010001, 0x00010001, 0x00010001, 0x00010001, 0x00010001,
      0x00012401, 0x00012401, 0x00012401, 0x00012401, 0x00012401, 0x00012401, 0x00012401, 0x00012401],
     [0x00014001, 0x00014001, 0x00014001, 0x00014001, 0x00014001, 0x00014001, 0x00014001, 0x00014001,
      0x00015b01, 0x00015b01, 0x00015b01, 0x00015b01, 0x00015b01, 0x00015b01, 0x00015b01, 0x00015b01],
     [0x00015d01, 0x00015d01, 0x00015d01, 0x00015d01, 0x00015d01, 0x00015d01, 0x00015d01, 0x00015d01,
      0x00017e01, 0x00017e01, 0x00017e01, 0x00017e01, 0x00017e01, 0x00017e01, 0x00017e01, 0x00017e01],
     [0x00025e01, 0x00025e01, 0x00025e01, 0x00025e01, 0x00027d01, 0x00027d01, 0x00027d01, 0x00027d01,
      0x00033c01, 0x00033c01, 0x00036001, 0x00036001, 0x00037b01, 0x00037b01, 0x60040000, 0x61040000],
     [0x00015e01, 0x00015e01, 0x00015e01, 0x00015e01, 0x00015e01, 0x00015e01, 0x00015e01, 0x00015e01,
      0x00017d01, 0x00017d01, 0x00017d01, 0x00017d01, 0x00017d01, 0x00017d01, 0x00017d01, 0x00017d01],
     [0x00023c01, 0x00023c01, 0x00023c01, 0x00023c01, 0x00026001, 0x00026001, 0x00026001, 0x00026001,
      0x00027b01, 0x00027b01, 0x00027b01, 0x00027b01, 0x62040000, 0x63040000, 0x64040000, 0x65040000],
     [0x00013c01, 0x00013c01, 0x00013c01, 0x00013c01, 0x00013c01, 0x00013c01, 0x00013c01, 0x00013c01,
      0x00016001, 0x00016001, 0x00016001, 0x00016001, 0x00016001, 0x00016001, 0x00016001, 0x00016001],
     [0x00017b01, 0x00017b01, 0x00017b01, 0x00017b01, 0x00017b01, 0x00017b01, 0x00017b01, 0x00017b01,
      0x66040000, 0x67040000, 0x68040000, 0x69040000, 0x6a040000, 0x6b040000, 0x6c040000, 0x6d040000],
     [0x00045c01, 0x0004c301, 0x0004d001, 0x6e040000, 0x6f040000, 0x70040000, 0x71040000, 0x72040000,
      0x73040000, 0x74040000, 0x75040000, 0x76040000, 0x77040000, 0x78040000, 0x79040000, 0x7a040000],
     [0x00035c01, 0x00035c01, 0x0003c301, 0x0003c301, 0x0003d001, 0x0003d001, 0x00048001, 0x00048201,
      0x00048301, 0x0004a201, 0x0004b801, 0x0004c201, 0x0004e001, 0x0004e201, 0x7b040000, 0x7c040000],
     [0x7d040000, 0x7e040000, 0x7f040000, 0x80040000, 0x81040000, 0x82040000, 0x83040000, 0x84040000,
      0x85040000, 0x86040000, 0x87040000, 0x88040000, 0x89040000, 0x8a040000, 0x8b040000, 0x8c040000],
     [0x00025c01, 0x00025c01, 0x00025c01, 0x00025c01, 0x0002c301, 0x0002c301, 0x0002c301, 0x0002c301,
      0x0002d001, 0x0002d001, 0x0002d001, 0x0002d001, 0x00038001, 0x00038001, 0x00038201, 0x00038201],
     [0x00038301, 0x00038301, 0x0003a201, 0x0003a201, 0x0003b801, 0x0003b801, 0x0003c201, 0x0003c201,
      0x0003e001, 0x0003e001, 0x0003e201, 0x0003e201, 0x00049901, 0x0004a101, 0x0004a701, 0x0004ac01],
     [0x0004b001, 0x0004b101, 0x0004b301, 0x0004d101, 0x0004d801, 0x0004d901, 0x0004e301, 0x0004e501,
      0x0004e601, 0x8d040000, 0x8e040000, 0x8f040000, 0x90040000, 0x91040000, 0x92040000, 0x93040000],
     [0x94040000, 0x95040000, 0x96040000, 0x97040000, 0x98040000, 0x99040000, 0x9a040000, 0x9b040000,
      0x9c040000, 0x9d040000, 0x9e040000, 0x9f040000, 0xa0040000, 0xa1040000, 0xa2040000, 0xa3040000],
     [0x00015c01, 0x00015c01, 0x00015c01, 0x00015c01, 0x00015c01, 0x00015c01, 0x00015c01, 0x00015c01,
      0x0001c301, 0x0001c301, 0x0001c301, 0x0001c301, 0x0001c301, 0x0001c301, 0x0001c301, 0x0001c301],
     [0x0001d001, 0x0001d001, 0x0001d001, 0x0001d001, 0x0001d001, 0x0001d001, 0x0001d001, 0x0001d001,
      0x00028001, 0x00028001, 0x00028001, 0x00028001, 0x00028201, 0x00028201, 0x00028201, 0x00028201],
     [0x00028301, 0x00028301, 0x00028301, 0x00028301, 0x0002a201, 0x0002a201, 0x0002a201, 0x0002a201,
      0x0002b801, 0x0002b801, 0x0002b801, 0x0002b801, 0x0002c201, 0x0002c201, 0x0002c201, 0x0002c201],
     [0x0002e001, 0x0002e001, 0x0002e001, 0x0002e001, 0x0002e201, 0x0002e201, 0x0002e201, 0x0002e201,
      0x00039901, 0x00039901, 0x0003a101, 0x0003a101, 0x0003a701, 0x0003a701, 0x0003ac01, 0x0003ac01],
     [0x0003b001, 0x0003b001, 0x0003b101, 0x0003b101, 0x0003b301, 0x0003b301, 0x0003d101, 0x0003d101,
      0x0003d801, 0x0003d801, 0x0003d901, 0x0003d901, 0x0003e301, 0x0003e301, 0x0003e501, 0x0003e501],
     [0x0003e601, 0x0003e601, 0x00048101, 0x00048401, 0x00048501, 0x00048601, 0x00048801, 0x00049201,
      0x00049a01, 0x00049c01, 0x0004a001, 0x0004a301, 0x0004a401, 0x0004a901, 0x0004aa01, 0x0004ad01],
     [0x0004b201, 0x0004b501, 0x0004b901, 0x0004ba01, 0x0004bb01, 0x0004bd01, 0x0004be01, 0x0004c401,
      0x0004c601, 0x0004e401, 0x0004e801, 0x0004e901, 0xa4040000, 0xa5040000, 0xa6040000, 0xa7040000],
     [0xa8040000, 0xa9040000, 0xaa040000, 0xab040000, 0xac040000, 0xad040000, 0xae040000, 0xaf040000,
      0xb0040000, 0xb1040000, 0xb2040000, 0xb3040000, 0xb4040000, 0xb5040000, 0xb6040000, 0xb7040000],
     [0x00018001, 0x00018001, 0x00018001, 0x00018001, 0x00018001, 0x00018001, 0x00018001, 0x00018001,
      0x00018201, 0x00018201, 0x00018201, 0x00018201, 0x00018201, 0x00018201, 0x00018201, 0x00018201],
     [0x00018301, 0x00018301, 0x00018301, 0x00018301, 0x00018301, 0x00018301, 0x00018301, 0x00018301,
      0x0001a201, 0x0001a201, 0x0001a201, 0x0001a201, 0x0001a201, 0x0001a201, 0x0001a201, 0x0001a201],
     [0x0001b801, 0x0001b801, 0x0001b801, 0x0001b801, 0x0001b801, 0x0001b801, 0x0001b801, 0x0001b801,
      0x0001c201, 0x0001c201, 0x0001c201, 0x0001c201, 0x0001c201, 0x0001c201, 0x0001c201, 0x0001c201],
     [0x0001e001, 0x0001e001, 0x0001e001, 0x0001e001, 0x0001e001, 0x0001e001, 0x0001e001, 0x0001e001,
      0x0001e201, 0x0001e201, 0x0001e201, 0x0001e201, 0x0001e201, 0x0001e201, 0x0001e201, 0x0001e201],
     [0x00029901, 0x00029901, 0x00029901, 0x00029901, 0x0002a101, 0x0002a101, 0x0002a101, 0x0002a101,
      0x0002a701, 0x0002a701, 0x0002a701, 0x0002a701, 0x0002ac01, 0x0002ac01, 0x0002ac01, 0x0002ac01],
     [0x0002b001, 0x0002b001, 0x0002b001, 0x0002b001, 0x0002b101, 0x0002b101, 0x0002b101, 0x0002b101,
      0x0002b301, 0x0002b301, 0x0002b301, 0x0002b301, 0x0002d101, 0x0002d101, 0x0002d101, 0x0002d101]]"

definition HUFFMAN_DECODE_TABLE_4 :: "u32 list list" where
  "HUFFMAN_DECODE_TABLE_4 =
    [[0x0002d801, 0x0002d801, 0x0002d801, 0x0002d801, 0x0002d901, 0x0002d901, 0x0002d901, 0x0002d901,
      0x0002e301, 0x0002e301, 0x0002e301, 0x0002e301, 0x0002e501, 0x0002e501, 0x0002e501, 0x0002e501],
     [0x0002e601, 0x0002e601, 0x0002e601, 0x0002e601, 0x00038101, 0x00038101, 0x00038401, 0x00038401,
      0x00038501, 0x00038501, 0x00038601, 0x00038601, 0x00038801, 0x00038801, 0x00039201, 0x00039201],
     [0x00039a01, 0x00039a01, 0x00039c01, 0x00039c01, 0x0003a001, 0x0003a001, 0x0003a301, 0x0003a301,
      0x0003a401, 0x0003a401, 0x0003a901, 0x0003a901, 0x0003aa01, 0x0003aa01, 0x0003ad01, 0x0003ad01],
     [0x0003b201, 0x0003b201, 0x0003b501, 0x0003b501, 0x0003b901, 0x0003b901, 0x0003ba01, 0x0003ba01,
      0x0003bb01, 0x0003bb01, 0x0003bd01, 0x0003bd01, 0x0003be01, 0x0003be01, 0x0003c401, 0x0003c401],
     [0x0003c601, 0x0003c601, 0x0003e401, 0x0003e401, 0x0003e801, 0x0003e801, 0x0003e901, 0x0003e901,
      0x00040101, 0x00048701, 0x00048901, 0x00048a01, 0x00048b01, 0x00048c01, 0x00048d01, 0x00048f01],
     [0x00049301, 0x00049501, 0x00049601, 0x00049701, 0x00049801, 0x00049b01, 0x00049d01, 0x00049e01,
      0x0004a501, 0x0004a601, 0x0004a801, 0x0004ae01, 0x0004af01, 0x0004b401, 0x0004b601, 0x0004b701],
     [0x0004bc01, 0x0004bf01, 0x0004c501, 0x0004e701, 0x0004ef01, 0xb8040000, 0xb9040000, 0xba040000,
      0xbb040000, 0xbc040000, 0xbd040000, 0xbe040000, 0xbf040000, 0xc0040000, 0xc1040000, 0xc2040000],
     [0x00019901, 0x00019901, 0x00019901, 0x00019901, 0x00019901, 0x00019901, 0x00019901, 0x00019901,
      0x0001a101, 0x0001a101, 0x0001a101, 0x0001a101, 0x0001a101, 0x0001a101, 0x0001a101, 0x0001a101],
     [0x0001a701, 0x0001a701, 0x0001a701, 0x0001a701, 0x0001a701, 0x0001a701, 0x0001a701, 0x0001a701,
      0x0001ac01, 0x0001ac01, 0x0001ac01, 0x0001ac01, 0x0001ac01, 0x0001ac01, 0x0001ac01, 0x0001ac01],
     [0x0001b001, 0x0001b001, 0x0001b001, 0x0001b001, 0x0001b001, 0x0001b001, 0x0001b001, 0x0001b001,
      0x0001b101, 0x0001b101, 0x0001b101, 0x0001b101, 0x0001b101, 0x0001b101, 0x0001b101, 0x0001b101],
     [0x0001b301, 0x0001b301, 0x0001b301, 0x0001b301, 0x0001b301, 0x0001b301, 0x0001b301, 0x0001b301,
      0x0001d101, 0x0001d101, 0x0001d101, 0x0001d101, 0x0001d101, 0x0001d101, 0x0001d101, 0x0001d101],
     [0x0001d801, 0x0001d801, 0x0001d801, 0x0001d801, 0x0001d801, 0x0001d801, 0x0001d801, 0x0001d801,
      0x0001d901, 0x0001d901, 0x0001d901, 0x0001d901, 0x0001d901, 0x0001d901, 0x0001d901, 0x0001d901],
     [0x0001e301, 0x0001e301, 0x0001e301, 0x0001e301, 0x0001e301, 0x0001e301, 0x0001e301, 0x0001e301,
      0x0001e501, 0x0001e501, 0x0001e501, 0x0001e501, 0x0001e501, 0x0001e501, 0x0001e501, 0x0001e501],
     [0x0001e601, 0x0001e601, 0x0001e601, 0x0001e601, 0x0001e601, 0x0001e601, 0x0001e601, 0x0001e601,
      0x00028101, 0x00028101, 0x00028101, 0x00028101, 0x00028401, 0x00028401, 0x00028401, 0x00028401],
     [0x00028501, 0x00028501, 0x00028501, 0x00028501, 0x00028601, 0x00028601, 0x00028601, 0x00028601,
      0x00028801, 0x00028801, 0x00028801, 0x00028801, 0x00029201, 0x00029201, 0x00029201, 0x00029201],
     [0x00029a01, 0x00029a01, 0x00029a01, 0x00029a01, 0x00029c01, 0x00029c01, 0x00029c01, 0x00029c01,
      0x0002a001, 0x0002a001, 0x0002a001, 0x0002a001, 0x0002a301, 0x0002a301, 0x0002a301, 0x0002a301],
     [0x0002a401, 0x0002a401, 0x0002a401, 0x0002a401, 0x0002a901, 0x0002a901, 0x0002a901, 0x0002a901,
      0x0002aa01, 0x0002aa01, 0x0002aa01, 0x0002aa01, 0x0002ad01, 0x0002ad01, 0x0002ad01, 0x0002ad01],
     [0x0002b201, 0x0002b201, 0x0002b201, 0x0002b201, 0x0002b501, 0x0002b501, 0x0002b501, 0x0002b501,
      0x0002b901, 0x0002b901, 0x0002b901, 0x0002b901, 0x0002ba01, 0x0002ba01, 0x0002ba01, 0x0002ba01],
     [0x0002bb01, 0x0002bb01, 0x0002bb01, 0x0002bb01, 0x0002bd01, 0x0002bd01, 0x0002bd01, 0x0002bd01,
      0x0002be01, 0x0002be01, 0x0002be01, 0x0002be01, 0x0002c401, 0x0002c401, 0x0002c401, 0x0002c401],
     [0x0002c601, 0x0002c601, 0x0002c601, 0x0002c601, 0x0002e401, 0x0002e401, 0x0002e401, 0x0002e401,
      0x0002e801, 0x0002e801, 0x0002e801, 0x0002e801, 0x0002e901, 0x0002e901, 0x0002e901, 0x0002e901],
     [0x00030101, 0x00030101, 0x00038701, 0x00038701, 0x00038901, 0x00038901, 0x00038a01, 0x00038a01,
      0x00038b01, 0x00038b01, 0x00038c01, 0x00038c01, 0x00038d01, 0x00038d01, 0x00038f01, 0x00038f01],
     [0x00039301, 0x00039301, 0x00039501, 0x00039501, 0x00039601, 0x00039601, 0x00039701, 0x00039701,
      0x00039801, 0x00039801, 0x00039b01, 0x00039b01, 0x00039d01, 0x00039d01, 0x00039e01, 0x00039e01],
     [0x0003a501, 0x0003a501, 0x0003a601, 0x0003a601, 0x0003a801, 0x0003a801, 0x0003ae01, 0x0003ae01,
      0x0003af01, 0x0003af01, 0x0003b401, 0x0003b401, 0x0003b601, 0x0003b601, 0x0003b701, 0x0003b701],
     [0x0003bc01, 0x0003bc01, 0x0003bf01, 0x0003bf01, 0x0003c501, 0x0003c501, 0x0003e701, 0x0003e701,
      0x0003ef01, 0x0003ef01, 0x00040901, 0x00048e01, 0x00049001, 0x00049101, 0x00049401, 0x00049f01],
     [0x0004ab01, 0x0004ce01, 0x0004d701, 0x0004e101, 0x0004ec01, 0x0004ed01, 0xc3040000, 0xc4040000,
      0xc5040000, 0xc6040000, 0xc7040000, 0xc8040000, 0xc9040000, 0xca040000, 0xcb040000, 0xcc040000],
     [0x00018101, 0x00018101, 0x00018101, 0x00018101, 0x00018101, 0x00018101, 0x00018101, 0x00018101,
      0x00018401, 0x00018401, 0x00018401, 0x00018401, 0x00018401, 0x00018401, 0x00018401, 0x00018401],
     [0x00018501, 0x00018501, 0x00018501, 0x00018501, 0x00018501, 0x00018501, 0x00018501, 0x00018501,
      0x00018601, 0x00018601, 0x00018601, 0x00018601, 0x00018601, 0x00018601, 0x00018601, 0x00018601],
     [0x00018801, 0x00018801, 0x00018801, 0x00018801, 0x00018801, 0x00018801, 0x00018801, 0x00018801,
      0x00019201, 0x00019201, 0x00019201, 0x00019201, 0x00019201, 0x00019201, 0x00019201, 0x00019201],
     [0x00019a01, 0x00019a01, 0x00019a01, 0x00019a01, 0x00019a01, 0x00019a01, 0x00019a01, 0x00019a01,
      0x00019c01, 0x00019c01, 0x00019c01, 0x00019c01, 0x00019c01, 0x00019c01, 0x00019c01, 0x00019c01]]"

definition HUFFMAN_DECODE_TABLE_5 :: "u32 list list" where
  "HUFFMAN_DECODE_TABLE_5 =
    [[0x0001a001, 0x0001a001, 0x0001a001, 0x0001a001, 0x0001a001, 0x0001a001, 0x0001a001, 0x0001a001,
      0x0001a301, 0x0001a301, 0x0001a301, 0x0001a301, 0x0001a301, 0x0001a301, 0x0001a301, 0x0001a301],
     [0x0001a401, 0x0001a401, 0x0001a401, 0x0001a401, 0x0001a401, 0x0001a401, 0x0001a401, 0x0001a401,
      0x0001a901, 0x0001a901, 0x0001a901, 0x0001a901, 0x0001a901, 0x0001a901, 0x0001a901, 0x0001a901],
     [0x0001aa01, 0x0001aa01, 0x0001aa01, 0x0001aa01, 0x0001aa01, 0x0001aa01, 0x0001aa01, 0x0001aa01,
      0x0001ad01, 0x0001ad01, 0x0001ad01, 0x0001ad01, 0x0001ad01, 0x0001ad01, 0x0001ad01, 0x0001ad01],
     [0x0001b201, 0x0001b201, 0x0001b201, 0x0001b201, 0x0001b201, 0x0001b201, 0x0001b201, 0x0001b201,
      0x0001b501, 0x0001b501, 0x0001b501, 0x0001b501, 0x0001b501, 0x0001b501, 0x0001b501, 0x0001b501],
     [0x0001b901, 0x0001b901, 0x0001b901, 0x0001b901, 0x0001b901, 0x0001b901, 0x0001b901, 0x0001b901,
      0x0001ba01, 0x0001ba01, 0x0001ba01, 0x0001ba01, 0x0001ba01, 0x0001ba01, 0x0001ba01, 0x0001ba01],
     [0x0001bb01, 0x0001bb01, 0x0001bb01, 0x0001bb01, 0x0001bb01, 0x0001bb01, 0x0001bb01, 0x0001bb01,
      0x0001bd01, 0x0001bd01, 0x0001bd01, 0x0001bd01, 0x0001bd01, 0x0001bd01, 0x0001bd01, 0x0001bd01],
     [0x0001be01, 0x0001be01, 0x0001be01, 0x0001be01, 0x0001be01, 0x0001be01, 0x0001be01, 0x0001be01,
      0x0001c401, 0x0001c401, 0x0001c401, 0x0001c401, 0x0001c401, 0x0001c401, 0x0001c401, 0x0001c401],
     [0x0001c601, 0x0001c601, 0x0001c601, 0x0001c601, 0x0001c601, 0x0001c601, 0x0001c601, 0x0001c601,
      0x0001e401, 0x0001e401, 0x0001e401, 0x0001e401, 0x0001e401, 0x0001e401, 0x0001e401, 0x0001e401],
     [0x0001e801, 0x0001e801, 0x0001e801, 0x0001e801, 0x0001e801, 0x0001e801, 0x0001e801, 0x0001e801,
      0x0001e901, 0x0001e901, 0x0001e901, 0x0001e901, 0x0001e901, 0x0001e901, 0x0001e901, 0x0001e901],
     [0x00020101, 0x00020101, 0x00020101, 0x00020101, 0x00028701, 0x00028701, 0x00028701, 0x00028701,
      0x00028901, 0x00028901, 0x00028901, 0x00028901, 0x00028a01, 0x00028a01, 0x00028a01, 0x00028a01],
     [0x00028b01, 0x00028b01, 0x00028b01, 0x00028b01, 0x00028c01, 0x00028c01, 0x00028c01, 0x00028c01,
      0x00028d01, 0x00028d01, 0x00028d01, 0x00028d01, 0x00028f01, 0x00028f01, 0x00028f01, 0x00028f01],
     [0x00029301, 0x00029301, 0x00029301, 0x00029301, 0x00029501, 0x00029501, 0x00029501, 0x00029501,
      0x00029601, 0x00029601, 0x00029601, 0x00029601, 0x00029701, 0x00029701, 0x00029701, 0x00029701],
     [0x00029801, 0x00029801, 0x00029801, 0x00029801, 0x00029b01, 0x00029b01, 0x00029b01, 0x00029b01,
      0x00029d01, 0x00029d01, 0x00029d01, 0x00029d01, 0x00029e01, 0x00029e01, 0x00029e01, 0x00029e01],
     [0x0002a501, 0x0002a501, 0x0002a501, 0x0002a501, 0x0002a601, 0x0002a601, 0x0002a601, 0x0002a601,
      0x0002a801, 0x0002a801, 0x0002a801, 0x0002a801, 0x0002ae01, 0x0002ae01, 0x0002ae01, 0x0002ae01],
     [0x0002af01, 0x0002af01, 0x0002af01, 0x0002af01, 0x0002b401, 0x0002b401, 0x0002b401, 0x0002b401,
      0x0002b601, 0x0002b601, 0x0002b601, 0x0002b601, 0x0002b701, 0x0002b701, 0x0002b701, 0x0002b701],
     [0x0002bc01, 0x0002bc01, 0x0002bc01, 0x0002bc01, 0x0002bf01, 0x0002bf01, 0x0002bf01, 0x0002bf01,
      0x0002c501, 0x0002c501, 0x0002c501, 0x0002c501, 0x0002e701, 0x0002e701, 0x0002e701, 0x0002e701],
     [0x0002ef01, 0x0002ef01, 0x0002ef01, 0x0002ef01, 0x00030901, 0x00030901, 0x00038e01, 0x00038e01,
      0x00039001, 0x00039001, 0x00039101, 0x00039101, 0x00039401, 0x00039401, 0x00039f01, 0x00039f01],
     [0x0003ab01, 0x0003ab01, 0x0003ce01, 0x0003ce01, 0x0003d701, 0x0003d701, 0x0003e101, 0x0003e101,
      0x0003ec01, 0x0003ec01, 0x0003ed01, 0x0003ed01, 0x0004c701, 0x0004cf01, 0x0004ea01, 0x0004eb01],
     [0xcd040000, 0xce040000, 0xcf040000, 0xd0040000, 0xd1040000, 0xd2040000, 0xd3040000, 0xd4040000,
      0xd5040000, 0xd6040000, 0xd7040000, 0xd8040000, 0xd9040000, 0xda040000, 0xdb040000, 0xdc040000],
     [0x00010101, 0x00010101, 0x00010101, 0x00010101, 0x00010101, 0x00010101, 0x00010101, 0x00010101,
      0x00018701, 0x00018701, 0x00018701, 0x00018701, 0x00018701, 0x00018701, 0x00018701, 0x00018701],
     [0x00018901, 0x00018901, 0x00018901, 0x00018901, 0x00018901, 0x00018901, 0x00018901, 0x00018901,
      0x00018a01, 0x00018a01, 0x00018a01, 0x00018a01, 0x00018a01, 0x00018a01, 0x00018a01, 0x00018a01],
     [0x00018b01, 0x00018b01, 0x00018b01, 0x00018b01, 0x00018b01, 0x00018b01, 0x00018b01, 0x00018b01,
      0x00018c01, 0x00018c01, 0x00018c01, 0x00018c01, 0x00018c01, 0x00018c01, 0x00018c01, 0x00018c01],
     [0x00018d01, 0x00018d01, 0x00018d01, 0x00018d01, 0x00018d01, 0x00018d01, 0x00018d01, 0x00018d01,
      0x00018f01, 0x00018f01, 0x00018f01, 0x00018f01, 0x00018f01, 0x00018f01, 0x00018f01, 0x00018f01],
     [0x00019301, 0x00019301, 0x00019301, 0x00019301, 0x00019301, 0x00019301, 0x00019301, 0x00019301,
      0x00019501, 0x00019501, 0x00019501, 0x00019501, 0x00019501, 0x00019501, 0x00019501, 0x00019501],
     [0x00019601, 0x00019601, 0x00019601, 0x00019601, 0x00019601, 0x00019601, 0x00019601, 0x00019601,
      0x00019701, 0x00019701, 0x00019701, 0x00019701, 0x00019701, 0x00019701, 0x00019701, 0x00019701],
     [0x00019801, 0x00019801, 0x00019801, 0x00019801, 0x00019801, 0x00019801, 0x00019801, 0x00019801,
      0x00019b01, 0x00019b01, 0x00019b01, 0x00019b01, 0x00019b01, 0x00019b01, 0x00019b01, 0x00019b01],
     [0x00019d01, 0x00019d01, 0x00019d01, 0x00019d01, 0x00019d01, 0x00019d01, 0x00019d01, 0x00019d01,
      0x00019e01, 0x00019e01, 0x00019e01, 0x00019e01, 0x00019e01, 0x00019e01, 0x00019e01, 0x00019e01],
     [0x0001a501, 0x0001a501, 0x0001a501, 0x0001a501, 0x0001a501, 0x0001a501, 0x0001a501, 0x0001a501,
      0x0001a601, 0x0001a601, 0x0001a601, 0x0001a601, 0x0001a601, 0x0001a601, 0x0001a601, 0x0001a601],
     [0x0001a801, 0x0001a801, 0x0001a801, 0x0001a801, 0x0001a801, 0x0001a801, 0x0001a801, 0x0001a801,
      0x0001ae01, 0x0001ae01, 0x0001ae01, 0x0001ae01, 0x0001ae01, 0x0001ae01, 0x0001ae01, 0x0001ae01]]"

definition HUFFMAN_DECODE_TABLE_6 :: "u32 list list" where
  "HUFFMAN_DECODE_TABLE_6 =
    [[0x0001af01, 0x0001af01, 0x0001af01, 0x0001af01, 0x0001af01, 0x0001af01, 0x0001af01, 0x0001af01,
      0x0001b401, 0x0001b401, 0x0001b401, 0x0001b401, 0x0001b401, 0x0001b401, 0x0001b401, 0x0001b401],
     [0x0001b601, 0x0001b601, 0x0001b601, 0x0001b601, 0x0001b601, 0x0001b601, 0x0001b601, 0x0001b601,
      0x0001b701, 0x0001b701, 0x0001b701, 0x0001b701, 0x0001b701, 0x0001b701, 0x0001b701, 0x0001b701],
     [0x0001bc01, 0x0001bc01, 0x0001bc01, 0x0001bc01, 0x0001bc01, 0x0001bc01, 0x0001bc01, 0x0001bc01,
      0x0001bf01, 0x0001bf01, 0x0001bf01, 0x0001bf01, 0x0001bf01, 0x0001bf01, 0x0001bf01, 0x0001bf01],
     [0x0001c501, 0x0001c501, 0x0001c501, 0x0001c501, 0x0001c501, 0x0001c501, 0x0001c501, 0x0001c501,
      0x0001e701, 0x0001e701, 0x0001e701, 0x0001e701, 0x0001e701, 0x0001e701, 0x0001e701, 0x0001e701],
     [0x0001ef01, 0x0001ef01, 0x0001ef01, 0x0001ef01, 0x0001ef01, 0x0001ef01, 0x0001ef01, 0x0001ef01,
      0x00020901, 0x00020901, 0x00020901, 0x00020901, 0x00028e01, 0x00028e01, 0x00028e01, 0x00028e01],
     [0x00029001, 0x00029001, 0x00029001, 0x00029001, 0x00029101, 0x00029101, 0x00029101, 0x00029101,
      0x00029401, 0x00029401, 0x00029401, 0x00029401, 0x00029f01, 0x00029f01, 0x00029f01, 0x00029f01],
     [0x0002ab01, 0x0002ab01, 0x0002ab01, 0x0002ab01, 0x0002ce01, 0x0002ce01, 0x0002ce01, 0x0002ce01,
      0x0002d701, 0x0002d701, 0x0002d701, 0x0002d701, 0x0002e101, 0x0002e101, 0x0002e101, 0x0002e101],
     [0x0002ec01, 0x0002ec01, 0x0002ec01, 0x0002ec01, 0x0002ed01, 0x0002ed01, 0x0002ed01, 0x0002ed01,
      0x0003c701, 0x0003c701, 0x0003cf01, 0x0003cf01, 0x0003ea01, 0x0003ea01, 0x0003eb01, 0x0003eb01],
     [0x0004c001, 0x0004c101, 0x0004c801, 0x0004c901, 0x0004ca01, 0x0004cd01, 0x0004d201, 0x0004d501,
      0x0004da01, 0x0004db01, 0x0004ee01, 0x0004f001, 0x0004f201, 0x0004f301, 0x0004ff01, 0xdd040000],
     [0xde040000, 0xdf040000, 0xe0040000, 0xe1040000, 0xe2040000, 0xe3040000, 0xe4040000, 0xe5040000,
      0xe6040000, 0xe7040000, 0xe8040000, 0xe9040000, 0xea040000, 0xeb040000, 0xec040000, 0xed040000],
     [0x00010901, 0x00010901, 0x00010901, 0x00010901, 0x00010901, 0x00010901, 0x00010901, 0x00010901,
      0x00018e01, 0x00018e01, 0x00018e01, 0x00018e01, 0x00018e01, 0x00018e01, 0x00018e01, 0x00018e01],
     [0x00019001, 0x00019001, 0x00019001, 0x00019001, 0x00019001, 0x00019001, 0x00019001, 0x00019001,
      0x00019101, 0x00019101, 0x00019101, 0x00019101, 0x00019101, 0x00019101, 0x00019101, 0x00019101],
     [0x00019401, 0x00019401, 0x00019401, 0x00019401, 0x00019401, 0x00019401, 0x00019401, 0x00019401,
      0x00019f01, 0x00019f01, 0x00019f01, 0x00019f01, 0x00019f01, 0x00019f01, 0x00019f01, 0x00019f01],
     [0x0001ab01, 0x0001ab01, 0x0001ab01, 0x0001ab01, 0x0001ab01, 0x0001ab01, 0x0001ab01, 0x0001ab01,
      0x0001ce01, 0x0001ce01, 0x0001ce01, 0x0001ce01, 0x0001ce01, 0x0001ce01, 0x0001ce01, 0x0001ce01],
     [0x0001d701, 0x0001d701, 0x0001d701, 0x0001d701, 0x0001d701, 0x0001d701, 0x0001d701, 0x0001d701,
      0x0001e101, 0x0001e101, 0x0001e101, 0x0001e101, 0x0001e101, 0x0001e101, 0x0001e101, 0x0001e101],
     [0x0001ec01, 0x0001ec01, 0x0001ec01, 0x0001ec01, 0x0001ec01, 0x0001ec01, 0x0001ec01, 0x0001ec01,
      0x0001ed01, 0x0001ed01, 0x0001ed01, 0x0001ed01, 0x0001ed01, 0x0001ed01, 0x0001ed01, 0x0001ed01],
     [0x0002c701, 0x0002c701, 0x0002c701, 0x0002c701, 0x0002cf01, 0x0002cf01, 0x0002cf01, 0x0002cf01,
      0x0002ea01, 0x0002ea01, 0x0002ea01, 0x0002ea01, 0x0002eb01, 0x0002eb01, 0x0002eb01, 0x0002eb01],
     [0x0003c001, 0x0003c001, 0x0003c101, 0x0003c101, 0x0003c801, 0x0003c801, 0x0003c901, 0x0003c901,
      0x0003ca01, 0x0003ca01, 0x0003cd01, 0x0003cd01, 0x0003d201, 0x0003d201, 0x0003d501, 0x0003d501],
     [0x0003da01, 0x0003da01, 0x0003db01, 0x0003db01, 0x0003ee01, 0x0003ee01, 0x0003f001, 0x0003f001,
      0x0003f201, 0x0003f201, 0x0003f301, 0x0003f301, 0x0003ff01, 0x0003ff01, 0x0004cb01, 0x0004cc01],
     [0x0004d301, 0x0004d401, 0x0004d601, 0x0004dd01, 0x0004de01, 0x0004df01, 0x0004f101, 0x0004f401,
      0x0004f501, 0x0004f601, 0x0004f701, 0x0004f801, 0x0004fa01, 0x0004fb01, 0x0004fc01, 0x0004fd01],
     [0x0004fe01, 0xee040000, 0xef040000, 0xf0040000, 0xf1040000, 0xf2040000, 0xf3040000, 0xf4040000,
      0xf5040000, 0xf6040000, 0xf7040000, 0xf8040000, 0xf9040000, 0xfa040000, 0xfb040000, 0xfc040000],
     [0x0001c701, 0x0001c701, 0x0001c701, 0x0001c701, 0x0001c701, 0x0001c701, 0x0001c701, 0x0001c701,
      0x0001cf01, 0x0001cf01, 0x0001cf01, 0x0001cf01, 0x0001cf01, 0x0001cf01, 0x0001cf01, 0x0001cf01],
     [0x0001ea01, 0x0001ea01, 0x0001ea01, 0x0001ea01, 0x0001ea01, 0x0001ea01, 0x0001ea01, 0x0001ea01,
      0x0001eb01, 0x0001eb01, 0x0001eb01, 0x0001eb01, 0x0001eb01, 0x0001eb01, 0x0001eb01, 0x0001eb01],
     [0x0002c001, 0x0002c001, 0x0002c001, 0x0002c001, 0x0002c101, 0x0002c101, 0x0002c101, 0x0002c101,
      0x0002c801, 0x0002c801, 0x0002c801, 0x0002c801, 0x0002c901, 0x0002c901, 0x0002c901, 0x0002c901],
     [0x0002ca01, 0x0002ca01, 0x0002ca01, 0x0002ca01, 0x0002cd01, 0x0002cd01, 0x0002cd01, 0x0002cd01,
      0x0002d201, 0x0002d201, 0x0002d201, 0x0002d201, 0x0002d501, 0x0002d501, 0x0002d501, 0x0002d501],
     [0x0002da01, 0x0002da01, 0x0002da01, 0x0002da01, 0x0002db01, 0x0002db01, 0x0002db01, 0x0002db01,
      0x0002ee01, 0x0002ee01, 0x0002ee01, 0x0002ee01, 0x0002f001, 0x0002f001, 0x0002f001, 0x0002f001],
     [0x0002f201, 0x0002f201, 0x0002f201, 0x0002f201, 0x0002f301, 0x0002f301, 0x0002f301, 0x0002f301,
      0x0002ff01, 0x0002ff01, 0x0002ff01, 0x0002ff01, 0x0003cb01, 0x0003cb01, 0x0003cc01, 0x0003cc01],
     [0x0003d301, 0x0003d301, 0x0003d401, 0x0003d401, 0x0003d601, 0x0003d601, 0x0003dd01, 0x0003dd01,
      0x0003de01, 0x0003de01, 0x0003df01, 0x0003df01, 0x0003f101, 0x0003f101, 0x0003f401, 0x0003f401],
     [0x0003f501, 0x0003f501, 0x0003f601, 0x0003f601, 0x0003f701, 0x0003f701, 0x0003f801, 0x0003f801,
      0x0003fa01, 0x0003fa01, 0x0003fb01, 0x0003fb01, 0x0003fc01, 0x0003fc01, 0x0003fd01, 0x0003fd01]]"

definition HUFFMAN_DECODE_TABLE_7 :: "u32 list list" where
  "HUFFMAN_DECODE_TABLE_7 =
    [[0x0003fe01, 0x0003fe01, 0x00040201, 0x00040301, 0x00040401, 0x00040501, 0x00040601, 0x00040701,
      0x00040801, 0x00040b01, 0x00040c01, 0x00040e01, 0x00040f01, 0x00041001, 0x00041101, 0x00041201],
     [0x00041301, 0x00041401, 0x00041501, 0x00041701, 0x00041801, 0x00041901, 0x00041a01, 0x00041b01,
      0x00041c01, 0x00041d01, 0x00041e01, 0x00041f01, 0x00047f01, 0x0004dc01, 0x0004f901, 0xfd040000],
     [0x0001c001, 0x0001c001, 0x0001c001, 0x0001c001, 0x0001c001, 0x0001c001, 0x0001c001, 0x0001c001,
      0x0001c101, 0x0001c101, 0x0001c101, 0x0001c101, 0x0001c101, 0x0001c101, 0x0001c101, 0x0001c101],
     [0x0001c801, 0x0001c801, 0x0001c801, 0x0001c801, 0x0001c801, 0x0001c801, 0x0001c801, 0x0001c801,
      0x0001c901, 0x0001c901, 0x0001c901, 0x0001c901, 0x0001c901, 0x0001c901, 0x0001c901, 0x0001c901],
     [0x0001ca01, 0x0001ca01, 0x0001ca01, 0x0001ca01, 0x0001ca01, 0x0001ca01, 0x0001ca01, 0x0001ca01,
      0x0001cd01, 0x0001cd01, 0x0001cd01, 0x0001cd01, 0x0001cd01, 0x0001cd01, 0x0001cd01, 0x0001cd01],
     [0x0001d201, 0x0001d201, 0x0001d201, 0x0001d201, 0x0001d201, 0x0001d201, 0x0001d201, 0x0001d201,
      0x0001d501, 0x0001d501, 0x0001d501, 0x0001d501, 0x0001d501, 0x0001d501, 0x0001d501, 0x0001d501],
     [0x0001da01, 0x0001da01, 0x0001da01, 0x0001da01, 0x0001da01, 0x0001da01, 0x0001da01, 0x0001da01,
      0x0001db01, 0x0001db01, 0x0001db01, 0x0001db01, 0x0001db01, 0x0001db01, 0x0001db01, 0x0001db01],
     [0x0001ee01, 0x0001ee01, 0x0001ee01, 0x0001ee01, 0x0001ee01, 0x0001ee01, 0x0001ee01, 0x0001ee01,
      0x0001f001, 0x0001f001, 0x0001f001, 0x0001f001, 0x0001f001, 0x0001f001, 0x0001f001, 0x0001f001],
     [0x0001f201, 0x0001f201, 0x0001f201, 0x0001f201, 0x0001f201, 0x0001f201, 0x0001f201, 0x0001f201,
      0x0001f301, 0x0001f301, 0x0001f301, 0x0001f301, 0x0001f301, 0x0001f301, 0x0001f301, 0x0001f301],
     [0x0001ff01, 0x0001ff01, 0x0001ff01, 0x0001ff01, 0x0001ff01, 0x0001ff01, 0x0001ff01, 0x0001ff01,
      0x0002cb01, 0x0002cb01, 0x0002cb01, 0x0002cb01, 0x0002cc01, 0x0002cc01, 0x0002cc01, 0x0002cc01],
     [0x0002d301, 0x0002d301, 0x0002d301, 0x0002d301, 0x0002d401, 0x0002d401, 0x0002d401, 0x0002d401,
      0x0002d601, 0x0002d601, 0x0002d601, 0x0002d601, 0x0002dd01, 0x0002dd01, 0x0002dd01, 0x0002dd01],
     [0x0002de01, 0x0002de01, 0x0002de01, 0x0002de01, 0x0002df01, 0x0002df01, 0x0002df01, 0x0002df01,
      0x0002f101, 0x0002f101, 0x0002f101, 0x0002f101, 0x0002f401, 0x0002f401, 0x0002f401, 0x0002f401],
     [0x0002f501, 0x0002f501, 0x0002f501, 0x0002f501, 0x0002f601, 0x0002f601, 0x0002f601, 0x0002f601,
      0x0002f701, 0x0002f701, 0x0002f701, 0x0002f701, 0x0002f801, 0x0002f801, 0x0002f801, 0x0002f801],
     [0x0002fa01, 0x0002fa01, 0x0002fa01, 0x0002fa01, 0x0002fb01, 0x0002fb01, 0x0002fb01, 0x0002fb01,
      0x0002fc01, 0x0002fc01, 0x0002fc01, 0x0002fc01, 0x0002fd01, 0x0002fd01, 0x0002fd01, 0x0002fd01],
     [0x0002fe01, 0x0002fe01, 0x0002fe01, 0x0002fe01, 0x00030201, 0x00030201, 0x00030301, 0x00030301,
      0x00030401, 0x00030401, 0x00030501, 0x00030501, 0x00030601, 0x00030601, 0x00030701, 0x00030701],
     [0x00030801, 0x00030801, 0x00030b01, 0x00030b01, 0x00030c01, 0x00030c01, 0x00030e01, 0x00030e01,
      0x00030f01, 0x00030f01, 0x00031001, 0x00031001, 0x00031101, 0x00031101, 0x00031201, 0x00031201],
     [0x00031301, 0x00031301, 0x00031401, 0x00031401, 0x00031501, 0x00031501, 0x00031701, 0x00031701,
      0x00031801, 0x00031801, 0x00031901, 0x00031901, 0x00031a01, 0x00031a01, 0x00031b01, 0x00031b01],
     [0x00031c01, 0x00031c01, 0x00031d01, 0x00031d01, 0x00031e01, 0x00031e01, 0x00031f01, 0x00031f01,
      0x00037f01, 0x00037f01, 0x0003dc01, 0x0003dc01, 0x0003f901, 0x0003f901, 0xfe040000, 0xff040000],
     [0x0001cb01, 0x0001cb01, 0x0001cb01, 0x0001cb01, 0x0001cb01, 0x0001cb01, 0x0001cb01, 0x0001cb01,
      0x0001cc01, 0x0001cc01, 0x0001cc01, 0x0001cc01, 0x0001cc01, 0x0001cc01, 0x0001cc01, 0x0001cc01],
     [0x0001d301, 0x0001d301, 0x0001d301, 0x0001d301, 0x0001d301, 0x0001d301, 0x0001d301, 0x0001d301,
      0x0001d401, 0x0001d401, 0x0001d401, 0x0001d401, 0x0001d401, 0x0001d401, 0x0001d401, 0x0001d401],
     [0x0001d601, 0x0001d601, 0x0001d601, 0x0001d601, 0x0001d601, 0x0001d601, 0x0001d601, 0x0001d601,
      0x0001dd01, 0x0001dd01, 0x0001dd01, 0x0001dd01, 0x0001dd01, 0x0001dd01, 0x0001dd01, 0x0001dd01],
     [0x0001de01, 0x0001de01, 0x0001de01, 0x0001de01, 0x0001de01, 0x0001de01, 0x0001de01, 0x0001de01,
      0x0001df01, 0x0001df01, 0x0001df01, 0x0001df01, 0x0001df01, 0x0001df01, 0x0001df01, 0x0001df01],
     [0x0001f101, 0x0001f101, 0x0001f101, 0x0001f101, 0x0001f101, 0x0001f101, 0x0001f101, 0x0001f101,
      0x0001f401, 0x0001f401, 0x0001f401, 0x0001f401, 0x0001f401, 0x0001f401, 0x0001f401, 0x0001f401],
     [0x0001f501, 0x0001f501, 0x0001f501, 0x0001f501, 0x0001f501, 0x0001f501, 0x0001f501, 0x0001f501,
      0x0001f601, 0x0001f601, 0x0001f601, 0x0001f601, 0x0001f601, 0x0001f601, 0x0001f601, 0x0001f601],
     [0x0001f701, 0x0001f701, 0x0001f701, 0x0001f701, 0x0001f701, 0x0001f701, 0x0001f701, 0x0001f701,
      0x0001f801, 0x0001f801, 0x0001f801, 0x0001f801, 0x0001f801, 0x0001f801, 0x0001f801, 0x0001f801],
     [0x0001fa01, 0x0001fa01, 0x0001fa01, 0x0001fa01, 0x0001fa01, 0x0001fa01, 0x0001fa01, 0x0001fa01,
      0x0001fb01, 0x0001fb01, 0x0001fb01, 0x0001fb01, 0x0001fb01, 0x0001fb01, 0x0001fb01, 0x0001fb01],
     [0x0001fc01, 0x0001fc01, 0x0001fc01, 0x0001fc01, 0x0001fc01, 0x0001fc01, 0x0001fc01, 0x0001fc01,
      0x0001fd01, 0x0001fd01, 0x0001fd01, 0x0001fd01, 0x0001fd01, 0x0001fd01, 0x0001fd01, 0x0001fd01],
     [0x0001fe01, 0x0001fe01, 0x0001fe01, 0x0001fe01, 0x0001fe01, 0x0001fe01, 0x0001fe01, 0x0001fe01,
      0x00020201, 0x00020201, 0x00020201, 0x00020201, 0x00020301, 0x00020301, 0x00020301, 0x00020301],
     [0x00020401, 0x00020401, 0x00020401, 0x00020401, 0x00020501, 0x00020501, 0x00020501, 0x00020501,
      0x00020601, 0x00020601, 0x00020601, 0x00020601, 0x00020701, 0x00020701, 0x00020701, 0x00020701]]"

definition HUFFMAN_DECODE_TABLE_8 :: "u32 list list" where
  "HUFFMAN_DECODE_TABLE_8 =
    [[0x00020801, 0x00020801, 0x00020801, 0x00020801, 0x00020b01, 0x00020b01, 0x00020b01, 0x00020b01,
      0x00020c01, 0x00020c01, 0x00020c01, 0x00020c01, 0x00020e01, 0x00020e01, 0x00020e01, 0x00020e01],
     [0x00020f01, 0x00020f01, 0x00020f01, 0x00020f01, 0x00021001, 0x00021001, 0x00021001, 0x00021001,
      0x00021101, 0x00021101, 0x00021101, 0x00021101, 0x00021201, 0x00021201, 0x00021201, 0x00021201],
     [0x00021301, 0x00021301, 0x00021301, 0x00021301, 0x00021401, 0x00021401, 0x00021401, 0x00021401,
      0x00021501, 0x00021501, 0x00021501, 0x00021501, 0x00021701, 0x00021701, 0x00021701, 0x00021701],
     [0x00021801, 0x00021801, 0x00021801, 0x00021801, 0x00021901, 0x00021901, 0x00021901, 0x00021901,
      0x00021a01, 0x00021a01, 0x00021a01, 0x00021a01, 0x00021b01, 0x00021b01, 0x00021b01, 0x00021b01],
     [0x00021c01, 0x00021c01, 0x00021c01, 0x00021c01, 0x00021d01, 0x00021d01, 0x00021d01, 0x00021d01,
      0x00021e01, 0x00021e01, 0x00021e01, 0x00021e01, 0x00021f01, 0x00021f01, 0x00021f01, 0x00021f01],
     [0x00027f01, 0x00027f01, 0x00027f01, 0x00027f01, 0x0002dc01, 0x0002dc01, 0x0002dc01, 0x0002dc01,
      0x0002f901, 0x0002f901, 0x0002f901, 0x0002f901, 0x00040a01, 0x00040d01, 0x00041601, 0x00000002],
     [0x00010201, 0x00010201, 0x00010201, 0x00010201, 0x00010201, 0x00010201, 0x00010201, 0x00010201,
      0x00010301, 0x00010301, 0x00010301, 0x00010301, 0x00010301, 0x00010301, 0x00010301, 0x00010301],
     [0x00010401, 0x00010401, 0x00010401, 0x00010401, 0x00010401, 0x00010401, 0x00010401, 0x00010401,
      0x00010501, 0x00010501, 0x00010501, 0x00010501, 0x00010501, 0x00010501, 0x00010501, 0x00010501],
     [0x00010601, 0x00010601, 0x00010601, 0x00010601, 0x00010601, 0x00010601, 0x00010601, 0x00010601,
      0x00010701, 0x00010701, 0x00010701, 0x00010701, 0x00010701, 0x00010701, 0x00010701, 0x00010701],
     [0x00010801, 0x00010801, 0x00010801, 0x00010801, 0x00010801, 0x00010801, 0x00010801, 0x00010801,
      0x00010b01, 0x00010b01, 0x00010b01, 0x00010b01, 0x00010b01, 0x00010b01, 0x00010b01, 0x00010b01],
     [0x00010c01, 0x00010c01, 0x00010c01, 0x00010c01, 0x00010c01, 0x00010c01, 0x00010c01, 0x00010c01,
      0x00010e01, 0x00010e01, 0x00010e01, 0x00010e01, 0x00010e01, 0x00010e01, 0x00010e01, 0x00010e01],
     [0x00010f01, 0x00010f01, 0x00010f01, 0x00010f01, 0x00010f01, 0x00010f01, 0x00010f01, 0x00010f01,
      0x00011001, 0x00011001, 0x00011001, 0x00011001, 0x00011001, 0x00011001, 0x00011001, 0x00011001],
     [0x00011101, 0x00011101, 0x00011101, 0x00011101, 0x00011101, 0x00011101, 0x00011101, 0x00011101,
      0x00011201, 0x00011201, 0x00011201, 0x00011201, 0x00011201, 0x00011201, 0x00011201, 0x00011201],
     [0x00011301, 0x00011301, 0x00011301, 0x00011301, 0x00011301, 0x00011301, 0x00011301, 0x00011301,
      0x00011401, 0x00011401, 0x00011401, 0x00011401, 0x00011401, 0x00011401, 0x00011401, 0x00011401],
     [0x00011501, 0x00011501, 0x00011501, 0x00011501, 0x00011501, 0x00011501, 0x00011501, 0x00011501,
      0x00011701, 0x00011701, 0x00011701, 0x00011701, 0x00011701, 0x00011701, 0x00011701, 0x00011701],
     [0x00011801, 0x00011801, 0x00011801, 0x00011801, 0x00011801, 0x00011801, 0x00011801, 0x00011801,
      0x00011901, 0x00011901, 0x00011901, 0x00011901, 0x00011901, 0x00011901, 0x00011901, 0x00011901],
     [0x00011a01, 0x00011a01, 0x00011a01, 0x00011a01, 0x00011a01, 0x00011a01, 0x00011a01, 0x00011a01,
      0x00011b01, 0x00011b01, 0x00011b01, 0x00011b01, 0x00011b01, 0x00011b01, 0x00011b01, 0x00011b01],
     [0x00011c01, 0x00011c01, 0x00011c01, 0x00011c01, 0x00011c01, 0x00011c01, 0x00011c01, 0x00011c01,
      0x00011d01, 0x00011d01, 0x00011d01, 0x00011d01, 0x00011d01, 0x00011d01, 0x00011d01, 0x00011d01],
     [0x00011e01, 0x00011e01, 0x00011e01, 0x00011e01, 0x00011e01, 0x00011e01, 0x00011e01, 0x00011e01,
      0x00011f01, 0x00011f01, 0x00011f01, 0x00011f01, 0x00011f01, 0x00011f01, 0x00011f01, 0x00011f01],
     [0x00017f01, 0x00017f01, 0x00017f01, 0x00017f01, 0x00017f01, 0x00017f01, 0x00017f01, 0x00017f01,
      0x0001dc01, 0x0001dc01, 0x0001dc01, 0x0001dc01, 0x0001dc01, 0x0001dc01, 0x0001dc01, 0x0001dc01],
     [0x0001f901, 0x0001f901, 0x0001f901, 0x0001f901, 0x0001f901, 0x0001f901, 0x0001f901, 0x0001f901,
      0x00030a01, 0x00030a01, 0x00030d01, 0x00030d01, 0x00031601, 0x00031601, 0x00000002, 0x00000002],
     [0x00020a01, 0x00020a01, 0x00020a01, 0x00020a01, 0x00020d01, 0x00020d01, 0x00020d01, 0x00020d01,
      0x00021601, 0x00021601, 0x00021601, 0x00021601, 0x00000002, 0x00000002, 0x00000002, 0x00000002],
     [0x00010a01, 0x00010a01, 0x00010a01, 0x00010a01, 0x00010a01, 0x00010a01, 0x00010a01, 0x00010a01,
      0x00010d01, 0x00010d01, 0x00010d01, 0x00010d01, 0x00010d01, 0x00010d01, 0x00010d01, 0x00010d01],
     [0x00011601, 0x00011601, 0x00011601, 0x00011601, 0x00011601, 0x00011601, 0x00011601, 0x00011601,
      0x00000002, 0x00000002, 0x00000002, 0x00000002, 0x00000002, 0x00000002, 0x00000002, 0x00000002]]"

definition HUFFMAN_DECODE_TABLE_PACKED :: "u32 list list" where
  "HUFFMAN_DECODE_TABLE_PACKED =
    HUFFMAN_DECODE_TABLE_0 @ HUFFMAN_DECODE_TABLE_1 @ HUFFMAN_DECODE_TABLE_2 @ HUFFMAN_DECODE_TABLE_3 @ HUFFMAN_DECODE_TABLE_4 @ HUFFMAN_DECODE_TABLE_5 @ HUFFMAN_DECODE_TABLE_6 @ HUFFMAN_DECODE_TABLE_7 @ HUFFMAN_DECODE_TABLE_8"

section \<open>The automaton of the code\<close>

text \<open>The bits on the way to each state, as a number and a length.\<close>

definition STATE_PATHS :: "(nat \<times> nat) list" where
  "STATE_PATHS =
    [(0, 0), (0, 1), (1, 1), (0, 2), (1, 2), (2, 2), (3, 2), (0, 3),
     (1, 3), (2, 3), (3, 3), (4, 3), (5, 3), (6, 3), (7, 3), (0, 4),
     (1, 4), (2, 4), (3, 4), (4, 4), (5, 4), (6, 4), (7, 4), (8, 4),
     (9, 4), (0xa, 4), (0xb, 4), (0xc, 4), (0xd, 4), (0xe, 4), (0xf, 4), (0xa, 5),
     (0xb, 5), (0xc, 5), (0xd, 5), (0xe, 5), (0xf, 5), (0x10, 5), (0x11, 5), (0x12, 5),
     (0x13, 5), (0x14, 5), (0x15, 5), (0x16, 5), (0x17, 5), (0x18, 5), (0x19, 5), (0x1a, 5),
     (0x1b, 5), (0x1c, 5), (0x1d, 5), (0x1e, 5), (0x1f, 5), (0x2e, 6), (0x2f, 6), (0x30, 6),
     (0x31, 6), (0x32, 6), (0x33, 6), (0x34, 6), (0x35, 6), (0x36, 6), (0x37, 6), (0x38, 6),
     (0x39, 6), (0x3a, 6), (0x3b, 6), (0x3c, 6), (0x3d, 6), (0x3e, 6), (0x3f, 6), (0x7c, 7),
     (0x7d, 7), (0x7e, 7), (0x7f, 7), (0xfe, 8), (0xff, 8), (0x1fc, 9), (0x1fd, 9), (0x1fe, 9),
     (0x1ff, 9), (0x3fd, 10), (0x3fe, 10), (0x3ff, 10), (0x7fd, 11), (0x7fe, 11), (0x7ff, 11), (0xffc, 12),
     (0xffd, 12), (0xffe, 12), (0xfff, 12), (0x1ffe, 13), (0x1fff, 13), (0x3ffe, 14), (0x3fff, 14), (0x7fff, 15),
     (0xfffe, 16), (0xffff, 16), (0x1fffc, 17), (0x1fffd, 17), (0x1fffe, 17), (0x1ffff, 17), (0x3fff8, 18), (0x3fff9, 18),
     (0x3fffa, 18), (0x3fffb, 18), (0x3fffc, 18), (0x3fffd, 18), (0x3fffe, 18), (0x3ffff, 18), (0x7fff3, 19), (0x7fff4, 19),
     (0x7fff5, 19), (0x7fff6, 19), (0x7fff7, 19), (0x7fff8, 19), (0x7fff9, 19), (0x7fffa, 19), (0x7fffb, 19), (0x7fffc, 19),
     (0x7fffd, 19), (0x7fffe, 19), (0x7ffff, 19), (0xfffee, 20), (0xfffef, 20), (0xffff0, 20), (0xffff1, 20), (0xffff2, 20),
     (0xffff3, 20), (0xffff4, 20), (0xffff5, 20), (0xffff6, 20), (0xffff7, 20), (0xffff8, 20), (0xffff9, 20), (0xffffa, 20),
     (0xffffb, 20), (0xffffc, 20), (0xffffd, 20), (0xffffe, 20), (0xfffff, 20), (0x1fffe9, 21), (0x1fffea, 21), (0x1fffeb, 21),
     (0x1fffec, 21), (0x1fffed, 21), (0x1fffee, 21), (0x1fffef, 21), (0x1ffff0, 21), (0x1ffff1, 21), (0x1ffff2, 21), (0x1ffff3, 21),
     (0x1ffff4, 21), (0x1ffff5, 21), (0x1ffff6, 21), (0x1ffff7, 21), (0x1ffff8, 21), (0x1ffff9, 21), (0x1ffffa, 21), (0x1ffffb, 21),
     (0x1ffffc, 21), (0x1ffffd, 21), (0x1ffffe, 21), (0x1fffff, 21), (0x3fffec, 22), (0x3fffed, 22), (0x3fffee, 22), (0x3fffef, 22),
     (0x3ffff0, 22), (0x3ffff1, 22), (0x3ffff2, 22), (0x3ffff3, 22), (0x3ffff4, 22), (0x3ffff5, 22), (0x3ffff6, 22), (0x3ffff7, 22),
     (0x3ffff8, 22), (0x3ffff9, 22), (0x3ffffa, 22), (0x3ffffb, 22), (0x3ffffc, 22), (0x3ffffd, 22), (0x3ffffe, 22), (0x3fffff, 22),
     (0x7ffff5, 23), (0x7ffff6, 23), (0x7ffff7, 23), (0x7ffff8, 23), (0x7ffff9, 23), (0x7ffffa, 23), (0x7ffffb, 23), (0x7ffffc, 23),
     (0x7ffffd, 23), (0x7ffffe, 23), (0x7fffff, 23), (0xfffff6, 24), (0xfffff7, 24), (0xfffff8, 24), (0xfffff9, 24), (0xfffffa, 24),
     (0xfffffb, 24), (0xfffffc, 24), (0xfffffd, 24), (0xfffffe, 24), (0xffffff, 24), (0x1fffff0, 25), (0x1fffff1, 25), (0x1fffff2, 25),
     (0x1fffff3, 25), (0x1fffff4, 25), (0x1fffff5, 25), (0x1fffff6, 25), (0x1fffff7, 25), (0x1fffff8, 25), (0x1fffff9, 25), (0x1fffffa, 25),
     (0x1fffffb, 25), (0x1fffffc, 25), (0x1fffffd, 25), (0x1fffffe, 25), (0x1ffffff, 25), (0x3ffffef, 26), (0x3fffff0, 26), (0x3fffff1, 26),
     (0x3fffff2, 26), (0x3fffff3, 26), (0x3fffff4, 26), (0x3fffff5, 26), (0x3fffff6, 26), (0x3fffff7, 26), (0x3fffff8, 26), (0x3fffff9, 26),
     (0x3fffffa, 26), (0x3fffffb, 26), (0x3fffffc, 26), (0x3fffffd, 26), (0x3fffffe, 26), (0x3ffffff, 26), (0x7fffff1, 27), (0x7fffff2, 27),
     (0x7fffff3, 27), (0x7fffff4, 27), (0x7fffff5, 27), (0x7fffff6, 27), (0x7fffff7, 27), (0x7fffff8, 27), (0x7fffff9, 27), (0x7fffffa, 27),
     (0x7fffffb, 27), (0x7fffffc, 27), (0x7fffffd, 27), (0x7fffffe, 27), (0x7ffffff, 27), (0xfffffff, 28), (0x1ffffffe, 29), (0x1fffffff, 29)]"

text \<open>The symbols in the order of their codes.\<close>

definition CODE_ORDER :: "nat list" where
  "CODE_ORDER =
    [48, 49, 50, 97, 99, 101, 105, 111, 115, 116, 32, 37, 45, 46, 47, 51,
     52, 53, 54, 55, 56, 57, 61, 65, 95, 98, 100, 102, 103, 104, 108, 109,
     110, 112, 114, 117, 58, 66, 67, 68, 69, 70, 71, 72, 73, 74, 75, 76,
     77, 78, 79, 80, 81, 82, 83, 84, 85, 86, 87, 89, 106, 107, 113, 118,
     119, 120, 121, 122, 38, 42, 44, 59, 88, 90, 33, 34, 40, 41, 63, 39,
     43, 124, 35, 62, 0, 36, 64, 91, 93, 126, 94, 125, 60, 96, 123, 92,
     195, 208, 128, 130, 131, 162, 184, 194, 224, 226, 153, 161, 167, 172, 176, 177,
     179, 209, 216, 217, 227, 229, 230, 129, 132, 133, 134, 136, 146, 154, 156, 160,
     163, 164, 169, 170, 173, 178, 181, 185, 186, 187, 189, 190, 196, 198, 228, 232,
     233, 1, 135, 137, 138, 139, 140, 141, 143, 147, 149, 150, 151, 152, 155, 157,
     158, 165, 166, 168, 174, 175, 180, 182, 183, 188, 191, 197, 231, 239, 9, 142,
     144, 145, 148, 159, 171, 206, 215, 225, 236, 237, 199, 207, 234, 235, 192, 193,
     200, 201, 202, 205, 210, 213, 218, 219, 238, 240, 242, 243, 255, 203, 204, 211,
     212, 214, 221, 222, 223, 241, 244, 245, 246, 247, 248, 250, 251, 252, 253, 254,
     2, 3, 4, 5, 6, 7, 8, 11, 12, 14, 15, 16, 17, 18, 19, 20,
     21, 23, 24, 25, 26, 27, 28, 29, 30, 31, 127, 220, 249, 10, 13, 22,
     256]"

definition state_path :: "nat \<Rightarrow> nat \<times> nat" where
  "state_path s = STATE_PATHS ! s"

definition symbol_code :: "nat \<Rightarrow> nat \<times> nat" where
  "symbol_code c = map_prod unat unat (HUFFMAN_ENCODE_TABLE ! c)"

record decode_entry =
  de_flags :: u8
  de_sym :: u8
  de_bits :: u8
  de_next :: u8

definition from_packed :: "u32 \<Rightarrow> decode_entry" where
  "from_packed v =
    \<lparr>de_flags = ucast (v AND 0xFF),
     de_sym = ucast (drop_bit 8 v AND 0xFF),
     de_bits = ucast (drop_bit 16 v AND 0xFF),
     de_next = ucast (drop_bit 24 v AND 0xFF)\<rparr>"

fun extend :: "nat \<times> nat \<Rightarrow> nat \<Rightarrow> nat \<Rightarrow> nat \<times> nat" where
  "extend (v, k) peek n = (v * 2 ^ n + peek div 2 ^ (4 - n), k + n)"

definition fields_ok :: "nat \<Rightarrow> nat \<Rightarrow> nat \<Rightarrow> nat \<Rightarrow> nat \<Rightarrow> nat \<Rightarrow> bool" where
  "fields_ok s peek flags symb bits nxt \<longleftrightarrow>
    (if flags = 0 then bits = 4 \<and> s < nxt \<and> state_path nxt = extend (state_path s) peek 4
     else if flags = 1 then 1 \<le> bits \<and> bits \<le> 4 \<and> nxt = 0 \<and> symbol_code symb = extend (state_path s) peek bits
     else flags = 2 \<and> (\<exists>n \<in> {1, 2, 3, 4}. symbol_code 256 = extend (state_path s) peek n))"

definition entry_ok :: "nat \<Rightarrow> nat \<Rightarrow> u32 \<Rightarrow> bool" where
  "entry_ok s peek v \<longleftrightarrow>
    fields_ok s peek (unat v mod 256) (unat v div 256 mod 256) (unat v div 65536 mod 256) (unat v div 16777216)"

fun row_ok :: "nat \<Rightarrow> nat \<Rightarrow> u32 list \<Rightarrow> bool" where
  "row_ok s peek [] = (peek = 16)"
| "row_ok s peek (v # vs) = (entry_ok s peek v \<and> row_ok s (peek + 1) vs)"

fun rows_ok :: "nat \<Rightarrow> u32 list list \<Rightarrow> nat \<Rightarrow> bool" where
  "rows_ok s [] e = (s = e)"
| "rows_ok s (r # rs) e = (row_ok s 0 r \<and> rows_ok (s + 1) rs e)"

text \<open>A packed entry is taken apart byte by byte along the binary digits of its numeral.\<close>

fun split_num :: "unit list \<Rightarrow> num \<Rightarrow> nat \<times> nat" where
  "split_num [] n = (0, numeral n)"
| "split_num (u # us) num.One = (1, 0)"
| "split_num (u # us) (num.Bit0 n) = apfst (\<lambda>l. 2 * l) (split_num us n)"
| "split_num (u # us) (num.Bit1 n) = apfst (\<lambda>l. 2 * l + 1) (split_num us n)"

definition byte_split :: "nat \<Rightarrow> nat \<times> nat" where
  "byte_split n = (n mod 256, n div 256)"

fun packed_ok2 :: "nat \<Rightarrow> nat \<Rightarrow> nat \<Rightarrow> nat \<Rightarrow> nat \<times> nat \<Rightarrow> bool" where
  "packed_ok2 s peek flags symb (bits, nxt) = (nxt < 256 \<and> fields_ok s peek flags symb bits nxt)"

fun packed_ok1 :: "nat \<Rightarrow> nat \<Rightarrow> nat \<Rightarrow> nat \<times> nat \<Rightarrow> bool" where
  "packed_ok1 s peek flags (symb, n) = packed_ok2 s peek flags symb (byte_split n)"

fun packed_ok0 :: "nat \<Rightarrow> nat \<Rightarrow> nat \<times> nat \<Rightarrow> bool" where
  "packed_ok0 s peek (flags, n) = packed_ok1 s peek flags (byte_split n)"

definition packed_ok :: "nat \<Rightarrow> nat \<Rightarrow> nat \<Rightarrow> bool" where
  "packed_ok s peek m = packed_ok0 s peek (byte_split m)"

lemma split_num:
  "split_num us n = (l, r) \<Longrightarrow> numeral n = l + 2 ^ length us * r \<and> l < 2 ^ length us"
proof (induction us n arbitrary: l r rule: split_num.induct)
  case (2 u us)
  then show ?case using one_less_power [of "2 :: nat" "Suc (length us)"] by auto
next
  case (3 u us n)
  obtain l' r' where s: "split_num us n = (l', r')" by force
  have "(numeral (num.Bit0 n) :: nat) = 2 * numeral n" by simp
  moreover from 3 s have "numeral n = l' + 2 ^ length us * r'" "l' < 2 ^ length us" by blast+
  ultimately show ?case using 3(2) s by auto
next
  case (4 u us n)
  obtain l' r' where s: "split_num us n = (l', r')" by force
  have "(numeral (num.Bit1 n) :: nat) = 2 * numeral n + 1" by simp
  moreover from 4 s have "numeral n = l' + 2 ^ length us * r'" "l' < 2 ^ length us" by blast+
  ultimately show ?case using 4(2) s by auto
qed simp

lemma byte_split_eq: "m = l + 256 * r \<Longrightarrow> l < 256 \<Longrightarrow> byte_split m = (l, r)"
  by (simp add: byte_split_def)

lemma byte_split_small: "byte_split 0 = (0, 0)" "byte_split (Suc 0) = (1, 0)"
  by (simp_all add: byte_split_def)

lemma byte_split_num: "byte_split (numeral n) = split_num [(), (), (), (), (), (), (), ()] n"
proof (cases "split_num [(), (), (), (), (), (), (), ()] n")
  case (Pair l r)
  from split_num [OF this] Pair show ?thesis
    by (simp only: Pair, intro byte_split_eq) simp_all
qed

lemma packed_ok: "packed_ok s peek m \<Longrightarrow> entry_ok s peek (of_nat m)"
proof -
  assume a: "packed_ok s peek m"
  then have "m < 2 ^ 32" by (auto simp: packed_ok_def byte_split_def)
  then have "unat (of_nat m :: u32) = m" by (simp add: unat_of_nat take_bit_nat_eq_self)
  with a show ?thesis
    by (simp add: entry_ok_def packed_ok_def byte_split_def flip: div_mult2_eq)
qed

lemma entry_ok_numeral: "packed_ok s peek (numeral n) \<Longrightarrow> entry_ok s peek (numeral n) = True"
  using packed_ok [of s peek "numeral n"] by simp

lemma state_path_upt: "map state_path [0..<256] = STATE_PATHS"
proof -
  have "length STATE_PATHS = 256" by (simp add: STATE_PATHS_def)
  then show ?thesis using map_nth [of STATE_PATHS] by (simp add: state_path_def [abs_def])
qed

lemma upt_numeral_start: "[0..<numeral n] = 0 # [Suc 0..<numeral n]"
  and upt_numeral_Suc: "[Suc 0..<numeral n] = (if Suc 0 < numeral n then Suc 0 # [2..<numeral n] else [])"
  by (simp_all add: upt_conv_Cons numeral_2_eq_2)

lemmas state_path_rules = state_path_upt
  [unfolded STATE_PATHS_def, simplified upt_numeral_start upt_numeral_Suc, simplified]

lemma symbol_code_upt: "map symbol_code [0..<257] = map (map_prod unat unat) HUFFMAN_ENCODE_TABLE"
proof -
  have "length HUFFMAN_ENCODE_TABLE = 257"
    by (simp add: HUFFMAN_ENCODE_TABLE_def HUFFMAN_ENCODE_TABLE_0_def HUFFMAN_ENCODE_TABLE_1_def)
  then have "map ((!) HUFFMAN_ENCODE_TABLE) [0..<257] = HUFFMAN_ENCODE_TABLE"
    using map_nth [of HUFFMAN_ENCODE_TABLE] by simp
  then have "map (map_prod unat unat) (map ((!) HUFFMAN_ENCODE_TABLE) [0..<257]) =
      map (map_prod unat unat) HUFFMAN_ENCODE_TABLE" by (rule arg_cong)
  then show ?thesis by (simp only: map_map symbol_code_def [abs_def] comp_def)
qed

lemmas symbol_code_rules = symbol_code_upt [unfolded HUFFMAN_ENCODE_TABLE_def
  HUFFMAN_ENCODE_TABLE_0_def HUFFMAN_ENCODE_TABLE_1_def,
  simplified upt_numeral_start upt_numeral_Suc, simplified]

lemma Suc_Suc_0_eq_2: "Suc (Suc 0) = (2 :: nat)"
  by simp

lemmas table_eval = entry_ok_numeral packed_ok_def byte_split_small byte_split_num fields_ok_def
  state_path_rules symbol_code_rules Suc_Suc_0_eq_2

lemma rows_ok_0: "rows_ok 0 HUFFMAN_DECODE_TABLE_0 29"
  unfolding HUFFMAN_DECODE_TABLE_0_def
  by (simp add: table_eval)

lemma rows_ok_1: "rows_ok 29 HUFFMAN_DECODE_TABLE_1 58"
  unfolding HUFFMAN_DECODE_TABLE_1_def
  by (simp add: table_eval)

lemma rows_ok_2: "rows_ok 58 HUFFMAN_DECODE_TABLE_2 87"
  unfolding HUFFMAN_DECODE_TABLE_2_def
  by (simp add: table_eval)

lemma rows_ok_3: "rows_ok 87 HUFFMAN_DECODE_TABLE_3 116"
  unfolding HUFFMAN_DECODE_TABLE_3_def
  by (simp add: table_eval)

lemma rows_ok_4: "rows_ok 116 HUFFMAN_DECODE_TABLE_4 145"
  unfolding HUFFMAN_DECODE_TABLE_4_def
  by (simp add: table_eval)

lemma rows_ok_5: "rows_ok 145 HUFFMAN_DECODE_TABLE_5 174"
  unfolding HUFFMAN_DECODE_TABLE_5_def
  by (simp add: table_eval)

lemma rows_ok_6: "rows_ok 174 HUFFMAN_DECODE_TABLE_6 203"
  unfolding HUFFMAN_DECODE_TABLE_6_def
  by (simp add: table_eval)

lemma rows_ok_7: "rows_ok 203 HUFFMAN_DECODE_TABLE_7 232"
  unfolding HUFFMAN_DECODE_TABLE_7_def
  by (simp add: table_eval)

lemma rows_ok_8: "rows_ok 232 HUFFMAN_DECODE_TABLE_8 256"
  unfolding HUFFMAN_DECODE_TABLE_8_def
  by (simp add: table_eval)

lemma rows_ok_append: "rows_ok s xs m \<Longrightarrow> rows_ok m ys e \<Longrightarrow> rows_ok s (xs @ ys) e"
  by (induction xs arbitrary: s) auto

lemma decode_table_rows: "rows_ok 0 HUFFMAN_DECODE_TABLE_PACKED 256"
  unfolding HUFFMAN_DECODE_TABLE_PACKED_def
  by (rule rows_ok_append rows_ok_0 rows_ok_1 rows_ok_2 rows_ok_3 rows_ok_4 rows_ok_5 rows_ok_6
    rows_ok_7 rows_ok_8)+

lemma row_ok_length: "row_ok s p r \<Longrightarrow> p + length r = 16"
  by (induction r arbitrary: p) fastforce+

lemma row_ok_nth: "row_ok s p r \<Longrightarrow> i < length r \<Longrightarrow> entry_ok s (p + i) (r ! i)"
proof (induction r arbitrary: p i)
  case (Cons v vs)
  then show ?case using Cons.IH [of "p + 1" "i - 1"] by (cases i) auto
qed simp

lemma rows_ok_length: "rows_ok s rs e \<Longrightarrow> s + length rs = e"
  by (induction rs arbitrary: s) fastforce+

lemma rows_ok_nth: "rows_ok s rs e \<Longrightarrow> i < length rs \<Longrightarrow> row_ok (s + i) 0 (rs ! i)"
proof (induction rs arbitrary: s i)
  case (Cons r rs)
  then show ?case using Cons.IH [of "s + 1" "i - 1"] by (cases i) auto
qed simp

lemma length_decode_table: "length HUFFMAN_DECODE_TABLE_PACKED = 256"
  using rows_ok_length [OF decode_table_rows] by simp

lemma decode_table_ok:
  assumes "s < 256" and "peek < 16"
  shows "entry_ok s peek (HUFFMAN_DECODE_TABLE_PACKED ! s ! peek)"
proof -
  have ok: "row_ok s 0 (HUFFMAN_DECODE_TABLE_PACKED ! s)"
    using rows_ok_nth [OF decode_table_rows, of s] assms(1) by (simp add: length_decode_table)
  from row_ok_nth [OF ok, of peek] row_ok_length [OF ok] assms(2) show ?thesis by simp
qed

section \<open>The codes in order\<close>

text \<open>
  Left-aligned to 30 bits, a code of length \<open>k\<close> covers an interval of \<open>2 ^ (30 - k)\<close> numbers.  In
  the order of their codes the intervals of the 257 symbols follow one another without gap or
  overlap and cover all of \<open>2 ^ 30\<close>.
\<close>

fun tile_start :: "nat \<times> nat \<Rightarrow> nat" where
  "tile_start (v, k) = v * 2 ^ (30 - k)"

fun tile_size :: "nat \<times> nat \<Rightarrow> nat" where
  "tile_size (v, k) = 2 ^ (30 - k)"

fun code_ok :: "nat \<times> nat \<Rightarrow> bool" where
  "code_ok (v, k) = (5 \<le> k \<and> k \<le> 30 \<and> v < 2 ^ k)"

fun tiles :: "nat \<Rightarrow> nat list \<Rightarrow> nat \<Rightarrow> bool" where
  "tiles a [] b = (a = b)"
| "tiles a (c # cs) b =
    (code_ok (symbol_code c) \<and> tile_start (symbol_code c) = a
     \<and> tiles (a + tile_size (symbol_code c)) cs b)"

lemma codes_in_order: "tiles 0 CODE_ORDER (2 ^ 30)"
  unfolding CODE_ORDER_def by (simp add: symbol_code_rules)

lemma tile_size_pos [simp]: "0 < tile_size x"
  by (cases x) simp

lemma tiles_start: "tiles a cs b \<Longrightarrow> c \<in> set cs \<Longrightarrow> a \<le> tile_start (symbol_code c)"
proof (induction cs arbitrary: a)
  case (Cons d cs)
  show ?case
  proof (cases "c = d")
    case False
    with Cons.prems have "a + tile_size (symbol_code d) \<le> tile_start (symbol_code c)"
      by (intro Cons.IH) auto
    then show ?thesis by simp
  qed (use Cons.prems in simp)
qed simp

lemma tiles_distinct: "tiles a cs b \<Longrightarrow> distinct cs"
proof (induction cs arbitrary: a)
  case (Cons d cs)
  then have "d \<notin> set cs"
    using tiles_start [of "a + tile_size (symbol_code d)" cs b d] tile_size_pos [of "symbol_code d"]
    by auto
  with Cons show ?case by auto
qed simp

text \<open>Two different symbols cover disjoint intervals.\<close>

lemma tiles_disjoint:
  assumes "tiles a cs b" "c \<in> set cs" "d \<in> set cs" "c \<noteq> d"
  shows "tile_start (symbol_code c) + tile_size (symbol_code c) \<le> tile_start (symbol_code d)
    \<or> tile_start (symbol_code d) + tile_size (symbol_code d) \<le> tile_start (symbol_code c)"
  using assms
proof (induction cs arbitrary: a)
  case (Cons e cs)
  then have rest: "tiles (a + tile_size (symbol_code e)) cs b" "tile_start (symbol_code e) = a" by auto
  consider "c = e" "d \<in> set cs" | "d = e" "c \<in> set cs" | "c \<in> set cs" "d \<in> set cs"
    using Cons.prems by auto
  then show ?case
  proof cases
    case 3
    with Cons.IH [OF rest(1)] Cons.prems(4) show ?thesis by blast
  qed (use rest tiles_start [OF rest(1)] in auto)
qed simp

lemma set_CODE_ORDER: "set CODE_ORDER = {0..<257}"
proof -
  have "list_all (\<lambda>c. c < 257) CODE_ORDER" by (simp add: CODE_ORDER_def)
  then have "set CODE_ORDER \<subseteq> {0..<257}" by (auto simp: list_all_iff)
  moreover have "length CODE_ORDER = 257" by (simp add: CODE_ORDER_def)
  then have "card (set CODE_ORDER) = card {0..<257 :: nat}"
    using distinct_card [OF tiles_distinct [OF codes_in_order]] by simp
  ultimately show ?thesis by (intro card_subset_eq) simp_all
qed

lemma tiles_code_ok: "tiles a cs b \<Longrightarrow> c \<in> set cs \<Longrightarrow> code_ok (symbol_code c)"
  by (induction cs arbitrary: a) auto

lemma symbol_code_ok: "c < 257 \<Longrightarrow> code_ok (symbol_code c)"
  using tiles_code_ok [OF codes_in_order] by (simp add: set_CODE_ORDER)

lemmas symbol_code_disjoint =
  tiles_disjoint [OF codes_in_order, unfolded set_CODE_ORDER, simplified]

end
