(* ===== verification/Huffman_Code.thy ===== *)
theory Huffman_Code
  imports Huffman_Tables "HOL-Library.Sublist"
begin

text \<open>
  The Huffman code of HPACK as bit strings.  The locale \<open>prefix_code\<close> states what a decoder
  relies on, that no code is a prefix of another, and derives unique decodability; it is
  interpreted on the code table of the source.  The rows of the decoding table are read back
  as statements about the bit strings of states and symbols.
\<close>

section \<open>Numbers as bit strings\<close>

fun nat_bits :: "nat \<Rightarrow> nat \<Rightarrow> bool list" where
  "nat_bits 0 v = []"
| "nat_bits (Suc n) v = nat_bits n (v div 2) @ [odd v]"

lemma length_nat_bits [simp]: "length (nat_bits n v) = n"
  by (induction n arbitrary: v) auto

lemma nat_bits_add: "nat_bits (k + n) v = nat_bits k (v div 2 ^ n) @ nat_bits n v"
proof (induction n arbitrary: v)
  case (Suc n)
  have "v div 2 div 2 ^ n = v div 2 ^ Suc n" by (simp add: div_mult2_eq)
  with Suc [of "v div 2"] show ?case by simp
qed simp

lemma nat_bits_mod: "nat_bits n (v mod 2 ^ n) = nat_bits n v"
proof (induction n arbitrary: v)
  case (Suc n)
  have "v mod 2 ^ Suc n div 2 = v div 2 mod 2 ^ n" by (simp add: mod_mult2_eq)
  moreover have "odd (v mod 2 ^ Suc n) = odd v" by (simp add: dvd_mod_iff)
  ultimately show ?case using Suc [of "v div 2"] by simp
qed simp

lemma nat_bits_append:
  assumes "w < 2 ^ n"
  shows "nat_bits (k + n) (v * 2 ^ n + w) = nat_bits k v @ nat_bits n w"
proof -
  have "(v * 2 ^ n + w) div 2 ^ n = v" using assms by simp
  moreover have "nat_bits n (v * 2 ^ n + w) = nat_bits n w"
    using nat_bits_mod [of n "v * 2 ^ n + w"] nat_bits_mod [of n w] by simp
  ultimately show ?thesis by (simp add: nat_bits_add)
qed

lemma nat_bits_take: "n \<le> k \<Longrightarrow> take n (nat_bits k v) = nat_bits n (v div 2 ^ (k - n))"
  using nat_bits_add [of n "k - n" v] by simp

lemma nat_bits_inject: "v < 2 ^ n \<Longrightarrow> w < 2 ^ n \<Longrightarrow> nat_bits n v = nat_bits n w \<Longrightarrow> v = w"
proof (induction n arbitrary: v w)
  case (Suc n)
  then have "v div 2 = w div 2" by (intro Suc.IH) auto
  moreover from Suc.prems(3) have "odd v = odd w" by simp
  ultimately show ?case by (metis mult_div_mod_eq parity_cases)
qed simp

lemma nat_bits_ones: "nat_bits n (2 ^ n - 1) = replicate n True"
proof (induction n)
  case (Suc n)
  have "(2 ^ Suc n - 1) div 2 = (2 ^ n - 1 :: nat)" by simp
  with Suc show ?case by (simp add: replicate_append_same)
qed simp

lemma nat_bits_all_ones_iff: "v < 2 ^ n \<Longrightarrow> nat_bits n v = replicate n True \<longleftrightarrow> v = 2 ^ n - 1"
  using nat_bits_inject [of v n "2 ^ n - 1"] nat_bits_ones [of n] by auto

section \<open>Prefix codes\<close>

locale prefix_code =
  fixes symbols :: "'s set"
    and code :: "'s \<Rightarrow> bool list"
  assumes code_nonempty: "c \<in> symbols \<Longrightarrow> code c \<noteq> []"
    and prefix_free: "c \<in> symbols \<Longrightarrow> d \<in> symbols \<Longrightarrow> prefix (code c) (code d) \<Longrightarrow> c = d"
begin

definition encoding :: "'s list \<Rightarrow> bool list" where
  "encoding cs = concat (map code cs)"

definition no_code :: "'s set \<Rightarrow> bool list \<Rightarrow> bool" where
  "no_code A bs \<longleftrightarrow> (\<forall>c \<in> A. \<not> prefix (code c) bs)"

lemma encoding_simps [simp]:
  "encoding [] = []" "encoding (c # cs) = code c @ encoding cs"
  "encoding (cs @ ds) = encoding cs @ encoding ds"
  by (simp_all add: encoding_def)

lemma prefix_same:
  "c \<in> symbols \<Longrightarrow> d \<in> symbols \<Longrightarrow> prefix (code c) bs \<Longrightarrow> prefix (code d) bs \<Longrightarrow> c = d"
  using prefix_free prefix_same_cases by blast

text \<open>A bit string parses in at most one way into codes and a rest that no code begins.\<close>

lemma unique_tail:
  assumes "A \<subseteq> symbols" "set xs \<subseteq> A" "set ys \<subseteq> A"
    and "no_code A p" "no_code A q" "encoding xs @ p = encoding ys @ q"
  shows "xs = ys \<and> p = q"
  using assms
proof (induction xs arbitrary: ys)
  case Nil
  then show ?case
  proof (cases ys)
    case (Cons d ds)
    with Nil have "prefix (code d) p" "d \<in> A" by auto
    with Nil show ?thesis by (auto simp: no_code_def)
  qed auto
next
  case (Cons c cs)
  show ?case
  proof (cases ys)
    case Nil
    with Cons.prems have "prefix (code c) q" "c \<in> A"
      by (auto simp flip: append_assoc)
    with Cons.prems show ?thesis by (auto simp: no_code_def)
  next
    case (Cons d ds)
    have "c = d"
    proof (rule prefix_same)
      show "prefix (code c) (encoding (c # cs) @ p)" by simp
      show "prefix (code d) (encoding (c # cs) @ p)"
        using Cons.prems(6) \<open>ys = d # ds\<close> by simp
    qed (use Cons.prems \<open>ys = d # ds\<close> in auto)
    with Cons.prems Cons.IH [of ds] \<open>ys = d # ds\<close> show ?thesis by auto
  qed
qed

lemma no_code_Nil: "A \<subseteq> symbols \<Longrightarrow> no_code A []"
  using code_nonempty by (auto simp: no_code_def)

corollary unique_decodable:
  "set xs \<subseteq> symbols \<Longrightarrow> set ys \<subseteq> symbols \<Longrightarrow> encoding xs = encoding ys \<Longrightarrow> xs = ys"
  using unique_tail [of symbols xs ys "[]" "[]"] by (simp add: no_code_Nil)

end

section \<open>The code of the table\<close>

definition code_bits :: "nat \<Rightarrow> bool list" where
  "code_bits c = nat_bits (snd (symbol_code c)) (fst (symbol_code c))"

definition path_bits :: "nat \<Rightarrow> bool list" where
  "path_bits s = nat_bits (snd (state_path s)) (fst (state_path s))"

lemma code_bits_prefix_free:
  assumes "c < 257" "d < 257" "prefix (code_bits c) (code_bits d)"
  shows "c = d"
proof (rule ccontr)
  assume "c \<noteq> d"
  obtain v k w l where c: "symbol_code c = (v, k)" and d: "symbol_code d = (w, l)"
    by (meson surj_pair)
  have ok: "k \<le> 30" "v < 2 ^ k" "l \<le> 30" "w < 2 ^ l"
    using symbol_code_ok [OF assms(1)] symbol_code_ok [OF assms(2)] by (simp_all add: c d)
  have kl: "k \<le> l" using prefix_length_le [OF assms(3)] by (simp add: code_bits_def c d)
  have "nat_bits k v = take k (nat_bits l w)"
    using assms(3) by (auto simp: code_bits_def c d elim!: prefixE)
  also have "\<dots> = nat_bits k (w div 2 ^ (l - k))" using kl by (rule nat_bits_take)
  finally have "v = w div 2 ^ (l - k)"
    using ok kl by (intro nat_bits_inject) (auto simp: less_mult_imp_div_less simp flip: power_add)
  then have "v * 2 ^ (l - k) \<le> w" and "w < 2 ^ (l - k) + v * 2 ^ (l - k)"
    using dividend_less_div_times [of "2 ^ (l - k)" w] by simp_all
  then have lo: "v * 2 ^ (l - k) * 2 ^ (30 - l) \<le> w * 2 ^ (30 - l)"
    and hi: "w * 2 ^ (30 - l) < (2 ^ (l - k) + v * 2 ^ (l - k)) * 2 ^ (30 - l)"
    by simp_all
  have "(2 :: nat) ^ (30 - k) = 2 ^ (l - k) * 2 ^ (30 - l)"
    using kl ok by (simp flip: power_add)
  then have "tile_start (symbol_code c) \<le> tile_start (symbol_code d)"
    and "tile_start (symbol_code d) < tile_start (symbol_code c) + tile_size (symbol_code c)"
    using lo hi by (simp_all add: c d algebra_simps)
  then show False
    using symbol_code_disjoint [OF assms(1,2) \<open>c \<noteq> d\<close>] tile_size_pos [of "symbol_code d"] by linarith
qed

lemma length_code_bits: "c < 257 \<Longrightarrow> 5 \<le> length (code_bits c) \<and> length (code_bits c) \<le> 30"
  using symbol_code_ok [of c] by (cases "symbol_code c") (simp add: code_bits_def)

interpretation hcode: prefix_code "{0..<257}" code_bits
proof
  show "code_bits c \<noteq> []" if "c \<in> {0..<257}" for c
    using length_code_bits [of c] that by auto
qed (use code_bits_prefix_free in auto)

lemma code_bits_eos: "code_bits 256 = replicate 30 True"
  using nat_bits_ones [of 30] by (simp add: code_bits_def symbol_code_rules)

lemma state_path_short: "s < 256 \<Longrightarrow> snd (state_path s) < 30"
proof -
  assume "s < 256"
  have "list_all (\<lambda>x. snd x < 30) STATE_PATHS" by (simp add: STATE_PATHS_def)
  then have "list_all (\<lambda>x. snd x < 30) (map state_path [0..<256])" by (simp only: state_path_upt)
  with \<open>s < 256\<close> show ?thesis by (simp add: list_all_iff)
qed

lemma ones_no_code:
  assumes "k \<le> 7"
  shows "hcode.no_code {0..<257} (replicate k True)"
  unfolding hcode.no_code_def
proof
  fix c :: nat
  assume "c \<in> {0..<257}"
  then have c: "c < 257" by simp
  obtain v l where vl: "symbol_code c = (v, l)" by (meson surj_pair)
  have ok: "l \<le> 30" "v < 2 ^ l" using symbol_code_ok [OF c] by (simp_all add: vl)
  show "\<not> prefix (code_bits c) (replicate k True)"
  proof
    assume pre: "prefix (code_bits c) (replicate k True)"
    then have l: "l \<le> 7" using assms prefix_length_le [OF pre] by (simp add: code_bits_def vl)
    have "set (code_bits c) \<subseteq> {True}" using set_mono_prefix [OF pre] by auto
    then have "code_bits c = replicate l True"
      by (intro replicate_eqI) (auto simp: code_bits_def vl)
    then have v: "v = 2 ^ l - 1" using ok by (simp add: code_bits_def vl nat_bits_all_ones_iff)
    have "prefix (code_bits c) (code_bits 256)"
    proof -
      have "code_bits 256 = replicate l True @ replicate (30 - l) True"
        using ok by (simp add: code_bits_eos flip: replicate_add)
      then show ?thesis by (simp add: \<open>code_bits c = replicate l True\<close>)
    qed
    then have "c = 256" using hcode.prefix_free [of c 256] c by simp
    then show False using l vl by (simp add: symbol_code_rules)
  qed
qed

section \<open>The decoding table on bit strings\<close>

lemma extend_bits:
  assumes "n \<le> 4" "p < 16"
  shows "nat_bits (snd (extend x p n)) (fst (extend x p n)) =
    nat_bits (snd x) (fst x) @ take n (nat_bits 4 p)"
proof -
  obtain v k where x: "x = (v, k)" by (meson surj_pair)
  have "p div 2 ^ (4 - n) < 2 ^ n"
    using assms by (auto simp: less_mult_imp_div_less simp flip: power_add)
  from nat_bits_append [OF this, of k v] show ?thesis
    using assms by (simp add: x nat_bits_take)
qed

lemma fields_ok_need:
  assumes "fields_ok s p 0 symb bits nxt" "p < 16"
  shows "bits = 4" "s < nxt" "path_bits nxt = path_bits s @ nat_bits 4 p"
  using assms extend_bits [of 4 p "state_path s"] by (simp_all add: fields_ok_def path_bits_def)

lemma fields_ok_accept:
  assumes "fields_ok s p 1 symb bits nxt" "p < 16"
  shows "1 \<le> bits" "bits \<le> 4" "nxt = 0" "code_bits symb = path_bits s @ take bits (nat_bits 4 p)"
  using assms extend_bits [of bits p "state_path s"]
  by (simp_all add: fields_ok_def path_bits_def code_bits_def)

lemma fields_ok_error:
  assumes "fields_ok s p 2 symb bits nxt" "p < 16"
  shows "\<exists>n \<le> 4. code_bits 256 = path_bits s @ take n (nat_bits 4 p)"
proof -
  have "\<exists>n \<in> {1, 2, 3, 4}. symbol_code 256 = extend (state_path s) p n"
    using assms(1) by (simp add: fields_ok_def)
  then obtain n where "n \<in> {1, 2, 3, 4}" "symbol_code 256 = extend (state_path s) p n"
    by (rule bexE)
  moreover from this(1) have "n \<le> 4" by auto
  ultimately have "n \<le> 4" "symbol_code 256 = extend (state_path s) p n" by simp_all
  with extend_bits [of n p "state_path s"] assms(2) show ?thesis
    by (auto simp: path_bits_def code_bits_def)
qed

lemma fields_ok_flags: "fields_ok s p flags symb bits nxt \<Longrightarrow> flags = 0 \<or> flags = 1 \<or> flags = 2"
  by (auto simp: fields_ok_def split: if_splits)

definition load_entry :: "nat \<Rightarrow> nat \<Rightarrow> decode_entry" where
  "load_entry state peek = from_packed (HUFFMAN_DECODE_TABLE_PACKED ! state ! peek)"

lemma unat_byte_of:
  fixes v :: u32
  shows "unat (ucast (drop_bit n v AND 0xFF) :: u8) = unat v div 2 ^ n mod 256"
proof -
  have "(0xFF :: u32) = mask 8" by (simp add: mask_eq_exp_minus_1)
  then have "drop_bit n v AND 0xFF = take_bit 8 (drop_bit n v)" by (simp only: take_bit_eq_mask)
  then have "unat (ucast (drop_bit n v AND 0xFF) :: u8) = take_bit 8 (unat (drop_bit n v))"
    by (simp add: unsigned_ucast_eq unsigned_take_bit_eq)
  also have "unat (drop_bit n v) = drop_bit n (unat v)"
    using unsigned_less [of v, where 'a = nat] by (simp add: unsigned_drop_bit_eq take_bit_nat_eq_self)
  also have "drop_bit n (unat v) = unat v div 2 ^ n" by (rule drop_bit_eq_div)
  finally show ?thesis by (simp add: take_bit_eq_mod)
qed

lemma from_packed_fields:
  "unat (de_flags (from_packed v)) = unat v mod 256"
  "unat (de_sym (from_packed v)) = unat v div 256 mod 256"
  "unat (de_bits (from_packed v)) = unat v div 65536 mod 256"
  "unat (de_next (from_packed v)) = unat v div 16777216"
proof -
  have "unat v < 2 ^ 32" using unsigned_less [of v, where 'a = nat] by simp
  then have "unat v div 16777216 mod 256 = unat v div 16777216" by simp
  then show "unat (de_next (from_packed v)) = unat v div 16777216"
    using unat_byte_of [of 24 v] by (simp add: from_packed_def)
  show "unat (de_flags (from_packed v)) = unat v mod 256"
    using unat_byte_of [of 0 v] by (simp add: from_packed_def)
  show "unat (de_sym (from_packed v)) = unat v div 256 mod 256"
    using unat_byte_of [of 8 v] by (simp add: from_packed_def)
  show "unat (de_bits (from_packed v)) = unat v div 65536 mod 256"
    using unat_byte_of [of 16 v] by (simp add: from_packed_def)
qed

lemma load_entry_ok:
  assumes "s < 256" "p < 16"
  shows "fields_ok s p (unat (de_flags (load_entry s p))) (unat (de_sym (load_entry s p)))
    (unat (de_bits (load_entry s p))) (unat (de_next (load_entry s p)))"
  using decode_table_ok [OF assms] by (simp add: load_entry_def from_packed_fields entry_ok_def)

text \<open>Every state lies strictly inside the code of some symbol, so no code ends before it.\<close>

lemma state_inside_code:
  assumes "s < 256"
  shows "\<exists>c < 257. strict_prefix (path_bits s) (code_bits c)"
  using assms
proof (induction "256 - s" arbitrary: s rule: less_induct)
  case less
  let ?e = "load_entry s 0"
  have ok: "fields_ok s 0 (unat (de_flags ?e)) (unat (de_sym ?e)) (unat (de_bits ?e)) (unat (de_next ?e))"
    using less.prems by (rule load_entry_ok) simp
  have bound: "unat (w :: u8) < 256" for w
    using unsigned_less [of w, where 'a = nat] by simp
  consider "unat (de_flags ?e) = 0" | "unat (de_flags ?e) = 1" | "unat (de_flags ?e) = 2"
    using fields_ok_flags [OF ok] by metis
  then show ?case
  proof cases
    case 1
    note need = fields_ok_need [OF ok [unfolded 1] zero_less_numeral]
    have "256 - unat (de_next ?e) < 256 - s" using need(2) less.prems by (intro diff_less_mono2)
    then obtain c where c: "c < 257" "strict_prefix (path_bits (unat (de_next ?e))) (code_bits c)"
      using less.hyps [of "unat (de_next ?e)"] need(2) bound [of "de_next ?e"] less.prems by auto
    have "prefix (path_bits s) (path_bits (unat (de_next ?e)))" by (simp only: need(3)) simp
    then have "strict_prefix (path_bits s) (code_bits c)" using c(2) by (rule prefix_order.le_less_trans)
    with c(1) show ?thesis by (intro exI [of _ c]) simp
  next
    case 2
    note acc = fields_ok_accept [OF ok [unfolded 2] zero_less_numeral]
    have "take (unat (de_bits ?e)) (nat_bits 4 0) \<noteq> []"
      using acc(1) by (auto simp: take_eq_Nil2 simp flip: length_0_conv)
    with acc(4) have "strict_prefix (path_bits s) (code_bits (unat (de_sym ?e)))"
      by (simp add: strict_prefix_def)
    with bound [of "de_sym ?e"] show ?thesis
      by (intro exI [of _ "unat (de_sym ?e)"]) simp
  next
    case 3
    obtain n where n: "n \<le> 4" "code_bits 256 = path_bits s @ take n (nat_bits 4 0)"
      using fields_ok_error [OF ok [unfolded 3] zero_less_numeral] by auto
    have "n \<noteq> 0"
    proof
      assume "n = 0"
      then have "path_bits s = replicate 30 True" using n(2) by (simp add: code_bits_eos)
      then have "length (path_bits s) = 30" by simp
      then show False using state_path_short [OF less.prems] by (simp add: path_bits_def)
    qed
    then have "take n (nat_bits 4 0) \<noteq> []" by (simp flip: length_greater_0_conv)
    with n(2) have "strict_prefix (path_bits s) (code_bits 256)" by (simp add: strict_prefix_def)
    then show ?thesis by (intro exI [of _ 256]) simp
  qed
qed

lemma no_code_in_state:
  assumes "s < 256" "c < 257"
  shows "\<not> prefix (code_bits c) (path_bits s)"
proof
  assume pre: "prefix (code_bits c) (path_bits s)"
  obtain d where d: "strict_prefix (path_bits s) (code_bits d)" "d < 257"
    using state_inside_code [OF assms(1)] by blast
  have "strict_prefix (code_bits c) (code_bits d)"
    using pre d(1) by (rule prefix_order.le_less_trans)
  then have "prefix (code_bits c) (code_bits d)" "code_bits c \<noteq> code_bits d"
    by (simp_all add: strict_prefix_def)
  with code_bits_prefix_free [OF assms(2) d(2)] show False by simp
qed

lemma path_bits_0 [simp]: "path_bits 0 = []"
  by (simp add: path_bits_def state_path_rules)

end
