(* ===== verification/Huffman.thy ===== *)
theory Huffman
  imports Huffman_Code
begin

text \<open>
  The Huffman coder of src/src/http2/hpack/huffman.rs: the encoder with its 64-bit shift
  register, and the table-driven decoder with its bit cache (\<open>acc\<close>, \<open>bits_left\<close>) and automaton
  state.  The loops terminate because every entry of the decoding table that is not an error
  consumes one to four bits.  The decoder accepts exactly the encoder's outputs.
\<close>

section \<open>The encoder\<close>

text \<open>The inner loop: while a whole byte is pending, emit it.\<close>

fun huffman_flush :: "u64 \<Rightarrow> nat \<Rightarrow> bytes \<Rightarrow> nat \<times> bytes" where
  "huffman_flush current bits result =
    (if 8 \<le> bits
     then huffman_flush current (bits - 8) (result @ [ucast (drop_bit (bits - 8) current)])
     else (bits, result))"

declare huffman_flush.simps [simp del]

fun huffman_encode_loop :: "bytes \<Rightarrow> u64 \<Rightarrow> nat \<Rightarrow> bytes \<Rightarrow> u64 \<times> nat \<times> bytes" where
  "huffman_encode_loop [] current bits result = (current, bits, result)"
| "huffman_encode_loop (byte # src) current bits result =
    (let (code, len) = HUFFMAN_ENCODE_TABLE ! unat byte;
         current = push_bit (unat len) current OR ucast code;
         (bits, result) = huffman_flush current (bits + unat len) result
     in huffman_encode_loop src current bits result)"

definition huffman_encode :: "bytes \<Rightarrow> bytes" where
  "huffman_encode src =
    (let (current, bits, result) = huffman_encode_loop src 0 0 []
     in if bits > 0
        then
          let padding = 8 - bits;
              current = push_bit padding current OR (push_bit padding 1 - 1)
          in result @ [ucast current]
        else result)"

definition huffman_encoded_len :: "bytes \<Rightarrow> nat" where
  "huffman_encoded_len src =
    (let bits = fold (\<lambda>byte bits. bits + unat (snd (HUFFMAN_ENCODE_TABLE ! unat byte))) src 0
     in (bits + 7) div 8)"

section \<open>The decoder\<close>

definition HUFFMAN_DECODE_FLAG_NEED :: u8 where
  "HUFFMAN_DECODE_FLAG_NEED = 0x00"

definition HUFFMAN_DECODE_FLAG_ACCEPT :: u8 where
  "HUFFMAN_DECODE_FLAG_ACCEPT = 0x01"

definition HUFFMAN_DECODE_FLAG_ERROR :: u8 where
  "HUFFMAN_DECODE_FLAG_ERROR = 0x02"

definition MIN_CODE_LEN :: nat where
  "MIN_CODE_LEN = 5"

definition MAX_BITS_LEFT :: nat where
  "MAX_BITS_LEFT = 32"

text \<open>The mutable variables of the decoder: the bit cache, the automaton state, the output.\<close>

record huffman_state =
  h_acc :: u64
  h_bits_left :: nat
  h_state :: u8
  h_result :: bytes

definition all_ones :: "u64 \<Rightarrow> nat \<Rightarrow> bool" where
  "all_ones acc bits_left =
    (if bits_left = 0 then True
     else let mask = push_bit bits_left 1 - 1 in acc AND mask = mask)"

definition consume_bits :: "nat \<Rightarrow> huffman_state \<Rightarrow> huffman_state" where
  "consume_bits n h =
    (let bits_left = h_bits_left h - n
     in if bits_left = 0 then h\<lparr>h_acc := 0, h_bits_left := bits_left\<rparr>
        else h\<lparr>h_acc := h_acc h AND (push_bit bits_left 1 - 1), h_bits_left := bits_left\<rparr>)"

definition accept_entry :: "decode_entry \<Rightarrow> huffman_state \<Rightarrow> huffman_state" where
  "accept_entry e h =
    (let h = consume_bits (unat (de_bits e)) h
     in h\<lparr>h_result := h_result h @ [de_sym e], h_state := de_next e\<rparr>)"

definition residual_entry :: "huffman_state \<Rightarrow> decode_entry" where
  "residual_entry h =
    (let shift = HUFFMAN_DECODE_STRIDE - h_bits_left h;
         peek = (push_bit shift (h_acc h) OR (push_bit shift 1 - 1)) AND ucast HUFFMAN_DECODE_PEEK_MASK
     in load_entry (unat (h_state h)) (unat peek))"

definition residual_accepts :: "huffman_state \<Rightarrow> bool" where
  "residual_accepts h =
    (h_bits_left h > 0 \<and> h_bits_left h < HUFFMAN_DECODE_STRIDE
     \<and> de_flags (residual_entry h) = HUFFMAN_DECODE_FLAG_ACCEPT
     \<and> unat (de_bits (residual_entry h)) \<le> h_bits_left h)"

definition drain_peek :: "huffman_state \<Rightarrow> nat" where
  "drain_peek h =
    unat (drop_bit (h_bits_left h - HUFFMAN_DECODE_STRIDE) (h_acc h) AND ucast HUFFMAN_DECODE_PEEK_MASK)"

text \<open>One turn of the loop in \<open>drain_lut\<close>, once the guards have let it through.\<close>

definition drain_step :: "huffman_state \<Rightarrow> huffman_state hpack_result" where
  "drain_step h =
    (let e = load_entry (unat (h_state h)) (drain_peek h)
     in if de_flags e = HUFFMAN_DECODE_FLAG_ERROR then Inl HuffmanDecodeError
        else if de_flags e = HUFFMAN_DECODE_FLAG_ACCEPT then Inr (accept_entry e h)
        else if de_flags e = HUFFMAN_DECODE_FLAG_NEED
        then Inr ((consume_bits (unat (de_bits e)) h)\<lparr>h_state := de_next e\<rparr>)
        else Inl HuffmanDecodeError)"

section \<open>Bits of words\<close>

lemma nat_bits_bit: "nat_bits n v = rev (map (bit v) [0..<n])"
proof (induction n arbitrary: v)
  case (Suc n)
  have "map (bit v) [0..<Suc n] = bit v 0 # map (\<lambda>i. bit v (Suc i)) [0..<n]"
    by (simp add: upt_conv_Cons map_Suc_upt [symmetric] del: upt_Suc)
  with Suc [of "v div 2"] show ?case by (simp add: bit_Suc bit_0)
qed simp

definition word_bits :: "nat \<Rightarrow> 'a :: len word \<Rightarrow> bool list" where
  "word_bits n w = nat_bits n (unat w)"

lemma length_word_bits [simp]: "length (word_bits n w) = n"
  by (simp add: word_bits_def)

lemma word_bits_0 [simp]: "word_bits 0 w = []"
  by (simp add: word_bits_def)

lemma word_bits_bit: "word_bits n w = rev (map (bit w) [0..<n])"
proof -
  have "bit (unat w) i = bit w i" for i
    using bit_imp_le_length [of w i] by (auto simp: bit_unsigned_iff)
  then show ?thesis by (simp add: word_bits_def nat_bits_bit)
qed

lemma word_bits_split:
  assumes "\<And>i. i < n \<Longrightarrow> bit u (i + k) = bit v i" and "\<And>i. i < k \<Longrightarrow> bit u i = bit w i"
  shows "word_bits (n + k) u = word_bits n v @ word_bits k w"
proof -
  have "[0..<n + k] = [0..<k] @ map (\<lambda>i. i + k) [0..<n]"
    using upt_add_eq_append [of 0 k n] by (simp add: map_add_upt add.commute)
  then show ?thesis using assms by (simp add: word_bits_bit comp_def)
qed

lemma word_bits_shift_in:
  fixes w :: "'a :: len word"
  assumes "n + k \<le> LENGTH('a)" and "\<And>i. bit c i \<Longrightarrow> i < k"
  shows "word_bits (n + k) (push_bit k w OR c) = word_bits n w @ word_bits k c"
  using assms by (intro word_bits_split) (auto simp: bit_or_iff bit_push_bit_iff)

lemma word_bits_cong:
  "(\<And>i. i < n \<Longrightarrow> bit v i = bit w i) \<Longrightarrow> word_bits n v = word_bits n w"
  by (simp add: word_bits_bit)

lemma minus_one_mask: "push_bit n 1 - 1 = (mask n :: 'a :: len word)"
  by (simp add: mask_eq_exp_minus_1 push_bit_eq_mult)

lemma word_bits_all_ones_iff: "word_bits n w = replicate n True \<longleftrightarrow> (\<forall>i < n. bit w i)"
proof -
  have "word_bits n w = replicate n True \<longleftrightarrow> map (bit w) [0..<n] = replicate n True"
    unfolding word_bits_bit by (metis rev_replicate rev_rev_ident)
  also have "\<dots> \<longleftrightarrow> (\<forall>i < n. bit w i)" by (auto simp: list_eq_iff_nth_eq)
  finally show ?thesis .
qed

section \<open>What a table lookup sees\<close>

definition h_bits :: "huffman_state \<Rightarrow> bool list" where
  "h_bits h = word_bits (h_bits_left h) (h_acc h)"

definition residual_peek :: "huffman_state \<Rightarrow> nat" where
  "residual_peek h =
    unat ((push_bit (4 - h_bits_left h) (h_acc h) OR mask (4 - h_bits_left h)) AND (15 :: u64))"

lemma length_h_bits [simp]: "length (h_bits h) = h_bits_left h"
  by (simp add: h_bits_def)

lemma u64_15: "(15 :: u64) = mask 4"
  by (simp add: mask_eq_exp_minus_1)

lemma and_15_less: "unat (w AND (15 :: u64)) < 16"
proof -
  have "w AND 15 < 2 ^ 4" unfolding u64_15 by (rule and_mask_less') simp
  then show ?thesis by (simp add: word_less_nat_alt)
qed

lemma peek_mask_ucast: "ucast HUFFMAN_DECODE_PEEK_MASK = (15 :: u64)"
  by (simp add: HUFFMAN_DECODE_PEEK_MASK_def)

lemma drain_peek_less: "drain_peek h < 16"
  unfolding drain_peek_def peek_mask_ucast by (rule and_15_less)

lemma residual_peek_less: "residual_peek h < 16"
  unfolding residual_peek_def by (rule and_15_less)

lemma residual_entry_peek: "residual_entry h = load_entry (unat (h_state h)) (residual_peek h)"
  by (simp add: residual_entry_def residual_peek_def peek_mask_ucast HUFFMAN_DECODE_STRIDE_def
      minus_one_mask Let_def del: push_bit_of_1)

lemma drain_peek_bits:
  assumes "4 \<le> h_bits_left h"
  shows "h_bits h = nat_bits 4 (drain_peek h) @ word_bits (h_bits_left h - 4) (h_acc h)"
proof -
  let ?k = "h_bits_left h - 4"
  have "word_bits (4 + ?k) (h_acc h) =
      word_bits 4 (drop_bit ?k (h_acc h) AND mask 4) @ word_bits ?k (h_acc h)"
    by (rule word_bits_split) (auto simp: bit_and_iff bit_mask_iff bit_drop_bit_eq add.commute)
  with assms show ?thesis
    by (simp add: h_bits_def drain_peek_def peek_mask_ucast HUFFMAN_DECODE_STRIDE_def u64_15
        word_bits_def del: mask_Suc_exp)
qed

lemma residual_peek_bits:
  assumes "h_bits_left h < 4"
  shows "nat_bits 4 (residual_peek h) = h_bits h @ replicate (4 - h_bits_left h) True"
proof -
  let ?k = "4 - h_bits_left h"
  have "word_bits (h_bits_left h + ?k) ((push_bit ?k (h_acc h) OR mask ?k) AND mask 4) =
      word_bits (h_bits_left h) (h_acc h) @ word_bits ?k (mask ?k :: u64)"
    using assms
    by (intro word_bits_split)
      (auto simp: bit_and_iff bit_or_iff bit_mask_iff bit_push_bit_iff)
  moreover have "word_bits ?k (mask ?k :: u64) = replicate ?k True"
    unfolding word_bits_all_ones_iff by (auto simp: bit_mask_iff)
  ultimately show ?thesis
    using assms by (simp add: h_bits_def residual_peek_def u64_15 word_bits_def del: mask_Suc_exp)
qed

lemma consume_bits_simps [simp]:
  "h_bits_left (consume_bits n h) = h_bits_left h - n"
  "h_state (consume_bits n h) = h_state h"
  "h_result (consume_bits n h) = h_result h"
  by (simp_all add: consume_bits_def Let_def)

lemma h_bits_consume:
  assumes "n \<le> h_bits_left h" "h_bits_left h < 64"
  shows "h_bits (consume_bits n h) = drop n (h_bits h)"
proof -
  let ?k = "h_bits_left h - n"
  have "word_bits (n + ?k) (h_acc h) = word_bits n (drop_bit ?k (h_acc h)) @ word_bits ?k (h_acc h)"
    by (rule word_bits_split) (auto simp: bit_drop_bit_eq add.commute)
  then have "drop n (h_bits h) = word_bits ?k (h_acc h)"
    using assms by (simp add: h_bits_def)
  also have "\<dots> = h_bits (consume_bits n h)"
    using assms
    by (auto simp: h_bits_def consume_bits_def Let_def minus_one_mask bit_and_iff bit_mask_iff
        simp del: push_bit_of_1 intro!: word_bits_cong)
  finally show ?thesis ..
qed

section \<open>Termination of the loops\<close>

lemma u8_bound: "unat (w :: u8) < 256"
  using unsigned_less [of w, where 'a = nat] by simp

lemma flag_unat:
  "de_flags e = HUFFMAN_DECODE_FLAG_NEED \<longleftrightarrow> unat (de_flags e) = 0"
  "de_flags e = HUFFMAN_DECODE_FLAG_ACCEPT \<longleftrightarrow> unat (de_flags e) = 1"
  "de_flags e = HUFFMAN_DECODE_FLAG_ERROR \<longleftrightarrow> unat (de_flags e) = 2"
  by (simp_all add: HUFFMAN_DECODE_FLAG_NEED_def HUFFMAN_DECODE_FLAG_ACCEPT_def
      HUFFMAN_DECODE_FLAG_ERROR_def word_unat_eq_iff)

lemma accept_entry_simps [simp]:
  "h_bits_left (accept_entry e h) = h_bits_left h - unat (de_bits e)"
  "h_state (accept_entry e h) = de_next e"
  "h_result (accept_entry e h) = h_result h @ [de_sym e]"
  "h_bits (accept_entry e h) = h_bits (consume_bits (unat (de_bits e)) h)"
  by (simp_all add: accept_entry_def Let_def h_bits_def)

lemma state_entry_ok:
  "p < 16 \<Longrightarrow> fields_ok (unat (h_state h)) p (unat (de_flags (load_entry (unat (h_state h)) p)))
    (unat (de_sym (load_entry (unat (h_state h)) p))) (unat (de_bits (load_entry (unat (h_state h)) p)))
    (unat (de_next (load_entry (unat (h_state h)) p)))"
  by (rule load_entry_ok [OF u8_bound])

lemma residual_accepts_decreases:
  assumes "residual_accepts h"
  shows "h_bits_left (accept_entry (residual_entry h) h) < h_bits_left h"
proof -
  have "1 \<le> unat (de_bits (residual_entry h))"
    using assms state_entry_ok [OF residual_peek_less, of h h] fields_ok_accept(1)
    by (auto simp: residual_accepts_def flag_unat residual_entry_peek residual_peek_less)
  with assms show ?thesis by (simp add: residual_accepts_def)
qed

lemma drain_step_decreases:
  assumes "drain_step h = Inr h'" "4 \<le> h_bits_left h"
  shows "h_bits_left h' < h_bits_left h"
proof -
  let ?e = "load_entry (unat (h_state h)) (drain_peek h)"
  note ok = state_entry_ok [OF drain_peek_less, of h h]
  have "h_bits_left h' = h_bits_left h - unat (de_bits ?e)"
    and "unat (de_flags ?e) = 0 \<or> unat (de_flags ?e) = 1"
    using assms(1) by (auto simp: drain_step_def Let_def flag_unat split: if_splits)
  moreover have "1 \<le> unat (de_bits ?e)" if "unat (de_flags ?e) = 1"
    using fields_ok_accept(1) ok drain_peek_less that by metis
  moreover have "unat (de_bits ?e) = 4" if "unat (de_flags ?e) = 0"
    using fields_ok_need(1) ok drain_peek_less that by metis
  ultimately show ?thesis using assms(2) by auto
qed

function residual_accept :: "huffman_state \<Rightarrow> huffman_state" where
  "residual_accept h =
    (if residual_accepts h then residual_accept (accept_entry (residual_entry h) h) else h)"
  by pat_completeness auto
termination
  by (relation "measure h_bits_left") (auto dest: residual_accepts_decreases)

declare residual_accept.simps [simp del]

function drain_lut :: "huffman_state \<Rightarrow> huffman_state hpack_result" where
  "drain_lut h =
    (if h_state h = 0 then
       if h_bits_left h < MIN_CODE_LEN then Inr h
       else if h_bits_left h \<le> 7 \<and> all_ones (h_acc h) (h_bits_left h) then Inr h
       else (case drain_step h of Inl e \<Rightarrow> Inl e | Inr h' \<Rightarrow> drain_lut h')
     else if h_bits_left h = 0 then Inr h
     else if h_bits_left h < HUFFMAN_DECODE_STRIDE then Inr (residual_accept h)
     else (case drain_step h of Inl e \<Rightarrow> Inl e | Inr h' \<Rightarrow> drain_lut h'))"
  by pat_completeness auto
termination
  by (relation "measure h_bits_left")
    (auto simp: MIN_CODE_LEN_def HUFFMAN_DECODE_STRIDE_def intro!: drain_step_decreases)

declare drain_lut.simps [simp del]

definition finish_padding :: "u64 \<Rightarrow> nat \<Rightarrow> u8 \<Rightarrow> unit hpack_result" where
  "finish_padding acc bits_left state =
    (if state \<noteq> 0 then Inl HuffmanDecodeError
     else if bits_left > 7 then Inl HuffmanDecodeError
     else if bits_left > 0 \<and> \<not> all_ones acc bits_left then Inl HuffmanDecodeError
     else Inr ())"

fun huffman_decode_loop :: "bytes \<Rightarrow> huffman_state \<Rightarrow> huffman_state hpack_result" where
  "huffman_decode_loop [] h = Inr h"
| "huffman_decode_loop (byte # src) h =
    (let h = h\<lparr>h_acc := push_bit 8 (h_acc h) OR ucast byte, h_bits_left := h_bits_left h + 8\<rparr>
     in if h_bits_left h > MAX_BITS_LEFT then Inl HuffmanDecodeError
        else bind_res (drain_lut h) (huffman_decode_loop src))"

definition huffman_decode :: "bytes \<Rightarrow> bytes hpack_result" where
  "huffman_decode src =
    bind_res (huffman_decode_loop src \<lparr>h_acc = 0, h_bits_left = 0, h_state = 0, h_result = []\<rparr>) (\<lambda>h.
    bind_res (drain_lut h) (\<lambda>h.
    let h = residual_accept h
    in bind_res (finish_padding (h_acc h) (h_bits_left h) (h_state h)) (\<lambda>_. Inr (h_result h))))"

section \<open>The decoder's invariant\<close>

abbreviation byte_symbols :: "nat set" where
  "byte_symbols \<equiv> {0..<256}"

definition coded :: "bytes \<Rightarrow> bool list" where
  "coded bs = hcode.encoding (map unat bs)"

lemma coded_simps [simp]:
  "coded [] = []" "coded (b # bs) = code_bits (unat b) @ coded bs"
  "coded (bs @ cs) = coded bs @ coded cs"
  by (simp_all add: coded_def)

definition pending :: "huffman_state \<Rightarrow> bool list" where
  "pending h = path_bits (unat (h_state h)) @ h_bits h"

definition padding :: "bool list \<Rightarrow> bool" where
  "padding bs \<longleftrightarrow> length bs \<le> 7 \<and> bs = replicate (length bs) True"

definition represents :: "huffman_state \<Rightarrow> bool list \<Rightarrow> bool" where
  "represents h bits \<longleftrightarrow> bits = coded (h_result h) @ pending h
    \<and> (h_state h \<noteq> 0 \<longrightarrow> \<not> padding (pending h)) \<and> h_bits_left h < 64"

definition settled :: "huffman_state \<Rightarrow> bool" where
  "settled h \<longleftrightarrow> h_bits_left h \<le> 7 \<and>
    (if h_state h = 0 then h_bits_left h < 5 \<or> padding (h_bits h)
     else h_bits_left h < 4 \<and> \<not> residual_accepts h)"

lemma all_ones_iff: "n < 64 \<Longrightarrow> all_ones acc n \<longleftrightarrow> word_bits n acc = replicate n True"
proof -
  assume "n < 64"
  have "acc AND mask n = mask n \<longleftrightarrow> (\<forall>i < n. bit acc i)"
  proof -
    have "acc AND mask n = mask n \<longleftrightarrow> (\<forall>i < 64. bit (acc AND mask n) i = bit (mask n :: u64) i)"
      by (simp add: bit_eq_iff)
    also have "\<dots> \<longleftrightarrow> (\<forall>i < n. bit acc i)" using \<open>n < 64\<close> order.strict_trans by (auto simp: bit_and_iff bit_mask_iff)
    finally show ?thesis .
  qed
  then show ?thesis
    by (simp add: all_ones_def Let_def minus_one_mask word_bits_all_ones_iff del: push_bit_of_1)
qed

lemma padding_h_bits:
  "h_bits_left h \<le> 7 \<Longrightarrow> all_ones (h_acc h) (h_bits_left h) \<longleftrightarrow> padding (h_bits h)"
  by (simp add: all_ones_iff padding_def h_bits_def)

lemma accept_represents:
  assumes rep: "represents h bits"
    and e: "e = load_entry (unat (h_state h)) p" "p < 16" "unat (de_flags e) = 1"
    and peek: "take (unat (de_bits e)) (nat_bits 4 p) = take (unat (de_bits e)) (h_bits h)"
    and le: "unat (de_bits e) \<le> h_bits_left h"
  shows "represents (accept_entry e h) bits" and "h_state (accept_entry e h) = 0"
proof -
  have ok: "fields_ok (unat (h_state h)) p 1 (unat (de_sym e)) (unat (de_bits e)) (unat (de_next e))"
    using state_entry_ok [OF e(2), of h] e(1,3) by simp
  note acc = fields_ok_accept [OF ok e(2)]
  show next0: "h_state (accept_entry e h) = 0"
    using acc(3) by (simp add: word_unat_eq_iff)
  have small: "h_bits_left h < 64" using rep by (simp add: represents_def)
  have "pending h = code_bits (unat (de_sym e)) @ h_bits (consume_bits (unat (de_bits e)) h)"
    by (simp add: pending_def acc(4) peek h_bits_consume [OF le small])
  with rep next0 show "represents (accept_entry e h) bits"
    by (auto simp: represents_def pending_def)
qed

lemma residual_represents:
  assumes "represents h bits" "residual_accepts h"
  shows "represents (accept_entry (residual_entry h) h) bits"
    and "h_state (accept_entry (residual_entry h) h) = 0"
proof -
  let ?e = "residual_entry h"
  have short: "h_bits_left h < 4" and fl: "unat (de_flags ?e) = 1" and le: "unat (de_bits ?e) \<le> h_bits_left h"
    using assms(2) by (simp_all add: residual_accepts_def HUFFMAN_DECODE_STRIDE_def flag_unat)
  have "take (unat (de_bits ?e)) (nat_bits 4 (residual_peek h)) = take (unat (de_bits ?e)) (h_bits h)"
    using le by (simp add: residual_peek_bits [OF short])
  from accept_represents [OF assms(1) residual_entry_peek residual_peek_less fl this le]
  show "represents (accept_entry ?e h) bits" "h_state (accept_entry ?e h) = 0" by simp_all
qed

lemma residual_accept_spec:
  assumes "represents h bits" "h_bits_left h < 4"
  shows "represents (residual_accept h) bits \<and> h_bits_left (residual_accept h) < 4
    \<and> \<not> residual_accepts (residual_accept h)"
  using assms
proof (induction h rule: residual_accept.induct)
  case (1 h)
  show ?case
  proof (cases "residual_accepts h")
    case True
    have "h_bits_left (accept_entry (residual_entry h) h) < 4"
      using residual_accepts_decreases [OF True] 1 by simp
    from "1.IH" [OF True residual_represents(1) [OF 1(2) True] this]
    show ?thesis using True by (simp add: residual_accept.simps [of h])
  next
    case False
    with 1 show ?thesis by (simp add: residual_accept.simps [of h])
  qed
qed

lemma drain_step_represents:
  assumes rep: "represents h bits" and four: "4 \<le> h_bits_left h"
    and guard: "h_state h = 0 \<Longrightarrow> \<not> padding (h_bits h)"
    and step: "drain_step h = Inr h'"
  shows "represents h' bits"
proof -
  let ?p = "drain_peek h" and ?e = "load_entry (unat (h_state h)) (drain_peek h)"
  have small: "h_bits_left h < 64" using rep by (simp add: represents_def)
  have peek: "take n (nat_bits 4 ?p) = take n (h_bits h)" if "n \<le> 4" for n
    using that by (simp add: drain_peek_bits [OF four])
  note ok = state_entry_ok [OF drain_peek_less, of h h]
  from step consider (accept) "unat (de_flags ?e) = 1" "h' = accept_entry ?e h"
    | (need) "unat (de_flags ?e) = 0" "h' = (consume_bits (unat (de_bits ?e)) h)\<lparr>h_state := de_next ?e\<rparr>"
    by (auto simp: drain_step_def Let_def flag_unat split: if_splits)
  then show ?thesis
  proof cases
    case accept
    have "unat (de_bits ?e) \<le> 4"
      using fields_ok_accept(2) [OF ok [unfolded accept(1)] drain_peek_less] .
    with accept four accept_represents(1) [OF rep refl drain_peek_less] peek show ?thesis by simp
  next
    case need
    note nd = fields_ok_need [OF ok [unfolded need(1)] drain_peek_less]
    have bits: "h_bits h' = drop 4 (h_bits h)"
      using h_bits_consume [OF four small] nd(1) by (simp add: need(2) h_bits_def)
    have "path_bits (unat (h_state h')) = path_bits (unat (h_state h)) @ take 4 (h_bits h)"
      using nd(3) peek [of 4] by (simp add: need(2))
    then have "pending h' = pending h" by (simp add: pending_def bits)
    moreover have "\<not> padding (pending h)"
      using rep guard by (cases "h_state h = 0") (auto simp: represents_def pending_def)
    ultimately show ?thesis
      using rep by (auto simp: represents_def need(2))
  qed
qed

lemma drain_step_error:
  assumes rep: "represents h bits" and four: "4 \<le> h_bits_left h" and step: "drain_step h = Inl err"
  shows "\<exists>out r. bits = coded out @ code_bits 256 @ r"
proof -
  let ?p = "drain_peek h" and ?e = "load_entry (unat (h_state h)) (drain_peek h)"
  note ok = state_entry_ok [OF drain_peek_less, of h h]
  have "unat (de_flags ?e) = 2"
    using step fields_ok_flags [OF ok]
    by (auto simp: drain_step_def Let_def flag_unat split: if_splits)
  from fields_ok_error [OF ok [unfolded this] drain_peek_less]
  obtain n where "n \<le> 4" "code_bits 256 = path_bits (unat (h_state h)) @ take n (nat_bits 4 ?p)"
    by blast
  then have "pending h = code_bits 256 @ drop n (h_bits h)"
    by (simp add: pending_def drain_peek_bits [OF four])
  then show ?thesis using rep by (auto simp: represents_def)
qed

lemma drain_lut_spec:
  assumes "represents h bits"
  shows "case drain_lut h of
      Inr h' \<Rightarrow> represents h' bits \<and> settled h'
    | Inl _ \<Rightarrow> \<exists>out r. bits = coded out @ code_bits 256 @ r"
  using assms
proof (induction h rule: drain_lut.induct)
  case (1 h)
  have small: "h_bits_left h < 64" using 1(3) by (simp add: represents_def)
  consider (root_short) "h_state h = 0" "h_bits_left h < 5"
    | (root_pad) "h_state h = 0" "5 \<le> h_bits_left h" "h_bits_left h \<le> 7" "padding (h_bits h)"
    | (mid_short) "h_state h \<noteq> 0" "h_bits_left h < 4"
    | (step) "4 \<le> h_bits_left h" "h_state h = 0 \<Longrightarrow> 5 \<le> h_bits_left h \<and> \<not> padding (h_bits h)"
    by (cases "h_state h = 0") (force simp: padding_def, force)
  then show ?case
  proof cases
    case root_short
    then show ?thesis using 1(3) by (simp add: drain_lut.simps [of h] MIN_CODE_LEN_def settled_def)
  next
    case root_pad
    then show ?thesis
      using 1(3) by (simp add: drain_lut.simps [of h] MIN_CODE_LEN_def settled_def padding_h_bits)
  next
    case mid_short
    have "drain_lut h = Inr (if h_bits_left h = 0 then h else residual_accept h)"
      using mid_short by (simp add: drain_lut.simps [of h] HUFFMAN_DECODE_STRIDE_def)
    moreover have "\<not> residual_accepts h" if "h_bits_left h = 0"
      using that by (simp add: residual_accepts_def)
    ultimately show ?thesis
      using 1(3) mid_short residual_accept_spec [OF 1(3) mid_short(2)] by (auto simp: settled_def)
  next
    case step
    have eq: "drain_lut h = (case drain_step h of Inl e \<Rightarrow> Inl e | Inr h' \<Rightarrow> drain_lut h')"
      using step by (auto simp: drain_lut.simps [of h] MIN_CODE_LEN_def HUFFMAN_DECODE_STRIDE_def padding_h_bits)
    show ?thesis
    proof (cases "drain_step h")
      case (Inl e)
      then show ?thesis using drain_step_error [OF 1(3) step(1)] by (simp add: eq)
    next
      case (Inr h')
      have rep: "represents h' bits"
        using drain_step_represents [OF 1(3) step(1) _ Inr] step(2) by blast
      show ?thesis
      proof (cases "h_state h = 0")
        case True
        then have "case drain_lut h' of Inr h' \<Rightarrow> represents h' bits \<and> settled h'
            | Inl _ \<Rightarrow> \<exists>out r. bits = coded out @ code_bits 256 @ r"
          using step(2) by (intro "1.IH"(1) [OF _ _ _ Inr rep])
            (auto simp: MIN_CODE_LEN_def padding_h_bits)
        then show ?thesis by (simp add: eq Inr)
      next
        case False
        then have "case drain_lut h' of Inr h' \<Rightarrow> represents h' bits \<and> settled h'
            | Inl _ \<Rightarrow> \<exists>out r. bits = coded out @ code_bits 256 @ r"
          using step(1) by (intro "1.IH"(2) [OF _ _ _ Inr rep]) (auto simp: HUFFMAN_DECODE_STRIDE_def)
        then show ?thesis by (simp add: eq Inr)
      qed
    qed
  qed
qed

definition bytes_bits :: "bytes \<Rightarrow> bool list" where
  "bytes_bits bs = concat (map (word_bits 8) bs)"

lemma bytes_bits_simps [simp]:
  "bytes_bits [] = []" "bytes_bits (b # bs) = word_bits 8 b @ bytes_bits bs"
  "bytes_bits (bs @ cs) = bytes_bits bs @ bytes_bits cs"
  by (simp_all add: bytes_bits_def)

lemma padding_prefix: "padding (xs @ ys) \<Longrightarrow> padding xs"
proof -
  assume "padding (xs @ ys)"
  then have "length xs \<le> 7" "\<forall>x \<in> set xs. x"
    by (auto simp: padding_def) (metis Un_iff set_append in_set_replicate)
  then show "padding xs" by (auto simp: padding_def intro: replicate_eqI)
qed

lemma feed_represents:
  assumes "represents h bits" "h_bits_left h \<le> 7"
  shows "represents (h\<lparr>h_acc := push_bit 8 (h_acc h) OR ucast byte, h_bits_left := h_bits_left h + 8\<rparr>)
    (bits @ word_bits 8 (byte :: u8))"
proof -
  let ?h = "h\<lparr>h_acc := push_bit 8 (h_acc h) OR ucast byte, h_bits_left := h_bits_left h + 8\<rparr>"
  have "word_bits (h_bits_left h + 8) (push_bit 8 (h_acc h) OR ucast byte) =
      word_bits (h_bits_left h) (h_acc h) @ word_bits 8 (ucast byte :: u64)"
    using assms(2) by (intro word_bits_shift_in) (auto simp: bit_ucast_iff dest: bit_imp_le_length)
  moreover have "word_bits 8 (ucast byte :: u64) = word_bits 8 byte"
    by (simp add: word_bits_bit bit_ucast_iff cong: map_cong)
  ultimately have "pending ?h = pending h @ word_bits 8 byte"
    by (simp add: pending_def h_bits_def)
  then show ?thesis
    using assms padding_prefix by (auto simp: represents_def)
qed

lemma huffman_decode_loop_spec:
  assumes "represents h bits" "settled h"
  shows "case huffman_decode_loop src h of
      Inr h' \<Rightarrow> represents h' (bits @ bytes_bits src) \<and> settled h'
    | Inl _ \<Rightarrow> \<exists>out r. bits @ bytes_bits src = coded out @ code_bits 256 @ r"
  using assms
proof (induction src arbitrary: h bits)
  case (Cons byte src)
  let ?h = "h\<lparr>h_acc := push_bit 8 (h_acc h) OR ucast byte, h_bits_left := h_bits_left h + 8\<rparr>"
  have le: "h_bits_left h \<le> 7" using Cons.prems(2) by (simp add: settled_def)
  have rep: "represents ?h (bits @ word_bits 8 byte)"
    using Cons.prems(1) le by (rule feed_represents)
  have eq: "huffman_decode_loop (byte # src) h = bind_res (drain_lut ?h) (huffman_decode_loop src)"
    using le by (simp add: Let_def MAX_BITS_LEFT_def)
  show ?case
  proof (cases "drain_lut ?h")
    case (Inl e)
    with drain_lut_spec [OF rep] obtain out r where "bits @ word_bits 8 byte = coded out @ code_bits 256 @ r"
      by auto
    then have "bits @ bytes_bits (byte # src) = coded out @ code_bits 256 @ (r @ bytes_bits src)" by simp
    then have "\<exists>out r. bits @ bytes_bits (byte # src) = coded out @ code_bits 256 @ r" by blast
    then show ?thesis unfolding eq Inl by (simp only: bind_res.simps sum.case)
  next
    case (Inr h')
    with drain_lut_spec [OF rep] have "represents h' (bits @ word_bits 8 byte)" "settled h'" by auto
    from Cons.IH [OF this] show ?thesis unfolding eq Inr
      by (simp only: bind_res.simps bytes_bits_simps append_assoc)
  qed
qed simp

section \<open>What the decoder accepts\<close>

lemma prefix_append_take:
  assumes "prefix xs (ys @ zs)" "\<not> prefix xs ys"
  shows "\<exists>n. xs = ys @ take n zs \<and> n \<le> length zs \<and> 0 < n"
proof -
  from assms obtain us where us: "xs = ys @ us" "prefix us zs" "us \<noteq> []"
    by (auto simp: prefix_append)
  then have "us = take (length us) zs" by (auto elim: prefixE)
  with us show ?thesis using prefix_length_le [OF us(2)]
    by (intro exI [of _ "length us"]) simp
qed

text \<open>Once nothing more can be decoded, no symbol's code begins the remaining bits.\<close>

lemma settled_no_code:
  assumes "settled h"
  shows "hcode.no_code byte_symbols (pending h)"
  unfolding hcode.no_code_def
proof
  fix c :: nat
  assume "c \<in> byte_symbols"
  then have c: "c < 256" and c': "c < 257" by simp_all
  show "\<not> prefix (code_bits c) (pending h)"
  proof (cases "h_state h = 0")
    case True
    then have "h_bits_left h < 5 \<or> padding (h_bits h)" and pend: "pending h = h_bits h"
      using assms by (simp_all add: settled_def pending_def)
    from this(1) show ?thesis
    proof
      assume "h_bits_left h < 5"
      then show ?thesis
        using length_code_bits [OF c'] prefix_length_le [of "code_bits c" "h_bits h"] pend by auto
    next
      assume "padding (h_bits h)"
      then have "h_bits h = replicate (h_bits_left h) True" "h_bits_left h \<le> 7"
        by (simp_all add: padding_def)
      then show ?thesis
        using ones_no_code [of "h_bits_left h"] c' pend by (auto simp: hcode.no_code_def)
    qed
  next
    case False
    with assms have short: "h_bits_left h < 4" and stuck: "\<not> residual_accepts h"
      by (simp_all add: settled_def)
    let ?s = "unat (h_state h)" and ?p = "residual_peek h"
    let ?e = "load_entry ?s ?p"
    let ?full = "path_bits ?s @ nat_bits 4 ?p"
    show ?thesis
    proof
      assume pre: "prefix (code_bits c) (pending h)"
      have "\<not> prefix (code_bits c) (path_bits ?s)" using no_code_in_state [OF u8_bound c'] .
      with pre obtain n where n: "code_bits c = path_bits ?s @ take n (h_bits h)" "n \<le> h_bits_left h" "0 < n"
        using prefix_append_take [of "code_bits c" "path_bits ?s" "h_bits h"]
        by (auto simp: pending_def)
      have full: "prefix (code_bits c) ?full"
        using n by (simp add: residual_peek_bits [OF short] take_is_prefix)
      note ok = state_entry_ok [OF residual_peek_less, of h h]
      consider "unat (de_flags ?e) = 0" | "unat (de_flags ?e) = 1" | "unat (de_flags ?e) = 2"
        using fields_ok_flags [OF ok] by metis
      then show False
      proof cases
        case 1
        from fields_ok_need(3) [OF ok [unfolded 1] residual_peek_less]
        have "prefix (code_bits c) (path_bits (unat (de_next ?e)))" using full by simp
        then show False using no_code_in_state [OF u8_bound c'] by blast
      next
        case 2
        note acc = fields_ok_accept [OF ok [unfolded 2] residual_peek_less]
        have "prefix (code_bits (unat (de_sym ?e))) ?full"
          using acc(4) by (simp add: take_is_prefix)
        then have "c = unat (de_sym ?e)"
          using full c' u8_bound [of "de_sym ?e"] by (intro hcode.prefix_same) auto
        then have "length (take n (h_bits h)) = length (take (unat (de_bits ?e)) (nat_bits 4 ?p))"
          using n(1) acc(4) by simp
        then have "n = unat (de_bits ?e)" using n(2) acc(2) by simp
        then show False
          using stuck n short 2 by (simp add: residual_accepts_def HUFFMAN_DECODE_STRIDE_def flag_unat residual_entry_peek)
      next
        case 3
        from fields_ok_error [OF ok [unfolded 3] residual_peek_less]
        have "prefix (code_bits 256) ?full" by (auto simp: take_is_prefix)
        then have "c = 256" using full c' by (intro hcode.prefix_same) auto
        with c show False by simp
      qed
    qed
  qed
qed

lemma settled_not_accepting: "settled h \<Longrightarrow> \<not> residual_accepts h"
proof (cases "h_state h = 0")
  case True
  show ?thesis
  proof
    assume acc: "residual_accepts h"
    let ?e = "load_entry 0 (residual_peek h)"
    have flag: "unat (de_flags ?e) = 1"
      using acc True by (simp add: residual_accepts_def flag_unat residual_entry_peek)
    have "fields_ok 0 (residual_peek h) 1 (unat (de_sym ?e)) (unat (de_bits ?e)) (unat (de_next ?e))"
      using load_entry_ok [of 0 "residual_peek h"] residual_peek_less [of h] flag by simp
    from fields_ok_accept [OF this residual_peek_less]
    have "length (code_bits (unat (de_sym ?e))) \<le> 4" by simp
    then show False using length_code_bits [of "unat (de_sym ?e)"] u8_bound [of "de_sym ?e"] by simp
  qed
qed (simp add: settled_def)

lemma map_unat_inject: "map unat xs = map unat ys \<longleftrightarrow> (xs :: bytes) = ys"
  by (rule inj_map_eq_map) (auto intro: injI simp: word_unat_eq_iff)

lemma coded_unique:
  assumes "coded xs @ p = coded ys @ q" "hcode.no_code byte_symbols p" "hcode.no_code byte_symbols q"
  shows "xs = ys \<and> p = q"
proof -
  have "set (map unat bs) \<subseteq> byte_symbols" for bs :: bytes using u8_bound by auto
  with assms hcode.unique_tail [of byte_symbols "map unat xs" "map unat ys" p q]
  show ?thesis by (auto simp: coded_def map_unat_inject)
qed

lemma padding_no_code: "padding bs \<Longrightarrow> hcode.no_code byte_symbols bs"
  using ones_no_code [of "length bs"] by (auto simp: padding_def hcode.no_code_def)

lemma eos_not_padding:
  assumes "padding p"
  shows "coded xs @ p \<noteq> coded ys @ code_bits 256 @ r"
proof
  assume eq: "coded xs @ p = coded ys @ code_bits 256 @ r"
  have "hcode.no_code byte_symbols (code_bits 256 @ r)"
    unfolding hcode.no_code_def
  proof
    fix c :: nat
    assume "c \<in> byte_symbols"
    then show "\<not> prefix (code_bits c) (code_bits 256 @ r)"
      using hcode.prefix_same [of c 256 "code_bits 256 @ r"] by auto
  qed
  from coded_unique [OF eq padding_no_code [OF assms] this]
  have "p = code_bits 256 @ r" by simp
  then show False using assms by (simp add: padding_def code_bits_eos)
qed

lemma residual_accept_settled: "settled h \<Longrightarrow> residual_accept h = h"
  by (simp add: residual_accept.simps settled_not_accepting)

lemma finish_padding_iff:
  assumes "represents h bits" "settled h"
  shows "finish_padding (h_acc h) (h_bits_left h) (h_state h) = Inr () \<longleftrightarrow> padding (pending h)"
proof (cases "h_state h = 0")
  case True
  moreover have "h_bits_left h \<le> 7" using assms(2) by (simp add: settled_def)
  ultimately show ?thesis
    by (auto simp: finish_padding_def pending_def padding_h_bits) (simp add: padding_def h_bits_def)
next
  case False
  with assms(1) show ?thesis by (simp add: finish_padding_def represents_def)
qed

lemma huffman_decode_settles:
  "(\<exists>h. represents h (bytes_bits src) \<and> settled h \<and> huffman_decode src =
      bind_res (finish_padding (h_acc h) (h_bits_left h) (h_state h)) (\<lambda>_. Inr (h_result h)))
   \<or> (\<exists>e out r. huffman_decode src = Inl e \<and> bytes_bits src = coded out @ code_bits 256 @ r)"
proof -
  let ?h0 = "\<lparr>h_acc = 0, h_bits_left = 0, h_state = 0, h_result = []\<rparr>"
  have h0: "represents ?h0 []" "settled ?h0"
    by (simp_all add: represents_def settled_def pending_def h_bits_def)
  note spec = huffman_decode_loop_spec [OF h0, of src, simplified]
  show ?thesis
  proof (cases "huffman_decode_loop src ?h0")
    case (Inl e)
    with spec show ?thesis by (auto simp: huffman_decode_def)
  next
    case (Inr h)
    with spec have rep: "represents h (bytes_bits src)" by simp
    show ?thesis
    proof (cases "drain_lut h")
      case (Inl e)
      with drain_lut_spec [OF rep] Inr show ?thesis by (auto simp: huffman_decode_def)
    next
      case (Inr h')
      with drain_lut_spec [OF rep] have "represents h' (bytes_bits src)" "settled h'" by simp_all
      with \<open>huffman_decode_loop src ?h0 = Inr h\<close> Inr show ?thesis
        by (intro disjI1 exI [of _ h']) (simp add: huffman_decode_def residual_accept_settled Let_def)
    qed
  qed
qed

lemma huffman_decode_accepts:
  "huffman_decode src = Inr out \<longleftrightarrow> (\<exists>p. padding p \<and> bytes_bits src = coded out @ p)"
  using huffman_decode_settles [of src]
proof (elim disjE exE conjE)
  fix h
  assume rep: "represents h (bytes_bits src)" and set: "settled h"
    and eq: "huffman_decode src =
      bind_res (finish_padding (h_acc h) (h_bits_left h) (h_state h)) (\<lambda>_. Inr (h_result h))"
  have bits: "bytes_bits src = coded (h_result h) @ pending h" using rep by (simp add: represents_def)
  have "huffman_decode src = Inr out \<longleftrightarrow> padding (pending h) \<and> h_result h = out"
    using finish_padding_iff [OF rep set] by (auto simp: eq)
  also have "\<dots> \<longleftrightarrow> (\<exists>p. padding p \<and> bytes_bits src = coded out @ p)"
    using coded_unique [of "h_result h" "pending h" out] settled_no_code [OF set] padding_no_code bits
    by auto
  finally show ?thesis .
next
  fix e ys r
  assume "huffman_decode src = Inl e" "bytes_bits src = coded ys @ code_bits 256 @ r"
  moreover from this(2) have "\<nexists>p. padding p \<and> bytes_bits src = coded out @ p"
    using eos_not_padding by fastforce
  ultimately show ?thesis by simp
qed

section \<open>What the encoder emits\<close>

lemma HUFFMAN_ENCODE_TABLE_entry:
  assumes "HUFFMAN_ENCODE_TABLE ! unat (byte :: u8) = (code, len)"
  shows "unat len \<le> 30" and "unat code < 2 ^ unat len"
    and "nat_bits (unat len) (unat code) = code_bits (unat byte)"
proof -
  have sc: "symbol_code (unat byte) = (unat code, unat len)"
    by (simp add: symbol_code_def assms)
  with symbol_code_ok [of "unat byte"] u8_bound [of byte]
  show "unat len \<le> 30" "unat code < 2 ^ unat len" by simp_all
  show "nat_bits (unat len) (unat code) = code_bits (unat byte)"
    by (simp add: code_bits_def sc)
qed

lemma flush_byte_bits:
  assumes "8 \<le> bits" "bits \<le> 64"
  shows "word_bits bits (w :: u64) = word_bits 8 (ucast (drop_bit (bits - 8) w) :: u8) @ word_bits (bits - 8) w"
proof -
  have "word_bits (8 + (bits - 8)) w = word_bits 8 (drop_bit (bits - 8) w) @ word_bits (bits - 8) w"
    by (rule word_bits_split) (auto simp: bit_drop_bit_eq add.commute)
  moreover have "word_bits 8 (ucast (drop_bit (bits - 8) w) :: u8) = word_bits 8 (drop_bit (bits - 8) w)"
    by (simp add: word_bits_bit bit_ucast_iff cong: map_cong)
  ultimately show ?thesis using assms(1) by simp
qed

lemma huffman_flush_spec:
  assumes "bits \<le> 64"
  shows "\<exists>emitted. huffman_flush w bits result = (bits mod 8, result @ emitted)
    \<and> word_bits bits w = bytes_bits emitted @ word_bits (bits mod 8) w"
  using assms
proof (induction w bits result rule: huffman_flush.induct)
  case (1 w bits result)
  show ?case
  proof (cases "8 \<le> bits")
    case True
    let ?b = "ucast (drop_bit (bits - 8) w) :: u8"
    obtain em where em: "huffman_flush w (bits - 8) (result @ [?b]) = ((bits - 8) mod 8, (result @ [?b]) @ em)"
      "word_bits (bits - 8) w = bytes_bits em @ word_bits ((bits - 8) mod 8) w"
      using "1.IH" [OF True diff_le_self [THEN order.trans, OF "1.prems"]] by auto
    have m: "(bits - 8) mod 8 = bits mod 8" using True by (simp add: le_mod_geq)
    show ?thesis
      using True em flush_byte_bits [OF True "1.prems", of w]
      by (intro exI [of _ "?b # em"]) (simp add: huffman_flush.simps [of w bits] m)
  next
    case False
    then show ?thesis by (simp add: huffman_flush.simps [of w bits])
  qed
qed

lemma shift_in_code:
  assumes "HUFFMAN_ENCODE_TABLE ! unat (byte :: u8) = (code, len)" "bits \<le> 7"
  shows "word_bits (bits + unat len) (push_bit (unat len) current OR ucast code :: u64) =
    word_bits bits current @ code_bits (unat byte)"
proof -
  note entry = HUFFMAN_ENCODE_TABLE_entry [OF assms(1)]
  have uc: "unat (ucast code :: u64) = unat code"
    using unsigned_less [of code, where 'a = nat] by (simp add: unsigned_ucast_eq take_bit_nat_eq_self)
  have "i < unat len" if "bit (ucast code :: u64) i" for i
  proof -
    have "bit (unat code) i" using that by (simp add: uc [symmetric] bit_unsigned_iff)
    then have "bit (take_bit (unat len) (unat code)) i" using entry(2) by (simp add: take_bit_nat_eq_self)
    then show ?thesis by (simp add: bit_take_bit_iff)
  qed
  then have "word_bits (bits + unat len) (push_bit (unat len) current OR ucast code :: u64) =
      word_bits bits current @ word_bits (unat len) (ucast code :: u64)"
    using assms(2) entry(1) by (intro word_bits_shift_in) auto
  then show ?thesis using entry(3) by (simp add: word_bits_def uc)
qed

lemma huffman_encode_loop_spec:
  assumes "bits \<le> 7"
  shows "\<exists>current' bits' emitted. huffman_encode_loop src current bits result = (current', bits', result @ emitted)
    \<and> bits' \<le> 7 \<and> word_bits bits current @ coded src = bytes_bits emitted @ word_bits bits' current'"
  using assms
proof (induction src arbitrary: current bits result)
  case (Cons byte src)
  obtain code len where tab: "HUFFMAN_ENCODE_TABLE ! unat byte = (code, len)" by force
  let ?cur = "push_bit (unat len) current OR ucast code :: u64"
  let ?n = "bits + unat len"
  have "?n \<le> 64" using HUFFMAN_ENCODE_TABLE_entry(1) [OF tab] Cons.prems by simp
  then obtain em where em: "huffman_flush ?cur ?n result = (?n mod 8, result @ em)"
    "word_bits ?n ?cur = bytes_bits em @ word_bits (?n mod 8) ?cur"
    using huffman_flush_spec by blast
  have m7: "?n mod 8 \<le> 7" by simp
  from Cons.IH [OF m7, of ?cur "result @ em"]
  obtain cur' bits' em' where IH: "huffman_encode_loop src ?cur (?n mod 8) (result @ em) =
      (cur', bits', (result @ em) @ em')" "bits' \<le> 7"
      "word_bits (?n mod 8) ?cur @ coded src = bytes_bits em' @ word_bits bits' cur'"
    by blast
  have "word_bits bits current @ coded (byte # src) = word_bits ?n ?cur @ coded src"
    by (simp add: shift_in_code [OF tab Cons.prems])
  also have "\<dots> = bytes_bits (em @ em') @ word_bits bits' cur'"
    by (simp add: em(2) IH(3))
  finally show ?case
    using IH by (intro exI [of _ cur'] exI [of _ bits'] exI [of _ "em @ em'"]) (simp add: tab em(1))
qed simp

lemma pad_byte_bits:
  assumes "0 < bits" "bits \<le> 7"
  shows "word_bits 8 (ucast (push_bit (8 - bits) current OR (push_bit (8 - bits) 1 - 1) :: u64) :: u8) =
    word_bits bits current @ replicate (8 - bits) True"
proof -
  let ?w = "push_bit (8 - bits) current OR mask (8 - bits) :: u64"
  have "word_bits (bits + (8 - bits)) ?w = word_bits bits current @ word_bits (8 - bits) (mask (8 - bits) :: u64)"
    using assms by (intro word_bits_shift_in) (auto simp: bit_mask_iff)
  moreover have "word_bits (8 - bits) (mask (8 - bits) :: u64) = replicate (8 - bits) True"
    unfolding word_bits_all_ones_iff by (auto simp: bit_mask_iff)
  moreover have "word_bits 8 (ucast ?w :: u8) = word_bits 8 ?w"
    by (simp add: word_bits_bit bit_ucast_iff cong: map_cong)
  ultimately show ?thesis using assms by (simp add: minus_one_mask del: push_bit_of_1)
qed

lemma huffman_encode_bits: "\<exists>k \<le> 7. bytes_bits (huffman_encode src) = coded src @ replicate k True"
proof -
  obtain cur bits em where loop: "huffman_encode_loop src 0 0 [] = (cur, bits, em)" "bits \<le> 7"
    "coded src = bytes_bits em @ word_bits bits cur"
    using huffman_encode_loop_spec [of 0 src 0 "[]"] by auto
  show ?thesis
  proof (cases "bits = 0")
    case True
    with loop show ?thesis by (intro exI [of _ 0]) (simp add: huffman_encode_def)
  next
    case False
    with loop show ?thesis
      by (intro exI [of _ "8 - bits"]) (simp add: huffman_encode_def pad_byte_bits Let_def del: push_bit_of_1)
  qed
qed

lemma length_bytes_bits [simp]: "length (bytes_bits bs) = 8 * length bs"
  by (induction bs) simp_all

lemma word_bits_8_inject: "word_bits 8 v = word_bits 8 w \<longleftrightarrow> (v :: u8) = w"
  using nat_bits_inject [of "unat v" 8 "unat w"] u8_bound [of v] u8_bound [of w]
  by (auto simp: word_bits_def word_unat_eq_iff)

lemma bytes_bits_inject: "bytes_bits xs = bytes_bits ys \<Longrightarrow> xs = ys"
proof (induction xs arbitrary: ys)
  case (Cons x xs)
  then show ?case by (cases ys) (auto simp: word_bits_8_inject dest: arg_cong [of _ _ length])
qed (auto dest: arg_cong [of _ _ length])

lemma huffman_decode_iff: "huffman_decode src = Inr out \<longleftrightarrow> src = huffman_encode out"
proof -
  obtain k where k: "k \<le> 7" "bytes_bits (huffman_encode out) = coded out @ replicate k True"
    using huffman_encode_bits by blast
  have pad_iff: "padding p \<longleftrightarrow> (\<exists>j \<le> 7. p = replicate j True)" for p
    by (auto simp: padding_def)
  have "src = huffman_encode out" if j: "j \<le> 7" "bytes_bits src = coded out @ replicate j True" for j
  proof -
    have "length (bytes_bits src) = length (coded out) + j" "length (bytes_bits (huffman_encode out)) = length (coded out) + k"
      using j k by simp_all
    then have "8 * length src + k = 8 * length (huffman_encode out) + j" by simp
    then have "j = k" using j(1) k(1) by presburger
    with j k show ?thesis by (intro bytes_bits_inject) simp
  qed
  with k show ?thesis by (auto simp: huffman_decode_accepts pad_iff)
qed

lemma huffman_encoded_len_eq: "huffman_encoded_len src = length (huffman_encode src)"
proof -
  have len: "unat (snd (HUFFMAN_ENCODE_TABLE ! unat (b :: u8))) = length (code_bits (unat b))" for b
    by (cases "HUFFMAN_ENCODE_TABLE ! unat b") (simp add: code_bits_def symbol_code_def)
  have "fold (\<lambda>b n. n + unat (snd (HUFFMAN_ENCODE_TABLE ! unat b))) src n = n + length (coded src)" for n
    by (induction src arbitrary: n) (simp_all add: len)
  then have "huffman_encoded_len src = (length (coded src) + 7) div 8"
    by (simp add: huffman_encoded_len_def)
  moreover obtain k where k: "k \<le> 7" "bytes_bits (huffman_encode src) = coded src @ replicate k True"
    using huffman_encode_bits by blast
  from arg_cong [OF k(2), of length] have "8 * length (huffman_encode src) = length (coded src) + k"
    by simp
  with k(1) have "(length (coded src) + 7) div 8 = length (huffman_encode src)"
    by (intro div_nat_eqI) simp_all
  ultimately show ?thesis by simp
qed

section \<open>Properties\<close>

text \<open>C8: The table-driven Huffman decoder accepts exactly the byte strings the encoder emits and
  returns what was encoded.  So decoding inverts encoding for every input, and every invalid
  terminal (a truncated code, padding that is not ones, eight or more bits of padding, an
  embedded end-of-string symbol) is rejected, in every position of the four-bit automaton.\<close>

theorem huffman_decode_exact: "huffman_decode src = Inr out \<longleftrightarrow> src = huffman_encode out"
  by (rule huffman_decode_iff)

end
