(* ===== verification/Hpack_Codec.thy ===== *)
theory Hpack_Codec
  imports Huffman
begin

text \<open>
  The HPACK header block encoder and decoder (src/src/http2/hpack/encoder.rs and
  src/src/http2/hpack/decoder.rs).  Both ends keep a dynamic table; the main result is that a
  decoder synchronised with an encoder returns the header list the encoder was given and stays
  synchronised, also across table size changes.

  The Rust functions advance a position in a shared buffer; here each takes the bytes from
  its position on and returns how many of them it consumed.
\<close>

section \<open>Encoder\<close>

record hpack_encoder =
  he_dynamic_table :: dynamic_table
  he_use_huffman :: bool
  he_pending_table_size_update :: "nat option"

definition hpack_encoder_new :: "nat \<Rightarrow> hpack_encoder" where
  "hpack_encoder_new max_table_size =
    \<lparr>he_dynamic_table = dynamic_table_new max_table_size,
     he_use_huffman = True,
     he_pending_table_size_update = None\<rparr>"

definition set_huffman :: "bool \<Rightarrow> hpack_encoder \<Rightarrow> hpack_encoder" where
  "set_huffman enabled e = e\<lparr>he_use_huffman := enabled\<rparr>"

definition he_set_max_table_size :: "nat \<Rightarrow> hpack_encoder \<Rightarrow> hpack_encoder" where
  "he_set_max_table_size sz e =
    e\<lparr>he_pending_table_size_update := Some sz,
      he_dynamic_table := set_max_size sz (he_dynamic_table e)\<rparr>"

definition he_find_exact :: "hpack_encoder \<Rightarrow> bytes \<Rightarrow> bytes \<Rightarrow> nat option" where
  "he_find_exact e name val =
    (case static_find_exact name val of
       Some index \<Rightarrow> Some index
     | None \<Rightarrow>
        (case dynamic_find_exact (he_dynamic_table e) name val of
           Some index \<Rightarrow> Some (STATIC_SIZE + index)
         | None \<Rightarrow> None))"

definition he_find_name :: "hpack_encoder \<Rightarrow> bytes \<Rightarrow> nat option" where
  "he_find_name e name =
    (case static_find_name name of
       Some index \<Rightarrow> Some index
     | None \<Rightarrow>
        (case dynamic_find_name (he_dynamic_table e) name of
           Some index \<Rightarrow> Some (STATIC_SIZE + index)
         | None \<Rightarrow> None))"

definition encode_indexed :: "bytes \<Rightarrow> nat \<Rightarrow> bytes" where
  "encode_indexed buf index = encode_integer buf index 7 0x80"

definition encode_string :: "bool \<Rightarrow> bytes \<Rightarrow> bytes \<Rightarrow> bytes" where
  "encode_string use_huffman buf s =
    (let huffman_len = huffman_encoded_len s
     in if use_huffman \<and> huffman_len < length s
        then encode_integer buf huffman_len 7 0x80 @ huffman_encode s
        else encode_integer buf (length s) 7 0x00 @ s)"

definition encode_literal_indexed :: "hpack_encoder \<Rightarrow> bytes \<Rightarrow> nat option \<Rightarrow> bytes \<Rightarrow> bytes \<Rightarrow> bytes" where
  "encode_literal_indexed e buf name_index name val =
    (let buf =
       (case name_index of
          Some index \<Rightarrow> encode_integer buf index 6 0x40
        | None \<Rightarrow> encode_string (he_use_huffman e) (buf @ [0x40]) name)
     in encode_string (he_use_huffman e) buf val)"

definition encode_never_indexed :: "hpack_encoder \<Rightarrow> bytes \<Rightarrow> bytes \<Rightarrow> bytes \<Rightarrow> bytes" where
  "encode_never_indexed e buf name val =
    (let buf =
       (case he_find_name e name of
          Some index \<Rightarrow> encode_integer buf index 4 0x10
        | None \<Rightarrow> encode_string (he_use_huffman e) (buf @ [0x10]) name)
     in encode_string (he_use_huffman e) buf val)"

definition encode_table_size_update :: "bytes \<Rightarrow> nat \<Rightarrow> bytes" where
  "encode_table_size_update buf sz = encode_integer buf sz 5 0x20"

definition encode_header :: "hpack_encoder \<Rightarrow> bytes \<Rightarrow> bytes \<Rightarrow> bytes \<Rightarrow> hpack_encoder \<times> bytes" where
  "encode_header e buf name val =
    (case he_find_exact e name val of
       Some index \<Rightarrow> (e, encode_indexed buf index)
     | None \<Rightarrow>
        let buf = encode_literal_indexed e buf (he_find_name e name) name val
        in (e\<lparr>he_dynamic_table := dynamic_insert name val (he_dynamic_table e)\<rparr>, buf))"

fun hpack_encode_loop :: "hpack_encoder \<Rightarrow> bytes \<Rightarrow> (bytes \<times> bytes \<times> bool) list \<Rightarrow> hpack_encoder \<times> bytes" where
  "hpack_encode_loop e buf [] = (e, buf)"
| "hpack_encode_loop e buf ((name, val, sensitive) # hs) =
    (if sensitive then hpack_encode_loop e (encode_never_indexed e buf name val) hs
     else let (e, buf) = encode_header e buf name val in hpack_encode_loop e buf hs)"

definition hpack_encode :: "hpack_encoder \<Rightarrow> (bytes \<times> bytes \<times> bool) list \<Rightarrow> hpack_encoder \<times> bytes" where
  "hpack_encode e headers =
    (let buf =
       (case he_pending_table_size_update e of
          Some sz \<Rightarrow> encode_table_size_update [] sz
        | None \<Rightarrow> [])
     in hpack_encode_loop (e\<lparr>he_pending_table_size_update := None\<rparr>) buf headers)"

section \<open>Decoder\<close>

record hpack_decoder =
  hd_dynamic_table :: dynamic_table
  hd_max_header_list_size :: nat
  hd_max_allowed_table_size :: nat

definition hpack_decoder_new :: "nat \<Rightarrow> hpack_decoder" where
  "hpack_decoder_new max_table_size =
    \<lparr>hd_dynamic_table = dynamic_table_new max_table_size,
     hd_max_header_list_size = 16384,
     hd_max_allowed_table_size = max_table_size\<rparr>"

definition hd_set_max_header_list_size :: "nat \<Rightarrow> hpack_decoder \<Rightarrow> hpack_decoder" where
  "hd_set_max_header_list_size sz d = d\<lparr>hd_max_header_list_size := sz\<rparr>"

definition hd_set_max_table_size :: "nat \<Rightarrow> hpack_decoder \<Rightarrow> hpack_decoder" where
  "hd_set_max_table_size sz d =
    d\<lparr>hd_max_allowed_table_size := sz, hd_dynamic_table := set_max_size sz (hd_dynamic_table d)\<rparr>"

definition decode_string :: "bytes \<Rightarrow> (bytes \<times> nat) hpack_result" where
  "decode_string buf =
    (case buf of
       [] \<Rightarrow> Inl BufferTooShort
     | b0 # _ \<Rightarrow>
        let huffman = b0 AND 0x80 \<noteq> 0
        in bind_res (decode_integer buf 7) (\<lambda>(len, consumed).
           if consumed + len > length buf then Inl BufferTooShort
           else
             let string_data = take len (drop consumed buf)
             in if huffman
                then bind_res (huffman_decode string_data) (\<lambda>s. Inr (s, consumed + len))
                else Inr (string_data, consumed + len)))"

definition get_indexed_or :: "dynamic_table \<Rightarrow> nat \<Rightarrow> (bytes \<times> bytes) hpack_result" where
  "get_indexed_or t index =
    (case get_indexed t index of None \<Rightarrow> Inl (InvalidIndex index) | Some nv \<Rightarrow> Inr nv)"

definition decode_indexed :: "dynamic_table \<Rightarrow> bytes \<Rightarrow> (header_field \<times> nat) hpack_result" where
  "decode_indexed t buf =
    bind_res (decode_integer buf 7) (\<lambda>(index, consumed).
    if index = 0 then Inl (InvalidIndex 0)
    else bind_res (get_indexed_or t index) (\<lambda>(name, val). Inr (header_field_new name val, consumed)))"

text \<open>The common part of the literal representations: an indexed or literal name and a value.\<close>

definition decode_literal_fields ::
    "dynamic_table \<Rightarrow> nat \<Rightarrow> bytes \<Rightarrow> (bytes \<times> bytes \<times> nat) hpack_result" where
  "decode_literal_fields t prefix_bits buf =
    bind_res (decode_integer buf prefix_bits) (\<lambda>(index, consumed).
    bind_res
      (if index > 0 then bind_res (get_indexed_or t index) (\<lambda>(name, _). Inr (name, consumed))
       else bind_res (decode_string (drop consumed buf)) (\<lambda>(name, name_pos). Inr (name, consumed + name_pos)))
      (\<lambda>(name, local_pos).
    bind_res (decode_string (drop local_pos buf)) (\<lambda>(val, value_pos).
    Inr (name, val, local_pos + value_pos))))"

definition decode_literal_indexed ::
    "dynamic_table \<Rightarrow> bytes \<Rightarrow> (dynamic_table \<times> header_field \<times> nat) hpack_result" where
  "decode_literal_indexed t buf =
    bind_res (decode_literal_fields t 6 buf) (\<lambda>(name, val, local_pos).
    Inr (dynamic_insert name val t, header_field_new name val, local_pos))"

definition decode_literal_without_indexing :: "dynamic_table \<Rightarrow> bytes \<Rightarrow> (header_field \<times> nat) hpack_result" where
  "decode_literal_without_indexing t buf =
    bind_res (decode_literal_fields t 4 buf) (\<lambda>(name, val, local_pos).
    Inr (header_field_new name val, local_pos))"

definition decode_literal_never_indexed :: "dynamic_table \<Rightarrow> bytes \<Rightarrow> (header_field \<times> nat) hpack_result" where
  "decode_literal_never_indexed t buf = decode_literal_without_indexing t buf"

definition decode_table_size_update :: "hpack_decoder \<Rightarrow> bytes \<Rightarrow> (hpack_decoder \<times> nat) hpack_result" where
  "decode_table_size_update d buf =
    bind_res (decode_integer buf 5) (\<lambda>(sz, consumed).
    if sz > hd_max_allowed_table_size d then Inl TableSizeExceeded
    else Inr (d\<lparr>hd_dynamic_table := set_max_size sz (hd_dynamic_table d)\<rparr>, consumed))"

text \<open>
  One representation: the field it denotes, if it denotes one, the decoder after it and the
  bytes consumed.
\<close>

definition decode_representation ::
    "hpack_decoder \<Rightarrow> bool \<Rightarrow> u8 \<Rightarrow> bytes \<Rightarrow> (hpack_decoder \<times> header_field option \<times> nat) hpack_result" where
  "decode_representation d seen_header first_byte buf =
    (if first_byte AND 0x80 \<noteq> 0 then
       bind_res (decode_indexed (hd_dynamic_table d) buf) (\<lambda>(f, n). Inr (d, Some f, n))
     else if first_byte AND 0x40 \<noteq> 0 then
       bind_res (decode_literal_indexed (hd_dynamic_table d) buf) (\<lambda>(t, f, n).
       Inr (d\<lparr>hd_dynamic_table := t\<rparr>, Some f, n))
     else if first_byte AND 0x20 \<noteq> 0 then
       if seen_header then Inl TableSizeUpdateAfterHeader
       else bind_res (decode_table_size_update d buf) (\<lambda>(d, n). Inr (d, None, n))
     else if first_byte AND 0x10 \<noteq> 0 then
       bind_res (decode_literal_never_indexed (hd_dynamic_table d) buf) (\<lambda>(f, n). Inr (d, Some f, n))
     else
       bind_res (decode_literal_without_indexing (hd_dynamic_table d) buf) (\<lambda>(f, n). Inr (d, Some f, n)))"

section \<open>Progress\<close>

lemma decode_integer_span: "decode_integer buf p = Inr (v, n) \<Longrightarrow> 1 \<le> n \<and> n \<le> length buf"
  using decode_integer_bounds by blast

lemma decode_string_span: "decode_string buf = Inr (s, n) \<Longrightarrow> 1 \<le> n \<and> n \<le> length buf"
  by (auto simp: decode_string_def Let_def dest!: decode_integer_span split: list.splits if_splits)

lemma decode_literal_fields_span:
  "decode_literal_fields t p buf = Inr (name, val, n) \<Longrightarrow> 1 \<le> n \<and> n \<le> length buf"
  by (auto simp: decode_literal_fields_def dest!: decode_integer_span decode_string_span split: if_splits)

lemma decode_representation_span:
  "decode_representation d seen b buf = Inr (d', f, n) \<Longrightarrow> 1 \<le> n \<and> n \<le> length buf"
  by (auto simp: decode_representation_def decode_indexed_def decode_literal_indexed_def
      decode_literal_never_indexed_def decode_literal_without_indexing_def decode_table_size_update_def
      dest!: decode_integer_span decode_literal_fields_span split: if_splits)

text \<open>
  The loop over a header block.  On an error the decoder keeps the table changes of the
  representations before it, as the mutable Rust decoder does.
\<close>

function hpack_decode_loop ::
    "hpack_decoder \<Rightarrow> bool \<Rightarrow> nat \<Rightarrow> header_field list \<Rightarrow> bytes
      \<Rightarrow> hpack_decoder \<times> header_field list hpack_result" where
  "hpack_decode_loop d seen_header total_sz headers buf =
    (case buf of
       [] \<Rightarrow> (d, Inr headers)
     | first_byte # _ \<Rightarrow>
        (case decode_representation d seen_header first_byte buf of
           Inl e \<Rightarrow> (d, Inl e)
         | Inr (d', None, n) \<Rightarrow> hpack_decode_loop d' seen_header total_sz headers (drop n buf)
         | Inr (d', Some field, n) \<Rightarrow>
             if total_sz + header_field_size field > hd_max_header_list_size d'
             then (d', Inl TableSizeExceeded)
             else hpack_decode_loop d' True (total_sz + header_field_size field) (headers @ [field]) (drop n buf)))"
  by pat_completeness auto
termination
  by (relation "measure (\<lambda>(_, _, _, _, buf). length buf)") (auto dest!: decode_representation_span)

declare hpack_decode_loop.simps [simp del]

definition hpack_decode :: "hpack_decoder \<Rightarrow> bytes \<Rightarrow> hpack_decoder \<times> header_field list hpack_result" where
  "hpack_decode d buf = hpack_decode_loop d False 0 [] buf"

definition decode_headers_simple :: "bytes \<Rightarrow> header_field list hpack_result" where
  "decode_headers_simple buf = snd (hpack_decode (hpack_decoder_new 0) buf)"

section \<open>Strings as an interface\<close>

text \<open>
  What the literal representations rely on: a string code whose decoder reads back a string
  that fits and reports the length of its encoding, whatever follows it.
\<close>

locale string_codec =
  fixes enc :: "bytes \<Rightarrow> bytes"
    and dec :: "bytes \<Rightarrow> (bytes \<times> nat) hpack_result"
    and fits :: "bytes \<Rightarrow> bool"
  assumes dec_enc: "fits s \<Longrightarrow> dec (enc s @ rest) = Inr (s, length (enc s))"
begin

lemma dec_two:
  assumes "fits s" "fits u"
  shows "bind_res (dec (enc s @ enc u @ rest)) (\<lambda>(a, i).
      bind_res (dec (drop i (enc s @ enc u @ rest))) (\<lambda>(b, j). Inr (a, b, i + j))) =
    Inr (s, u, length (enc s) + length (enc u))"
  by (simp add: dec_enc assms)

lemma enc_inject: "fits s \<Longrightarrow> fits u \<Longrightarrow> enc s = enc u \<Longrightarrow> s = u"
  using dec_enc [of s "[]"] dec_enc [of u "[]"] by simp

end

lemma encode_integer_first:
  assumes "p \<le> 8"
  shows "\<exists>b t. encode_integer [] v p pre = b # t
    \<and> (\<forall>m. m AND prefix_mask p = 0 \<longrightarrow> b AND m = pre AND m)"
proof (cases "v < unat (prefix_mask p)")
  case True
  then have v: "(of_nat v :: u8) AND prefix_mask p = of_nat v"
    using unat_prefix_mask [OF assms] by (intro small_and_prefix_mask [OF assms]) linarith
  have "of_nat v AND m = 0" if "m AND prefix_mask p = 0" for m :: u8
  proof -
    have "of_nat v AND m = of_nat v AND (m AND prefix_mask p)"
      by (subst v [symmetric]) (simp add: and.assoc and.commute and.left_commute)
    with that show ?thesis by simp
  qed
  with True show ?thesis
    by (intro exI [of _ "pre OR of_nat v"] exI [of _ "[]"])
      (simp add: encode_integer_def Let_def bit.conj_disj_distrib2)
next
  case False
  have "prefix_mask p AND m = 0" if "m AND prefix_mask p = 0" for m
    using that by (simp add: and.commute)
  with False show ?thesis
    by (intro exI [of _ "pre OR prefix_mask p"] exI [of _ "encode_integer_rest (v - unat (prefix_mask p))"])
      (simp add: encode_integer_def Let_def bit.conj_disj_distrib2)
qed

lemma encode_string_append: "encode_string h buf s = buf @ encode_string h [] s"
  using encode_integer_append [of buf] by (simp add: encode_string_def Let_def)

lemma decode_string_raw:
  assumes "pre = 0 \<or> pre = 0x80" "length body < 2 ^ 35"
    and "if pre = 0 then s = body else huffman_decode body = Inr s"
  shows "decode_string (encode_integer [] (length body) 7 pre @ body @ rest) =
    Inr (s, length (encode_integer [] (length body) 7 pre) + length body)"
proof -
  let ?I = "encode_integer [] (length body) 7 pre"
  have m: "(0x80 :: u8) AND prefix_mask 7 = 0" by (simp add: prefix_mask_def)
  obtain b t where bt: "?I = b # t" "b AND 0x80 = pre AND 0x80"
    using encode_integer_first [of 7 "length body" pre] m by auto
  have "pre AND prefix_mask 7 = 0" using assms(1) m by auto
  then have "decode_integer (?I @ body @ rest) 7 = Inr (length body, length ?I)"
    using assms(2) by (intro decode_encode_integer) simp_all
  with bt assms(1,3) show ?thesis
    by (auto simp: decode_string_def Let_def)
qed

lemma decode_encode_string:
  assumes "length s < 2 ^ 35"
  shows "decode_string (encode_string h [] s @ rest) = Inr (s, length (encode_string h [] s))"
proof (cases "h \<and> huffman_encoded_len s < length s")
  case True
  have "huffman_decode (huffman_encode s) = Inr s" by (simp add: huffman_decode_iff)
  with True assms decode_string_raw [where pre = "0x80" and body = "huffman_encode s" and s = s and rest = rest] show ?thesis
    by (simp add: encode_string_def Let_def huffman_encoded_len_eq)
next
  case False
  with assms decode_string_raw [where pre = 0 and body = s and s = s and rest = rest] show ?thesis
    by (auto simp: encode_string_def Let_def)
qed

interpretation hstr: string_codec "encode_string h []" decode_string "\<lambda>s. length s < 2 ^ 35" for h
  by unfold_locales (rule decode_encode_string)

lemma decode_literal_indexed_name:
  assumes "p = 4 \<or> p = 6" "pre AND prefix_mask p = 0" "0 < i" "i < 2 ^ 35"
    and "get_indexed t i = Some (n, x)" "length v < 2 ^ 35"
  shows "decode_literal_fields t p (encode_integer [] i p pre @ encode_string h [] v @ rest) =
    Inr (n, v, length (encode_integer [] i p pre) + length (encode_string h [] v))"
proof -
  have "decode_integer (encode_integer [] i p pre @ encode_string h [] v @ rest) p =
      Inr (i, length (encode_integer [] i p pre))"
    using assms(1,2,4) by (intro decode_encode_integer) auto
  with assms show ?thesis
    by (simp add: decode_literal_fields_def get_indexed_or_def hstr.dec_enc)
qed

lemma decode_literal_literal_name:
  assumes "p = 4 \<or> p = 6" "pre AND prefix_mask p = 0" "length n < 2 ^ 35" "length v < 2 ^ 35"
  shows "decode_literal_fields t p (encode_integer [] 0 p pre @ encode_string h [] n @ encode_string h [] v @ rest) =
    Inr (n, v, length (encode_integer [] 0 p pre) + length (encode_string h [] n) + length (encode_string h [] v))"
proof -
  have "decode_integer (encode_integer [] 0 p pre @ encode_string h [] n @ encode_string h [] v @ rest) p =
      Inr (0, length (encode_integer [] 0 p pre))"
    using assms(1,2) by (intro decode_encode_integer) auto
  then show ?thesis
    using hstr.dec_two [of n v h rest] assms(3,4)
    by (simp add: decode_literal_fields_def hstr.dec_enc add.assoc)
qed

section \<open>Synchronised tables\<close>

text \<open>
  The encoder's table must be an initial part of the decoder's: every index the encoder emits
  then means the same to the decoder.  Equality of the tables is not needed, and it is not
  kept: a size change the encoder makes twice before the next block is announced only once,
  after which the decoder may still hold entries the encoder has dropped.
\<close>

definition tables_synced :: "dynamic_table \<Rightarrow> dynamic_table \<Rightarrow> bool" where
  "tables_synced te td \<longleftrightarrow> table_inv te \<and> table_inv td \<and> prefix (dt_entries te) (dt_entries td)
    \<and> dt_max_size te = dt_max_size td \<and> dt_max_size te < 2 ^ 32"

definition hpack_synced :: "hpack_encoder \<Rightarrow> hpack_decoder \<Rightarrow> bool" where
  "hpack_synced e d \<longleftrightarrow>
    (case he_pending_table_size_update e of
       None \<Rightarrow> tables_synced (he_dynamic_table e) (hd_dynamic_table d)
     | Some sz \<Rightarrow>
         table_inv (he_dynamic_table e) \<and> table_inv (hd_dynamic_table d)
         \<and> prefix (dt_entries (he_dynamic_table e)) (dt_entries (hd_dynamic_table d))
         \<and> sz = dt_max_size (he_dynamic_table e) \<and> sz < 2 ^ 32 \<and> sz \<le> hd_max_allowed_table_size d)"

lemma fit_prefix: "prefix xs ys \<Longrightarrow> prefix (fit m xs) (fit m ys)"
  by (induction xs arbitrary: ys m) (auto elim!: prefixE)

lemma fit_prefix_self: "prefix (fit m xs) xs"
  using fit_take [of m xs] take_is_prefix by metis

lemma tables_synced_insert:
  assumes "tables_synced te td"
  shows "tables_synced (dynamic_insert n v te) (dynamic_insert n v td)"
  using assms fit_prefix [of "header_field_new n v # dt_entries te" "header_field_new n v # dt_entries td"]
  by (auto simp: tables_synced_def dynamic_insert_entries simp del: fit.simps)

lemma prefix_dynamic_get:
  "prefix (dt_entries te) (dt_entries td) \<Longrightarrow> dynamic_get te i = Some f \<Longrightarrow> dynamic_get td i = Some f"
  by (auto simp: dynamic_get_def nth_append elim!: prefixE split: if_splits)

lemma tables_synced_get_indexed:
  "tables_synced te td \<Longrightarrow> get_indexed te i = Some nv \<Longrightarrow> get_indexed td i = Some nv"
  using prefix_dynamic_get [of te td "i - STATIC_SIZE"]
  by (auto simp: tables_synced_def get_indexed_def split: if_splits)

lemma get_indexed_bound:
  assumes "table_inv t" "dt_max_size t < 2 ^ 32" "get_indexed t i = Some nv"
  shows "0 < i" and "i < 2 ^ 35"
proof -
  have "32 * length (dt_entries t) \<le> dt_max_size t" using assms(1) by (rule dyn.entry_count)
  moreover have "1 \<le> i \<and> i \<le> STATIC_SIZE + length (dt_entries t)"
    using assms(3) get_indexed_Some_iff [of t i] by auto
  ultimately show "0 < i" "i < 2 ^ 35" using assms(2) by (simp_all add: STATIC_SIZE_def)
qed

lemma static_get_bound: "static_get i = Some nv \<Longrightarrow> 0 < i \<and> i \<le> STATIC_SIZE"
  by (simp add: static_get_def split: if_splits)

lemma he_find_exact_get:
  assumes "he_find_exact e n v = Some i"
  shows "get_indexed (he_dynamic_table e) i = Some (n, v)"
proof (cases "static_find_exact n v")
  case None
  with assms obtain j where "dynamic_find_exact (he_dynamic_table e) n v = Some j" "i = STATIC_SIZE + j"
    by (auto simp: he_find_exact_def split: option.splits)
  then show ?thesis
    using dynamic_find_pos(1) dynamic_find_exact_get by (fastforce simp: get_indexed_def)
next
  case (Some j)
  with assms have "static_get i = Some (n, v)"
    by (auto simp: he_find_exact_def dest: static_find_exact_get)
  then show ?thesis using static_get_bound by (auto simp: get_indexed_def)
qed

lemma he_find_name_get:
  assumes "he_find_name e n = Some i"
  shows "\<exists>v. get_indexed (he_dynamic_table e) i = Some (n, v)"
proof (cases "static_find_name n")
  case None
  with assms obtain j where "dynamic_find_name (he_dynamic_table e) n = Some j" "i = STATIC_SIZE + j"
    by (auto simp: he_find_name_def split: option.splits)
  then show ?thesis
    using dynamic_find_pos(2) dynamic_find_name_get by (fastforce simp: get_indexed_def)
next
  case (Some j)
  with assms obtain v where "static_get i = Some (n, v)"
    by (auto simp: he_find_name_def dest: static_find_name_get)
  then show ?thesis using static_get_bound by (auto simp: get_indexed_def)
qed

section \<open>One header field\<close>

definition decodes_to :: "hpack_decoder \<Rightarrow> bytes \<Rightarrow> hpack_decoder \<Rightarrow> header_field \<Rightarrow> bool" where
  "decodes_to d enc d' f \<longleftrightarrow> enc \<noteq> [] \<and>
    (\<forall>rest seen. decode_representation d seen (hd enc) (enc @ rest) = Inr (d', Some f, length enc))"

lemma integer_dispatch:
  assumes "p \<le> 8" and "\<forall>m \<in> M. m AND prefix_mask p = 0"
  shows "encode_integer [] v p pre \<noteq> []
    \<and> (\<forall>m \<in> M. hd (encode_integer [] v p pre) AND m = pre AND m)"
  using encode_integer_first [OF assms(1), of v pre] assms(2) by auto

lemma indexed_decodes:
  assumes "get_indexed (hd_dynamic_table d) i = Some (n, v)" "0 < i" "i < 2 ^ 35"
  shows "decodes_to d (encode_integer [] i 7 0x80) d (header_field_new n v)"
proof -
  let ?I = "encode_integer [] i 7 0x80"
  have hd: "?I \<noteq> []" "hd ?I AND 0x80 = 0x80"
    using integer_dispatch [of 7 "{0x80}" i "0x80"] by (simp_all add: prefix_mask_def)
  have "decode_integer (?I @ rest) 7 = Inr (i, length ?I)" for rest
    using assms(3) by (intro decode_encode_integer) (simp_all add: prefix_mask_def)
  with hd assms show ?thesis
    by (simp add: decodes_to_def decode_representation_def decode_indexed_def get_indexed_or_def)
qed

text \<open>The two literal forms, with the name by index or as a string.\<close>

definition literal_encoding :: "bool \<Rightarrow> nat \<Rightarrow> u8 \<Rightarrow> nat option \<Rightarrow> bytes \<Rightarrow> bytes \<Rightarrow> bytes" where
  "literal_encoding h p pre ix n v =
    (case ix of
       Some i \<Rightarrow> encode_integer [] i p pre @ encode_string h [] v
     | None \<Rightarrow> encode_integer [] 0 p pre @ encode_string h [] n @ encode_string h [] v)"

lemma literal_fields_decode:
  assumes "p = 4 \<or> p = 6" "pre AND prefix_mask p = 0" "length n < 2 ^ 35" "length v < 2 ^ 35"
    and "case ix of None \<Rightarrow> True | Some i \<Rightarrow> 0 < i \<and> i < 2 ^ 35 \<and> (\<exists>x. get_indexed t i = Some (n, x))"
  shows "decode_literal_fields t p (literal_encoding h p pre ix n v @ rest) =
    Inr (n, v, length (literal_encoding h p pre ix n v))"
proof (cases ix)
  case None
  then show ?thesis
    using decode_literal_literal_name [OF assms(1-4), of t h rest] by (simp add: literal_encoding_def)
next
  case (Some i)
  with assms(5) obtain x where "get_indexed t i = Some (n, x)" "0 < i" "i < 2 ^ 35" by auto
  then show ?thesis
    using decode_literal_indexed_name [OF assms(1,2) _ _ _ assms(4), of i t n x h rest] Some
    by (simp add: literal_encoding_def)
qed

lemma literal_encoding_first:
  assumes "p \<le> 8" and "\<forall>m \<in> M. m AND prefix_mask p = 0"
  shows "literal_encoding h p pre ix n v \<noteq> []
    \<and> (\<forall>m \<in> M. hd (literal_encoding h p pre ix n v) AND m = pre AND m)"
  using integer_dispatch [OF assms] by (auto simp: literal_encoding_def split: option.splits)

lemma literal_indexed_decodes:
  assumes "length n < 2 ^ 35" "length v < 2 ^ 35"
    and "case ix of None \<Rightarrow> True
      | Some i \<Rightarrow> 0 < i \<and> i < 2 ^ 35 \<and> (\<exists>x. get_indexed (hd_dynamic_table d) i = Some (n, x))"
  shows "decodes_to d (literal_encoding h 6 0x40 ix n v)
    (d\<lparr>hd_dynamic_table := dynamic_insert n v (hd_dynamic_table d)\<rparr>) (header_field_new n v)"
proof -
  have hd: "literal_encoding h 6 0x40 ix n v \<noteq> []"
    "hd (literal_encoding h 6 0x40 ix n v) AND 0x80 = 0"
    "hd (literal_encoding h 6 0x40 ix n v) AND 0x40 = 0x40"
    using literal_encoding_first [of 6 "{0x80, 0x40}" h "0x40" ix n v] by (simp_all add: prefix_mask_def)
  have "decode_literal_fields (hd_dynamic_table d) 6 (literal_encoding h 6 0x40 ix n v @ rest) =
      Inr (n, v, length (literal_encoding h 6 0x40 ix n v))" for rest
    using assms by (intro literal_fields_decode) (simp_all add: prefix_mask_def)
  with hd show ?thesis
    by (simp add: decodes_to_def decode_representation_def decode_literal_indexed_def)
qed

lemma never_indexed_decodes:
  assumes "length n < 2 ^ 35" "length v < 2 ^ 35"
    and "case ix of None \<Rightarrow> True
      | Some i \<Rightarrow> 0 < i \<and> i < 2 ^ 35 \<and> (\<exists>x. get_indexed (hd_dynamic_table d) i = Some (n, x))"
  shows "decodes_to d (literal_encoding h 4 0x10 ix n v) d (header_field_new n v)"
proof -
  have hd: "literal_encoding h 4 0x10 ix n v \<noteq> []"
    "hd (literal_encoding h 4 0x10 ix n v) AND 0x80 = 0"
    "hd (literal_encoding h 4 0x10 ix n v) AND 0x40 = 0"
    "hd (literal_encoding h 4 0x10 ix n v) AND 0x20 = 0"
    "hd (literal_encoding h 4 0x10 ix n v) AND 0x10 = 0x10"
    using literal_encoding_first [of 4 "{0x80, 0x40, 0x20, 0x10}" h "0x10" ix n v] by (simp_all add: prefix_mask_def)
  have "decode_literal_fields (hd_dynamic_table d) 4 (literal_encoding h 4 0x10 ix n v @ rest) =
      Inr (n, v, length (literal_encoding h 4 0x10 ix n v))" for rest
    using assms by (intro literal_fields_decode) (simp_all add: prefix_mask_def)
  with hd show ?thesis
    by (simp add: decodes_to_def decode_representation_def decode_literal_never_indexed_def
        decode_literal_without_indexing_def)
qed

lemma encode_integer_zero: "encode_integer [] 0 6 0x40 = [0x40]" "encode_integer [] 0 4 0x10 = [0x10]"
  by (simp_all add: encode_integer_def prefix_mask_def)

lemma encode_literal_eq:
  "encode_string h (case ix of Some i \<Rightarrow> encode_integer buf i p pre | None \<Rightarrow> encode_string h (buf @ encode_integer [] 0 p pre) n) v
    = buf @ literal_encoding h p pre ix n v"
proof (cases ix)
  case None
  then show ?thesis
    by (simp add: literal_encoding_def encode_string_append [of h "buf @ encode_integer [] 0 p pre"]
        encode_string_append [of h "buf @ encode_integer [] 0 p pre @ encode_string h [] n"])
next
  case (Some i)
  have "encode_integer buf i p pre = buf @ encode_integer [] i p pre" by (rule encode_integer_append)
  then show ?thesis
    by (simp add: Some literal_encoding_def encode_string_append [of h "buf @ encode_integer [] i p pre"])
qed

lemma encode_literal_indexed_eq:
  "encode_literal_indexed e buf ix n v = buf @ literal_encoding (he_use_huffman e) 6 0x40 ix n v"
  unfolding encode_literal_eq [symmetric] encode_literal_indexed_def encode_integer_zero Let_def ..

lemma encode_never_indexed_eq:
  "encode_never_indexed e buf n v = buf @ literal_encoding (he_use_huffman e) 4 0x10 (he_find_name e n) n v"
  unfolding encode_literal_eq [symmetric] encode_never_indexed_def encode_integer_zero Let_def ..

section \<open>A header block\<close>

definition header_fits :: "bytes \<times> bytes \<times> bool \<Rightarrow> bool" where
  "header_fits = (\<lambda>(n, v, _). length n < 2 ^ 35 \<and> length v < 2 ^ 35)"

definition header_of :: "bytes \<times> bytes \<times> bool \<Rightarrow> header_field" where
  "header_of = (\<lambda>(n, v, _). header_field_new n v)"

lemma synced_name_index:
  assumes "tables_synced (he_dynamic_table e) (hd_dynamic_table d)"
  shows "case he_find_name e n of None \<Rightarrow> True
    | Some i \<Rightarrow> 0 < i \<and> i < 2 ^ 35 \<and> (\<exists>x. get_indexed (hd_dynamic_table d) i = Some (n, x))"
proof (cases "he_find_name e n")
  case (Some i)
  then obtain x where x: "get_indexed (he_dynamic_table e) i = Some (n, x)"
    using he_find_name_get by blast
  from assms get_indexed_bound [OF _ _ x] have "0 < i" "i < 2 ^ 35"
    by (simp_all add: tables_synced_def)
  with tables_synced_get_indexed [OF assms x] show ?thesis by (simp add: Some)
qed simp

lemma encode_header_decodes:
  assumes sync: "tables_synced (he_dynamic_table e) (hd_dynamic_table d)"
    and len: "length n < 2 ^ 35" "length v < 2 ^ 35"
    and enc: "encode_header e buf n v = (e', buf')"
  shows "\<exists>code d'. buf' = buf @ code \<and> decodes_to d code d' (header_field_new n v)
    \<and> tables_synced (he_dynamic_table e') (hd_dynamic_table d')
    \<and> he_pending_table_size_update e' = he_pending_table_size_update e
    \<and> hd_max_header_list_size d' = hd_max_header_list_size d
    \<and> hd_max_allowed_table_size d' = hd_max_allowed_table_size d"
proof (cases "he_find_exact e n v")
  case None
  let ?c = "literal_encoding (he_use_huffman e) 6 0x40 (he_find_name e n) n v"
  have "decodes_to d ?c (d\<lparr>hd_dynamic_table := dynamic_insert n v (hd_dynamic_table d)\<rparr>) (header_field_new n v)"
    using len synced_name_index [OF sync] by (rule literal_indexed_decodes)
  moreover have "e' = e\<lparr>he_dynamic_table := dynamic_insert n v (he_dynamic_table e)\<rparr>" "buf' = buf @ ?c"
    using enc None by (simp_all add: encode_header_def encode_literal_indexed_eq Let_def)
  ultimately show ?thesis using tables_synced_insert [OF sync, of n v] by fastforce
next
  case (Some i)
  have get: "get_indexed (he_dynamic_table e) i = Some (n, v)" using Some by (rule he_find_exact_get)
  have "decodes_to d (encode_integer [] i 7 0x80) d (header_field_new n v)"
    using get_indexed_bound [OF _ _ get] tables_synced_get_indexed [OF sync get] sync
    by (intro indexed_decodes) (simp_all add: tables_synced_def)
  moreover have "e' = e" "buf' = buf @ encode_integer [] i 7 0x80"
    using enc Some encode_integer_append [of buf i 7 "0x80"]
    by (simp_all add: encode_header_def encode_indexed_def)
  ultimately show ?thesis using sync by auto
qed

lemma hpack_decode_loop_field:
  assumes "decodes_to d code d' f" "total_sz + header_field_size f \<le> hd_max_header_list_size d'"
  shows "hpack_decode_loop d seen total_sz headers (code @ rest) =
    hpack_decode_loop d' True (total_sz + header_field_size f) (headers @ [f]) rest"
proof -
  from assms(1) obtain b t where code: "code = b # t" by (cases code) (auto simp: decodes_to_def)
  have "decode_representation d seen b (code @ rest) = Inr (d', Some f, length code)"
    using assms(1) by (auto simp: decodes_to_def code)
  with assms(2) show ?thesis
    by (subst hpack_decode_loop.simps) (simp add: code)
qed

lemma hpack_roundtrip_loop:
  assumes "tables_synced (he_dynamic_table e) (hd_dynamic_table d)" "list_all header_fits hs"
    and "he_pending_table_size_update e = None"
    and "total_sz + total_size (map header_of hs) \<le> hd_max_header_list_size d"
    and "hpack_encode_loop e buf hs = (e', buf')"
  shows "\<exists>code d'. buf' = buf @ code
    \<and> hpack_decode_loop d seen total_sz headers code = (d', Inr (headers @ map header_of hs))
    \<and> hpack_synced e' d' \<and> hd_max_header_list_size d' = hd_max_header_list_size d
    \<and> hd_max_allowed_table_size d' = hd_max_allowed_table_size d"
  using assms
proof (induction hs arbitrary: e d buf seen total_sz headers)
  case Nil
  then show ?case
    by (intro exI [of _ "[]"] exI [of _ d]) (simp add: hpack_decode_loop.simps hpack_synced_def)
next
  case (Cons h hs)
  obtain n v sens where h: "h = (n, v, sens)" by (cases h)
  have len: "length n < 2 ^ 35" "length v < 2 ^ 35" and hs: "list_all header_fits hs"
    using Cons.prems(2) by (simp_all add: h header_fits_def)
  have hof: "header_of h = header_field_new n v" by (simp add: h header_of_def)
  obtain e1 buf1 where e1: "(if sens then (e, encode_never_indexed e buf n v) else encode_header e buf n v) = (e1, buf1)"
    by force
  have loop1: "hpack_encode_loop e1 buf1 hs = (e', buf')"
    using Cons.prems(5) e1 by (auto simp: h split: if_splits)
  have "\<exists>code d1. buf1 = buf @ code \<and> decodes_to d code d1 (header_of h)
      \<and> tables_synced (he_dynamic_table e1) (hd_dynamic_table d1)
      \<and> he_pending_table_size_update e1 = he_pending_table_size_update e
      \<and> hd_max_header_list_size d1 = hd_max_header_list_size d
      \<and> hd_max_allowed_table_size d1 = hd_max_allowed_table_size d"
  proof (cases sens)
    case True
    then show ?thesis
      using e1 Cons.prems(1) never_indexed_decodes [OF len synced_name_index [OF Cons.prems(1)]]
      by (auto simp: encode_never_indexed_eq hof)
  next
    case False
    then show ?thesis using e1 encode_header_decodes [OF Cons.prems(1) len] by (auto simp: hof)
  qed
  then obtain code d1 where c: "buf1 = buf @ code" "decodes_to d code d1 (header_of h)"
    and sync1: "tables_synced (he_dynamic_table e1) (hd_dynamic_table d1)"
    and pend1: "he_pending_table_size_update e1 = None"
    and max1: "hd_max_header_list_size d1 = hd_max_header_list_size d"
      "hd_max_allowed_table_size d1 = hd_max_allowed_table_size d"
    using Cons.prems(3) by auto
  have fits: "total_sz + header_field_size (header_of h) + total_size (map header_of hs) \<le> hd_max_header_list_size d1"
    using Cons.prems(4) max1 by simp
  obtain code' d' where IH: "buf' = buf1 @ code'"
    "hpack_decode_loop d1 True (total_sz + header_field_size (header_of h)) (headers @ [header_of h]) code' =
      (d', Inr ((headers @ [header_of h]) @ map header_of hs))"
    "hpack_synced e' d'" "hd_max_header_list_size d' = hd_max_header_list_size d1"
    "hd_max_allowed_table_size d' = hd_max_allowed_table_size d1"
    using Cons.IH [OF sync1 hs pend1 fits loop1, of True "headers @ [header_of h]"] by blast
  have "hpack_decode_loop d seen total_sz headers (code @ code') = (d', Inr (headers @ map header_of (h # hs)))"
    using hpack_decode_loop_field [OF c(2), of total_sz seen headers code'] fits IH(2) by simp
  with IH c max1 show ?case by (intro exI [of _ "code @ code'"] exI [of _ d']) simp
qed

lemma size_update_decodes:
  assumes "sz < 2 ^ 35" "sz \<le> hd_max_allowed_table_size d"
  shows "hpack_decode_loop d False total_sz headers (encode_table_size_update [] sz @ rest) =
    hpack_decode_loop (d\<lparr>hd_dynamic_table := set_max_size sz (hd_dynamic_table d)\<rparr>) False total_sz headers rest"
proof -
  let ?I = "encode_integer [] sz 5 0x20"
  have hd: "?I \<noteq> []" "hd ?I AND 0x80 = 0" "hd ?I AND 0x40 = 0" "hd ?I AND 0x20 = 0x20"
    using integer_dispatch [of 5 "{0x80, 0x40, 0x20}" sz "0x20"] by (simp_all add: prefix_mask_def)
  have dec: "decode_integer (?I @ rest) 5 = Inr (sz, length ?I)"
    using assms(1) by (intro decode_encode_integer) (simp_all add: prefix_mask_def)
  from hd(1) obtain b t where bt: "?I = b # t" by (cases ?I) auto
  have "decode_representation d False b (?I @ rest) =
      Inr (d\<lparr>hd_dynamic_table := set_max_size sz (hd_dynamic_table d)\<rparr>, None, length ?I)"
    using hd(2-4) dec assms(2) by (simp add: bt decode_representation_def decode_table_size_update_def)
  then show ?thesis
    by (subst hpack_decode_loop.simps) (simp add: bt encode_table_size_update_def)
qed

lemma tables_synced_resize:
  assumes "table_inv te" "table_inv td" "prefix (dt_entries te) (dt_entries td)" "dt_max_size te < 2 ^ 32"
  shows "tables_synced te (set_max_size (dt_max_size te) td)"
proof -
  have "fit (dt_max_size te) (dt_entries te) = dt_entries te"
    using assms(1) by (intro fit_id) (simp add: table_inv_def)
  with fit_prefix [OF assms(3), of "dt_max_size te"] assms show ?thesis
    by (auto simp: tables_synced_def set_max_size_entries)
qed

lemma hpack_decode_encode:
  assumes "hpack_synced e d" "list_all header_fits hs"
    and "total_size (map header_of hs) \<le> hd_max_header_list_size d"
    and "hpack_encode e hs = (e', buf)"
  shows "\<exists>d'. hpack_decode d buf = (d', Inr (map header_of hs)) \<and> hpack_synced e' d'
    \<and> hd_max_header_list_size d' = hd_max_header_list_size d
    \<and> hd_max_allowed_table_size d' = hd_max_allowed_table_size d"
proof (cases "he_pending_table_size_update e")
  case None
  with assms hpack_roundtrip_loop [of "e\<lparr>he_pending_table_size_update := None\<rparr>" d hs 0 "[]" e' buf False "[]"]
  show ?thesis by (auto simp: hpack_encode_def hpack_decode_def hpack_synced_def)
next
  case (Some sz)
  let ?d = "d\<lparr>hd_dynamic_table := set_max_size sz (hd_dynamic_table d)\<rparr>"
  have sz: "sz < 2 ^ 35" "sz \<le> hd_max_allowed_table_size d"
    and "tables_synced (he_dynamic_table e) (set_max_size sz (hd_dynamic_table d))"
    using assms(1) Some tables_synced_resize [of "he_dynamic_table e" "hd_dynamic_table d"]
    by (auto simp: hpack_synced_def)
  with assms Some obtain code d' where "buf = encode_table_size_update [] sz @ code"
    "hpack_decode_loop ?d False 0 [] code = (d', Inr (map header_of hs))"
    "hpack_synced e' d'" "hd_max_header_list_size d' = hd_max_header_list_size d"
    "hd_max_allowed_table_size d' = hd_max_allowed_table_size d"
    using hpack_roundtrip_loop [of "e\<lparr>he_pending_table_size_update := None\<rparr>" ?d hs 0
        "encode_table_size_update [] sz" e' buf False "[]"]
    by (auto simp: hpack_encode_def)
  with size_update_decodes [OF sz, of 0 "[]" code] show ?thesis by (simp add: hpack_decode_def)
qed

lemma hpack_synced_new: "m < 2 ^ 32 \<Longrightarrow> hpack_synced (hpack_encoder_new m) (hpack_decoder_new m)"
  by (simp add: hpack_synced_def hpack_encoder_new_def hpack_decoder_new_def tables_synced_def table_inv_new)

lemma hpack_synced_resize:
  assumes "hpack_synced e d" "sz \<le> hd_max_allowed_table_size d" "sz < 2 ^ 32"
  shows "hpack_synced (he_set_max_table_size sz e) d"
proof -
  have "table_inv (he_dynamic_table e)" "table_inv (hd_dynamic_table d)"
    "prefix (dt_entries (he_dynamic_table e)) (dt_entries (hd_dynamic_table d))"
    using assms(1) by (auto simp: hpack_synced_def tables_synced_def split: option.splits)
  moreover have "prefix (fit sz (dt_entries (he_dynamic_table e))) (dt_entries (he_dynamic_table e))"
    by (rule fit_prefix_self)
  ultimately show ?thesis
    using assms(2,3) prefix_order.order_trans
    by (auto simp: hpack_synced_def he_set_max_table_size_def set_max_size_entries)
qed

lemma hpack_synced_resizes:
  assumes "hpack_synced e d"
    and "\<forall>sz \<in> set resizes. sz \<le> hd_max_allowed_table_size d \<and> sz < 2 ^ 32"
  shows "hpack_synced (fold he_set_max_table_size resizes e) d"
  using assms
proof (induction resizes arbitrary: e)
  case (Cons sz resizes)
  have "hpack_synced (he_set_max_table_size sz e) d"
    using Cons.prems by (intro hpack_synced_resize) auto
  with Cons show ?case by simp
qed simp

section \<open>What decoding arbitrary bytes can do\<close>

definition decoder_inv :: "hpack_decoder \<Rightarrow> bool" where
  "decoder_inv d \<longleftrightarrow> table_inv (hd_dynamic_table d)
    \<and> dt_max_size (hd_dynamic_table d) \<le> hd_max_allowed_table_size d"

lemma decode_representation_inv:
  assumes "decode_representation d seen b buf = Inr (d', f, n)" "decoder_inv d"
  shows "decoder_inv d' \<and> hd_max_header_list_size d' = hd_max_header_list_size d
    \<and> hd_max_allowed_table_size d' = hd_max_allowed_table_size d"
  using assms
  by (auto simp: decode_representation_def decode_literal_indexed_def decode_table_size_update_def
      decoder_inv_def split: if_splits)

lemma hpack_decode_loop_inv:
  assumes "hpack_decode_loop d seen tot hs buf = (d', r)" "decoder_inv d"
    and "tot = total_size hs" "tot \<le> hd_max_header_list_size d"
  shows "decoder_inv d' \<and> hd_max_header_list_size d' = hd_max_header_list_size d
    \<and> hd_max_allowed_table_size d' = hd_max_allowed_table_size d
    \<and> (case r of Inl _ \<Rightarrow> True | Inr fs \<Rightarrow> total_size fs \<le> hd_max_header_list_size d)"
  using assms
proof (induction d seen tot hs buf rule: hpack_decode_loop.induct)
  case (1 d seen tot hs buf)
  show ?case
  proof (cases buf)
    case Nil
    with 1 show ?thesis by (auto simp: hpack_decode_loop.simps)
  next
    case (Cons b bs)
    show ?thesis
    proof (cases "decode_representation d seen b buf")
      case (Inl e)
      with 1(3) Cons have "d' = d" "r = Inl e" by (simp_all add: hpack_decode_loop.simps)
      with 1 show ?thesis by simp
    next
      case (Inr x)
      obtain d1 f n where x: "x = (d1, f, n)" by (cases x)
      note inv = decode_representation_inv [OF Inr [unfolded x] 1(4)]
      show ?thesis
      proof (cases f)
        case None
        have "hpack_decode_loop d1 seen tot hs (drop n buf) = (d', r)"
          using 1(3) Cons Inr x None by (simp add: hpack_decode_loop.simps [of d])
        with "1.IH"(1) [OF Cons Inr x [symmetric] refl None] inv 1(5,6) show ?thesis by (simp split: sum.splits)
      next
        case (Some h)
        show ?thesis
        proof (cases "tot + header_field_size h > hd_max_header_list_size d1")
          case True
          then have "d' = d1" "r = Inl TableSizeExceeded"
            using 1(3) Cons Inr x Some by (simp_all add: hpack_decode_loop.simps [of d])
          with inv show ?thesis by simp
        next
          case False
          have "hpack_decode_loop d1 True (tot + header_field_size h) (hs @ [h]) (drop n buf) = (d', r)"
            using 1(3) Cons Inr x Some False by (simp add: hpack_decode_loop.simps [of d])
          with "1.IH"(2) [OF Cons Inr x [symmetric] refl Some] False inv 1(5,6) show ?thesis by (simp split: sum.splits)
        qed
      qed
    qed
  qed
qed

section \<open>Properties\<close>

fun exchange :: "hpack_encoder \<Rightarrow> hpack_decoder \<Rightarrow> (nat list \<times> (bytes \<times> bytes \<times> bool) list) list
    \<Rightarrow> header_field list hpack_result list" where
  "exchange e d [] = []"
| "exchange e d ((resizes, hs) # rest) =
    (let (e, buf) = hpack_encode (fold he_set_max_table_size resizes e) hs;
         (d, r) = hpack_decode d buf
     in r # exchange e d rest)"

text \<open>C9: An HPACK session: an encoder and a decoder that start synchronised exchange any number
  of header blocks, the encoder changing its table size any number of times before each block
  within what the decoder allows.  Every block is decoded to exactly the headers encoded,
  sensitive ones included, as long as each header list stays within the decoder's limit.\<close>

theorem hpack_session:
  assumes "hpack_synced e d"
    and "\<forall>(resizes, hs) \<in> set blocks.
      (\<forall>sz \<in> set resizes. sz \<le> hd_max_allowed_table_size d \<and> sz < 2 ^ 32)
      \<and> list_all header_fits hs \<and> total_size (map header_of hs) \<le> hd_max_header_list_size d"
  shows "exchange e d blocks = map (\<lambda>(_, hs). Inr (map header_of hs)) blocks"
  using assms
proof (induction blocks arbitrary: e d)
  case (Cons block blocks)
  obtain resizes hs where block: "block = (resizes, hs)" by force
  have sync: "hpack_synced (fold he_set_max_table_size resizes e) d"
    using Cons.prems block by (intro hpack_synced_resizes) auto
  obtain e' buf where enc: "hpack_encode (fold he_set_max_table_size resizes e) hs = (e', buf)" by force
  obtain d' where d': "hpack_decode d buf = (d', Inr (map header_of hs))" "hpack_synced e' d'"
    "hd_max_header_list_size d' = hd_max_header_list_size d"
    "hd_max_allowed_table_size d' = hd_max_allowed_table_size d"
    using hpack_decode_encode [OF sync _ _ enc] Cons.prems(2) block by auto
  have "exchange e' d' blocks = map (\<lambda>(_, hs). Inr (map header_of hs)) blocks"
    using Cons.prems(2) d'(3,4) by (intro Cons.IH [OF d'(2)]) auto
  then show ?case by (simp add: block enc d'(1))
qed simp

theorem hpack_session_witness:
  "exchange (hpack_encoder_new 4096) (hpack_decoder_new 4096)
     [([], [(ascii '':method'', ascii ''GET'', False), (ascii ''x-a'', ascii ''1'', False)]),
      ([0, 100], [(ascii ''x-a'', ascii ''1'', False), (ascii ''cookie'', ascii ''s'', True)])] =
   [Inr [header_field_new (ascii '':method'') (ascii ''GET''), header_field_new (ascii ''x-a'') (ascii ''1'')],
    Inr [header_field_new (ascii ''x-a'') (ascii ''1''), header_field_new (ascii ''cookie'') (ascii ''s'')]]"
  by (subst hpack_session; (rule hpack_synced_new)?;
      simp add: header_fits_def header_of_def header_field_size_def ascii_def hpack_decoder_new_def)



end
