(* ===== verification/Grpc_Stream.thy ===== *)
theory Grpc_Stream
  imports Prelude
begin

text \<open>
  The state a proxied gRPC call keeps (src/src/grpc/stream.rs).  Instants are nanoseconds;
  operations that read the clock take its value as \<open>now\<close>.
\<close>

datatype grpc_stream_type = Unary | ClientStreaming | ServerStreaming | BidirectionalStreaming

definition is_client_streaming :: "grpc_stream_type \<Rightarrow> bool" where
  "is_client_streaming t \<longleftrightarrow> t = ClientStreaming \<or> t = BidirectionalStreaming"

definition is_server_streaming :: "grpc_stream_type \<Rightarrow> bool" where
  "is_server_streaming t \<longleftrightarrow> t = ServerStreaming \<or> t = BidirectionalStreaming"

record grpc_stream_state =
  gs_stream_id :: u32
  gs_stream_type :: grpc_stream_type
  gs_client_done :: bool
  gs_response_started :: bool
  gs_server_done :: bool
  gs_trailers_sent :: bool
  gs_request_frames :: nat
  gs_response_frames :: nat
  gs_created_at :: nat
  gs_last_activity :: nat

definition grpc_stream_state_new :: "nat \<Rightarrow> u32 \<Rightarrow> grpc_stream_state" where
  "grpc_stream_state_new now sid =
    \<lparr>gs_stream_id = sid, gs_stream_type = Unary, gs_client_done = False, gs_response_started = False,
     gs_server_done = False, gs_trailers_sent = False, gs_request_frames = 0, gs_response_frames = 0,
     gs_created_at = now, gs_last_activity = now\<rparr>"

definition on_request_frame :: "nat \<Rightarrow> grpc_stream_state \<Rightarrow> grpc_stream_state" where
  "on_request_frame now g =
    (let g = g\<lparr>gs_request_frames := gs_request_frames g + 1, gs_last_activity := now\<rparr>
     in if gs_request_frames g > 1
        then (case gs_stream_type g of
                Unary \<Rightarrow> g\<lparr>gs_stream_type := ClientStreaming\<rparr>
              | ServerStreaming \<Rightarrow> g\<lparr>gs_stream_type := BidirectionalStreaming\<rparr>
              | _ \<Rightarrow> g)
        else g)"

definition on_client_done :: "nat \<Rightarrow> grpc_stream_state \<Rightarrow> grpc_stream_state" where
  "on_client_done now g = g\<lparr>gs_client_done := True, gs_last_activity := now\<rparr>"

definition on_response_frame :: "nat \<Rightarrow> grpc_stream_state \<Rightarrow> grpc_stream_state" where
  "on_response_frame now g =
    (let g = g\<lparr>gs_response_frames := gs_response_frames g + 1, gs_response_started := True,
               gs_last_activity := now\<rparr>
     in if gs_response_frames g > 1
        then (case gs_stream_type g of
                Unary \<Rightarrow> g\<lparr>gs_stream_type := ServerStreaming\<rparr>
              | ClientStreaming \<Rightarrow> g\<lparr>gs_stream_type := BidirectionalStreaming\<rparr>
              | _ \<Rightarrow> g)
        else g)"

definition on_server_done :: "nat \<Rightarrow> grpc_stream_state \<Rightarrow> grpc_stream_state" where
  "on_server_done now g = g\<lparr>gs_server_done := True, gs_last_activity := now\<rparr>"

definition on_trailers_sent :: "nat \<Rightarrow> grpc_stream_state \<Rightarrow> grpc_stream_state" where
  "on_trailers_sent now g = g\<lparr>gs_trailers_sent := True, gs_server_done := True, gs_last_activity := now\<rparr>"

definition expects_client_data :: "grpc_stream_state \<Rightarrow> bool" where
  "expects_client_data g \<longleftrightarrow> \<not> gs_client_done g \<and> is_client_streaming (gs_stream_type g)"

definition expects_server_data :: "grpc_stream_state \<Rightarrow> bool" where
  "expects_server_data g \<longleftrightarrow> \<not> gs_server_done g \<and> is_server_streaming (gs_stream_type g)"

definition is_complete :: "grpc_stream_state \<Rightarrow> bool" where
  "is_complete g \<longleftrightarrow> gs_client_done g \<and> gs_server_done g"

definition can_send_trailers :: "grpc_stream_state \<Rightarrow> bool" where
  "can_send_trailers g \<longleftrightarrow> \<not> gs_trailers_sent g \<and> gs_response_started g"

definition grpc_age :: "nat \<Rightarrow> grpc_stream_state \<Rightarrow> nat" where
  "grpc_age now g = now - gs_created_at g"

definition grpc_idle_time :: "nat \<Rightarrow> grpc_stream_state \<Rightarrow> nat" where
  "grpc_idle_time now g = now - gs_last_activity g"

section \<open>What the type means\<close>

datatype grpc_event = RequestFrame | ClientDone | ResponseFrame | ServerDone | TrailersSent

fun grpc_apply :: "nat \<times> grpc_event \<Rightarrow> grpc_stream_state \<Rightarrow> grpc_stream_state" where
  "grpc_apply (now, RequestFrame) = on_request_frame now"
| "grpc_apply (now, ClientDone) = on_client_done now"
| "grpc_apply (now, ResponseFrame) = on_response_frame now"
| "grpc_apply (now, ServerDone) = on_server_done now"
| "grpc_apply (now, TrailersSent) = on_trailers_sent now"

definition classify :: "nat \<Rightarrow> nat \<Rightarrow> grpc_stream_type" where
  "classify requests responses =
    (if 1 < requests then if 1 < responses then BidirectionalStreaming else ClientStreaming
     else if 1 < responses then ServerStreaming else Unary)"

definition grpc_inv :: "grpc_stream_state \<Rightarrow> bool" where
  "grpc_inv g \<longleftrightarrow> gs_stream_type g = classify (gs_request_frames g) (gs_response_frames g)
    \<and> gs_response_started g = (0 < gs_response_frames g)
    \<and> (gs_trailers_sent g \<longrightarrow> gs_server_done g)"

lemma grpc_inv_new: "grpc_inv (grpc_stream_state_new now sid)"
  by (simp add: grpc_inv_def grpc_stream_state_new_def classify_def)

lemma grpc_inv_apply: "grpc_inv g \<Longrightarrow> grpc_inv (grpc_apply ev g)"
  by (cases ev rule: grpc_apply.cases)
    (auto simp: grpc_inv_def classify_def on_request_frame_def on_client_done_def on_response_frame_def
      on_server_done_def on_trailers_sent_def Let_def split: grpc_stream_type.splits)

lemma grpc_counts:
  "gs_request_frames (fold grpc_apply evs g) =
     gs_request_frames g + length (filter (\<lambda>ev. snd ev = RequestFrame) evs)"
  "gs_response_frames (fold grpc_apply evs g) =
     gs_response_frames g + length (filter (\<lambda>ev. snd ev = ResponseFrame) evs)"
proof (induction evs arbitrary: g)
  case (Cons ev evs)
  {
    case 1
    show ?case using Cons(1) [of "grpc_apply ev g"]
      by (cases ev rule: grpc_apply.cases)
        (auto simp: on_request_frame_def on_client_done_def on_response_frame_def on_server_done_def
          on_trailers_sent_def Let_def split: grpc_stream_type.splits)
  next
    case 2
    show ?case using Cons(2) [of "grpc_apply ev g"]
      by (cases ev rule: grpc_apply.cases)
        (auto simp: on_request_frame_def on_client_done_def on_response_frame_def on_server_done_def
          on_trailers_sent_def Let_def split: grpc_stream_type.splits)
  }
qed simp_all

lemma grpc_inv_fold: "grpc_inv g \<Longrightarrow> grpc_inv (fold grpc_apply evs g)"
  by (induction evs arbitrary: g) (auto intro: grpc_inv_apply)

section \<open>Properties\<close>

text \<open>C11: Whatever order messages and terminations arrive in, the call type a gRPC stream has
  inferred is the one its numbers of request and response messages determine: client streaming
  exactly when more than one request was seen, server streaming exactly when more than one
  response was sent.\<close>

theorem grpc_type_inferred:
  "gs_stream_type (fold grpc_apply evs (grpc_stream_state_new now sid)) =
    classify (length (filter (\<lambda>ev. snd ev = RequestFrame) evs))
      (length (filter (\<lambda>ev. snd ev = ResponseFrame) evs))"
  using grpc_inv_fold [OF grpc_inv_new, of evs now sid] grpc_counts [of evs "grpc_stream_state_new now sid"]
  by (simp add: grpc_inv_def grpc_stream_state_new_def)

end
