(* ===== verification/Incremental.thy ===== *)
theory Incremental
  imports Prelude
begin

text \<open>
  Decoding a byte stream that arrives in pieces.  A parser looks at the bytes buffered so far and
  asks for more, takes a message off the front, or fails; a reader appends each piece to its
  buffer and takes messages off until the parser asks for more.  The locale states what makes
  this independent of where the pieces are cut.
\<close>

datatype ('f, 'e) progress = Need | Got 'f nat | Bad 'e

text \<open>Take messages off the buffer: the messages, what remains buffered, the error that stopped it.\<close>

function drain :: "(bytes \<Rightarrow> ('f, 'e) progress) \<Rightarrow> bytes \<Rightarrow> 'f list \<times> bytes \<times> 'e option" where
  "drain p buf =
    (case p buf of
       Need \<Rightarrow> ([], buf, None)
     | Bad e \<Rightarrow> ([], buf, Some e)
     | Got f n \<Rightarrow>
         if 0 < n \<and> n \<le> length buf then apfst (Cons f) (drain p (drop n buf)) else ([], buf, None))"
  by pat_completeness auto

termination
  by (relation "measure (\<lambda>(p, buf). length buf)") auto

declare drain.simps [simp del]

text \<open>One piece arriving: nothing happens any more after an error.\<close>

fun feed :: "(bytes \<Rightarrow> ('f, 'e) progress) \<Rightarrow> 'f list \<times> bytes \<times> 'e option \<Rightarrow> bytes \<Rightarrow> 'f list \<times> bytes \<times> 'e option" where
  "feed p (fs, buf, Some e) piece = (fs, buf @ piece, Some e)"
| "feed p (fs, buf, None) piece = apfst (append fs) (drain p (buf @ piece))"

locale incremental_parser =
  fixes p :: "bytes \<Rightarrow> ('f, 'e) progress"
  assumes got_bound: "p buf = Got f n \<Longrightarrow> 0 < n \<and> n \<le> length buf"
    and got_mono: "p buf = Got f n \<Longrightarrow> p (buf @ more) = Got f n"
    and bad_mono: "p buf = Bad e \<Longrightarrow> p (buf @ more) = Bad e"
begin

lemma drain_Got: "p buf = Got f n \<Longrightarrow> drain p buf = apfst (Cons f) (drain p (drop n buf))"
  using got_bound by (subst drain.simps) auto

lemma drain_append:
  "drain p (buf @ more) = feed p (drain p buf) more"
proof (induction "length buf" arbitrary: buf rule: less_induct)
  case less
  show ?case
  proof (cases "p buf")
    case Need
    then have "drain p buf = ([], buf, None)" by (subst drain.simps) simp
    then show ?thesis by (simp add: apfst_def map_prod_def)
  next
    case (Got f n)
    have n: "0 < n" "n \<le> length buf" using got_bound [OF Got] by auto
    have "drain p (buf @ more) = apfst (Cons f) (drain p (drop n buf @ more))"
      using drain_Got [OF got_mono [OF Got, of more]] n by simp
    also have "drain p (drop n buf @ more) = feed p (drain p (drop n buf)) more"
      using n by (intro less) auto
    also have "apfst (Cons f) (feed p (drain p (drop n buf)) more) = feed p (apfst (Cons f) (drain p (drop n buf))) more"
      by (cases "(p, drain p (drop n buf), more)" rule: feed.cases) (auto simp: apfst_def map_prod_def split: prod.splits)
    also have "apfst (Cons f) (drain p (drop n buf)) = drain p buf" using drain_Got [OF Got] by simp
    finally show ?thesis .
  next
    case (Bad e)
    then have "drain p buf = ([], buf, Some e)" by (subst drain.simps) simp
    moreover have "drain p (buf @ more) = ([], buf @ more, Some e)"
      using bad_mono [OF Bad] by (subst drain.simps) simp
    ultimately show ?thesis by simp
  qed
qed

text \<open>Where the pieces are cut does not matter.\<close>

lemma feed_pieces: "fold (\<lambda>piece st. feed p st piece) pieces (drain p buf) = drain p (buf @ concat pieces)"
  by (induction pieces arbitrary: buf) (simp_all add: drain_append [symmetric])

text \<open>A parser that reads back what an encoder wrote reads back any sequence of it.\<close>

lemma drain_encoded:
  assumes "\<And>f more. f \<in> set fs \<Longrightarrow> p (enc f @ more) = Got f (length (enc f))"
    and "p [] = Need"
  shows "drain p (concat (map enc fs)) = (fs, [], None)"
  using assms(1)
proof (induction fs)
  case Nil
  then show ?case using assms(2) by (subst drain.simps) simp
next
  case (Cons f fs)
  have "p (enc f @ concat (map enc fs)) = Got f (length (enc f))" using Cons by simp
  then show ?case using Cons by (simp add: drain_Got)
qed

end

end
