(* ===== verification/Grpc_Framing.thy ===== *)
theory Grpc_Framing
  imports Prelude Incremental
begin

text \<open>
  gRPC length-prefixed messages (src/src/grpc/framing.rs): the five-byte header, decoding one
  message from a buffer, and the streaming decoder that buffers incomplete messages.
\<close>

definition GRPC_FRAME_HEADER_SIZE :: nat where
  "GRPC_FRAME_HEADER_SIZE = 5"

definition GRPC_MAX_MESSAGE_SIZE :: nat where
  "GRPC_MAX_MESSAGE_SIZE = 4 * 1024 * 1024"

datatype grpc_error =
    InsufficientData nat nat
  | MessageTooLarge nat nat
  | GrpcInvalidFrame string
  | GrpcCompressionError string
  | GrpcIo string

fun display_grpc_error :: "grpc_error \<Rightarrow> string" where
  "display_grpc_error (InsufficientData required available) =
     ''Insufficient data: need '' @ show_nat required @ '' bytes, have '' @ show_nat available"
| "display_grpc_error (MessageTooLarge sz mx) =
     ''Message too large: '' @ show_nat sz @ '' bytes (max: '' @ show_nat mx @ '')''"
| "display_grpc_error (GrpcInvalidFrame msg) = ''Invalid gRPC frame: '' @ msg"
| "display_grpc_error (GrpcCompressionError msg) = ''Compression error: '' @ msg"
| "display_grpc_error (GrpcIo kind) = ''IO error: '' @ kind"

record grpc_frame =
  gf_compressed :: bool
  gf_data :: bytes

definition grpc_frame_new :: "bytes \<Rightarrow> grpc_frame" where
  "grpc_frame_new d = \<lparr>gf_compressed = False, gf_data = d\<rparr>"

definition grpc_frame_compressed :: "bytes \<Rightarrow> grpc_frame" where
  "grpc_frame_compressed d = \<lparr>gf_compressed = True, gf_data = d\<rparr>"

definition grpc_frame_encode :: "grpc_frame \<Rightarrow> bytes" where
  "grpc_frame_encode f =
    (if gf_compressed f then 1 else 0) # u32_to_be (of_nat (length (gf_data f))) @ gf_data f"

definition grpc_encode_header :: "grpc_frame \<Rightarrow> bytes" where
  "grpc_encode_header f =
    (let header = replicate 5 0;
         header = header[0 := (if gf_compressed f then 1 else 0)]
     in take 1 header @ u32_to_be (of_nat (length (gf_data f))))"

definition grpc_total_size :: "grpc_frame \<Rightarrow> nat" where
  "grpc_total_size f = GRPC_FRAME_HEADER_SIZE + length (gf_data f)"

definition decode_grpc_frame_with_max_size :: "bytes \<Rightarrow> nat \<Rightarrow> grpc_error + grpc_frame \<times> nat" where
  "decode_grpc_frame_with_max_size buf max_size =
    (if length buf < GRPC_FRAME_HEADER_SIZE
     then Inl (InsufficientData GRPC_FRAME_HEADER_SIZE (length buf))
     else
       let compressed = (buf ! 0 = 1);
           len = unat (u32_from_be (buf ! 1) (buf ! 2) (buf ! 3) (buf ! 4))
       in if len > max_size then Inl (MessageTooLarge len max_size)
          else
            let total_len = GRPC_FRAME_HEADER_SIZE + len
            in if length buf < total_len then Inl (InsufficientData total_len (length buf))
               else Inr (\<lparr>gf_compressed = compressed,
                          gf_data = take (total_len - GRPC_FRAME_HEADER_SIZE) (drop GRPC_FRAME_HEADER_SIZE buf)\<rparr>,
                         total_len))"

definition decode_grpc_frame :: "bytes \<Rightarrow> grpc_error + grpc_frame \<times> nat" where
  "decode_grpc_frame buf = decode_grpc_frame_with_max_size buf GRPC_MAX_MESSAGE_SIZE"

record grpc_frame_decoder =
  gd_buffer :: bytes
  gd_max_message_size :: nat

definition decoder_with_max_size :: "nat \<Rightarrow> grpc_frame_decoder" where
  "decoder_with_max_size mx = \<lparr>gd_buffer = [], gd_max_message_size = mx\<rparr>"

definition grpc_decoder_new :: grpc_frame_decoder where
  "grpc_decoder_new = decoder_with_max_size GRPC_MAX_MESSAGE_SIZE"

definition decoder_push :: "bytes \<Rightarrow> grpc_frame_decoder \<Rightarrow> grpc_frame_decoder" where
  "decoder_push d g = g\<lparr>gd_buffer := gd_buffer g @ d\<rparr>"

definition decode_next :: "grpc_frame_decoder \<Rightarrow> grpc_frame_decoder \<times> (grpc_error + grpc_frame option)" where
  "decode_next g =
    (if length (gd_buffer g) < GRPC_FRAME_HEADER_SIZE then (g, Inr None)
     else
       case decode_grpc_frame_with_max_size (gd_buffer g) (gd_max_message_size g) of
         Inr (frame, consumed) \<Rightarrow> (g\<lparr>gd_buffer := drop consumed (gd_buffer g)\<rparr>, Inr (Some frame))
       | Inl (InsufficientData _ _) \<Rightarrow> (g, Inr None)
       | Inl e \<Rightarrow> (g, Inl e))"

definition has_pending :: "grpc_frame_decoder \<Rightarrow> bool" where
  "has_pending g \<longleftrightarrow> gd_buffer g \<noteq> []"

definition pending_len :: "grpc_frame_decoder \<Rightarrow> nat" where
  "pending_len g = length (gd_buffer g)"

definition decoder_clear :: "grpc_frame_decoder \<Rightarrow> grpc_frame_decoder" where
  "decoder_clear g = g\<lparr>gd_buffer := []\<rparr>"

text \<open>
  The use the decoder is made for: push what arrived, then call \<open>decode_next\<close> until it returns
  no message.  The second component is the messages taken off, the third the error.
\<close>

function decode_available :: "grpc_frame_decoder \<Rightarrow> grpc_frame_decoder \<times> grpc_frame list \<times> grpc_error option" where
  "decode_available g =
    (case decode_next g of
       (g', Inl e) \<Rightarrow> (g', [], Some e)
     | (g', Inr None) \<Rightarrow> (g', [], None)
     | (g', Inr (Some f)) \<Rightarrow> (case decode_available g' of (g'', fs, e) \<Rightarrow> (g'', f # fs, e)))"
  by pat_completeness auto

lemma decode_frame_Inr:
  "decode_grpc_frame_with_max_size buf mx = Inr (f, n) \<longleftrightarrow>
    5 \<le> n \<and> n \<le> length buf \<and> n = 5 + unat (u32_from_be (buf ! 1) (buf ! 2) (buf ! 3) (buf ! 4)) \<and> n \<le> 5 + mx
    \<and> f = \<lparr>gf_compressed = (buf ! 0 = 1), gf_data = take (n - 5) (drop 5 buf)\<rparr>"
  by (auto simp: decode_grpc_frame_with_max_size_def GRPC_FRAME_HEADER_SIZE_def Let_def)

lemma decode_next_shrinks:
  "decode_next g = (g', Inr (Some f)) \<Longrightarrow> length (gd_buffer g') < length (gd_buffer g)"
  by (auto simp: decode_next_def decode_frame_Inr split: if_splits sum.splits grpc_error.splits)

termination decode_available
  by (relation "measure (\<lambda>g. length (gd_buffer g))") (auto dest: decode_next_shrinks [OF sym])

declare decode_available.simps [simp del]

section \<open>The streaming decoder as an incremental parser\<close>

definition grpc_parse :: "nat \<Rightarrow> bytes \<Rightarrow> (grpc_frame, grpc_error) progress" where
  "grpc_parse mx buf =
    (case decode_grpc_frame_with_max_size buf mx of
       Inr (f, n) \<Rightarrow> Got f n
     | Inl (InsufficientData _ _) \<Rightarrow> Need
     | Inl e \<Rightarrow> Bad e)"

lemma grpc_parse_Got: "grpc_parse mx buf = Got f n \<longleftrightarrow> decode_grpc_frame_with_max_size buf mx = Inr (f, n)"
  by (auto simp: grpc_parse_def split: sum.splits grpc_error.splits)

lemma grpc_parse_Bad:
  "grpc_parse mx buf = Bad e \<longleftrightarrow> 5 \<le> length buf
    \<and> mx < unat (u32_from_be (buf ! 1) (buf ! 2) (buf ! 3) (buf ! 4))
    \<and> e = MessageTooLarge (unat (u32_from_be (buf ! 1) (buf ! 2) (buf ! 3) (buf ! 4))) mx"
  by (auto simp: grpc_parse_def decode_grpc_frame_with_max_size_def GRPC_FRAME_HEADER_SIZE_def Let_def
      split: sum.splits grpc_error.splits)

interpretation grpc_stream: incremental_parser "grpc_parse mx" for mx
  by unfold_locales (auto simp: grpc_parse_Got grpc_parse_Bad decode_frame_Inr nth_append)

lemma decode_next_parse:
  "decode_next g =
    (case grpc_parse (gd_max_message_size g) (gd_buffer g) of
       Need \<Rightarrow> (g, Inr None)
     | Got f n \<Rightarrow> (g\<lparr>gd_buffer := drop n (gd_buffer g)\<rparr>, Inr (Some f))
     | Bad e \<Rightarrow> (g, Inl e))"
  by (auto simp: decode_next_def grpc_parse_def decode_grpc_frame_with_max_size_def GRPC_FRAME_HEADER_SIZE_def Let_def
      split: sum.splits grpc_error.splits)

lemma decode_available_drain:
  "decode_available g =
    (case drain (grpc_parse (gd_max_message_size g)) (gd_buffer g) of
       (fs, buf, e) \<Rightarrow> (g\<lparr>gd_buffer := buf\<rparr>, fs, e))"
proof (induction g rule: decode_available.induct)
  case (1 g)
  show ?case
  proof (cases "grpc_parse (gd_max_message_size g) (gd_buffer g)")
    case (Got f n)
    have "decode_next g = (g\<lparr>gd_buffer := drop n (gd_buffer g)\<rparr>, Inr (Some f))"
      using Got by (simp add: decode_next_parse)
    with 1 [OF this [symmetric] refl refl] show ?thesis
      by (subst decode_available.simps) (simp add: grpc_stream.drain_Got [OF Got] split: prod.splits)
  qed (subst decode_available.simps, subst drain.simps, simp add: decode_next_parse)+
qed

lemma grpc_parse_encode:
  assumes "length (gf_data f) \<le> mx" "length (gf_data f) < 2 ^ 32"
  shows "grpc_parse mx (grpc_frame_encode f @ rest) = Got f (length (grpc_frame_encode f))"
proof -
  have l: "unat (of_nat (length (gf_data f)) :: u32) = length (gf_data f)"
    using assms(2) by (simp add: unat_of_nat)
  show ?thesis
    using assms by (simp add: grpc_parse_Got decode_frame_Inr grpc_frame_encode_def u32_to_be_def l)
qed

text \<open>A connection: pieces arrive, after each one the available messages are taken off.\<close>

fun grpc_receive :: "grpc_frame_decoder \<times> grpc_frame list \<times> grpc_error option \<Rightarrow> bytes
    \<Rightarrow> grpc_frame_decoder \<times> grpc_frame list \<times> grpc_error option" where
  "grpc_receive (g, fs, Some e) piece = (decoder_push piece g, fs, Some e)"
| "grpc_receive (g, fs, None) piece =
    (case decode_available (decoder_push piece g) of (g', fs', e) \<Rightarrow> (g', fs @ fs', e))"

lemma grpc_receive_feed:
  "grpc_receive (g, fs, e) piece =
    (case feed (grpc_parse (gd_max_message_size g)) (fs, gd_buffer g, e) piece of
       (fs', buf, e') \<Rightarrow> (g\<lparr>gd_buffer := buf\<rparr>, fs', e'))"
  by (cases e) (simp_all add: decoder_push_def decode_available_drain apfst_def map_prod_def split: prod.splits)

lemma grpc_receive_pieces:
  "fold (\<lambda>piece st. grpc_receive st piece) pieces (g, fs, e) =
    (case fold (\<lambda>piece st. feed (grpc_parse (gd_max_message_size g)) st piece) pieces (fs, gd_buffer g, e) of
       (fs', buf, e') \<Rightarrow> (g\<lparr>gd_buffer := buf\<rparr>, fs', e'))"
proof (induction pieces arbitrary: g fs e)
  case (Cons piece pieces)
  obtain fs' buf e' where f: "feed (grpc_parse (gd_max_message_size g)) (fs, gd_buffer g, e) piece = (fs', buf, e')"
    using prod_cases3 by blast
  show ?case
    using Cons [of "g\<lparr>gd_buffer := buf\<rparr>" fs' e'] by (simp add: grpc_receive_feed f split: prod.splits)
qed simp

lemma drain_grpc_Nil: "drain (grpc_parse mx) [] = ([], [], None)"
  by (subst drain.simps) (simp add: grpc_parse_def decode_grpc_frame_with_max_size_def GRPC_FRAME_HEADER_SIZE_def)

section \<open>Properties\<close>

text \<open>C12: However the network cuts the bytes of a sequence of gRPC messages into pieces, the
  streaming decoder delivers exactly those messages, in order, with nothing left in its buffer
  and no error, provided each message is within the decoder's limit (and the 32-bit length).\<close>

theorem grpc_streaming_exact:
  assumes "concat pieces = concat (map grpc_frame_encode fs)"
    and "\<And>f. f \<in> set fs \<Longrightarrow> length (gf_data f) \<le> mx \<and> length (gf_data f) < 2 ^ 32"
  shows "fold (\<lambda>piece st. grpc_receive st piece) pieces (decoder_with_max_size mx, [], None) =
    (decoder_with_max_size mx, fs, None)"
proof -
  have "fold (\<lambda>piece st. feed (grpc_parse mx) st piece) pieces ([], [], None) = drain (grpc_parse mx) (concat pieces)"
    using grpc_stream.feed_pieces [of mx pieces "[]"] by (simp add: drain_grpc_Nil)
  also have "\<dots> = (fs, [], None)" unfolding assms(1)
  proof (rule grpc_stream.drain_encoded)
    show "grpc_parse mx [] = Need"
      by (simp add: grpc_parse_def decode_grpc_frame_with_max_size_def GRPC_FRAME_HEADER_SIZE_def)
  qed (use assms(2) grpc_parse_encode in blast)
  finally show ?thesis by (simp add: grpc_receive_pieces decoder_with_max_size_def)
qed

theorem grpc_streaming_exact_witness:
  "fold (\<lambda>piece st. grpc_receive st piece) [[0, 0, 0], [0, 2, 7], [9, 1, 0, 0, 0, 0]]
      (decoder_with_max_size 4, [], None) =
    (decoder_with_max_size 4, [grpc_frame_new [7, 9], grpc_frame_compressed []], None)"
  by (rule grpc_streaming_exact)
    (auto simp: grpc_frame_new_def grpc_frame_compressed_def grpc_frame_encode_def u32_to_be_def)

text \<open>The decoder accepts a buffer exactly when it starts with a complete message within the
  limit; the message is the bytes after the header and the count the whole message, and a message
  over the limit is refused as soon as its header is there, however little of it has arrived.\<close>

lemma grpc_decode_exact:
  "decode_grpc_frame_with_max_size (flag # u32_to_be n @ body) mx =
    (if unat n > mx then Inl (MessageTooLarge (unat n) mx)
     else if length body < unat n then Inl (InsufficientData (5 + unat n) (5 + length body))
     else Inr (\<lparr>gf_compressed = (flag = 1), gf_data = take (unat n) body\<rparr>, 5 + unat n))"
  by (simp add: decode_grpc_frame_with_max_size_def GRPC_FRAME_HEADER_SIZE_def u32_to_be_def Let_def)

end
