(* ===== verification/Rust_Text.thy ===== *)
theory Rust_Text
  imports Prelude
begin

text \<open>
  The text operations of Rust's standard library that the sources use: ASCII case folding,
  UTF-8 validation and decoding (a \<open>str\<close> is its bytes, a \<open>String\<close> that is handled
  character by character its list of code points), decimal and hexadecimal parsing with the
  optional plus sign \<open>from_str_radix\<close> accepts, splitting, trimming and joining.
\<close>

section \<open>ASCII\<close>

lemma unat_u8_of_nat: "n < 256 \<Longrightarrow> unat (of_nat n :: u8) = n"
  by (simp add: unat_of_nat)

definition u8_to_ascii_lowercase :: "u8 \<Rightarrow> u8" where
  "u8_to_ascii_lowercase b = (if 0x41 \<le> b \<and> b \<le> 0x5A then b + 32 else b)"

definition to_ascii_lowercase :: "bytes \<Rightarrow> bytes" where
  "to_ascii_lowercase = map u8_to_ascii_lowercase"

definition eq_ignore_ascii_case :: "bytes \<Rightarrow> bytes \<Rightarrow> bool" where
  "eq_ignore_ascii_case a b \<longleftrightarrow> to_ascii_lowercase a = to_ascii_lowercase b"

lemma eq_ignore_ascii_case_refl [simp]: "eq_ignore_ascii_case a a"
  by (simp add: eq_ignore_ascii_case_def)

lemma eq_ignore_ascii_case_sym: "eq_ignore_ascii_case a b \<Longrightarrow> eq_ignore_ascii_case b a"
  by (simp add: eq_ignore_ascii_case_def)

lemma eq_ignore_ascii_case_trans:
  "eq_ignore_ascii_case a b \<Longrightarrow> eq_ignore_ascii_case b c \<Longrightarrow> eq_ignore_ascii_case a c"
  by (simp add: eq_ignore_ascii_case_def)

lemma eq_ignore_ascii_case_length: "eq_ignore_ascii_case a b \<Longrightarrow> length a = length b"
  unfolding eq_ignore_ascii_case_def to_ascii_lowercase_def by (metis length_map)

section \<open>UTF-8\<close>

definition is_cont :: "u8 \<Rightarrow> bool" where
  "is_cont b \<longleftrightarrow> 0x80 \<le> b \<and> b \<le> 0xBF"

definition cont_bits :: "u8 \<Rightarrow> nat" where
  "cont_bits b = unat b mod 64"

definition utf8_second_ok :: "u8 \<Rightarrow> u8 \<Rightarrow> bool" where
  "utf8_second_ok b0 b1 \<longleftrightarrow>
    (if b0 = 0xE0 then 0xA0 \<le> b1 \<and> b1 \<le> 0xBF
     else if b0 = 0xED then 0x80 \<le> b1 \<and> b1 \<le> 0x9F
     else if b0 = 0xF0 then 0x90 \<le> b1 \<and> b1 \<le> 0xBF
     else if b0 = 0xF4 then 0x80 \<le> b1 \<and> b1 \<le> 0x8F
     else is_cont b1)"

text \<open>\<open>std::str::from_utf8\<close> followed by \<open>chars()\<close>: the code points of well-formed UTF-8.\<close>

fun utf8_chars :: "bytes \<Rightarrow> nat list option" where
  "utf8_chars [] = Some []"
| "utf8_chars (b0 # r) =
    (if b0 < 0x80 then map_option (Cons (unat b0)) (utf8_chars r)
     else if 0xC2 \<le> b0 \<and> b0 \<le> 0xDF then
       (case r of
          b1 # r1 \<Rightarrow>
            if is_cont b1
            then map_option (Cons (unat b0 mod 32 * 64 + cont_bits b1)) (utf8_chars r1)
            else None
        | [] \<Rightarrow> None)
     else if 0xE0 \<le> b0 \<and> b0 \<le> 0xEF then
       (case r of
          b1 # b2 # r2 \<Rightarrow>
            if utf8_second_ok b0 b1 \<and> is_cont b2
            then map_option (Cons (unat b0 mod 16 * 4096 + cont_bits b1 * 64 + cont_bits b2)) (utf8_chars r2)
            else None
        | _ \<Rightarrow> None)
     else if 0xF0 \<le> b0 \<and> b0 \<le> 0xF4 then
       (case r of
          b1 # b2 # b3 # r3 \<Rightarrow>
            if utf8_second_ok b0 b1 \<and> is_cont b2 \<and> is_cont b3
            then map_option (Cons (unat b0 mod 8 * 262144 + cont_bits b1 * 4096 + cont_bits b2 * 64
                   + cont_bits b3)) (utf8_chars r3)
            else None
        | _ \<Rightarrow> None)
     else None)"

definition is_utf8 :: "bytes \<Rightarrow> bool" where
  "is_utf8 bs \<longleftrightarrow> utf8_chars bs \<noteq> None"

text \<open>\<open>String::push\<close> of a code point, and the bytes of a string.\<close>

definition utf8_push :: "nat \<Rightarrow> bytes" where
  "utf8_push c =
    (if c < 0x80 then [of_nat c]
     else if c < 0x800 then [of_nat (0xC0 + c div 64), of_nat (0x80 + c mod 64)]
     else if c < 0x10000 then
       [of_nat (0xE0 + c div 4096), of_nat (0x80 + c div 64 mod 64), of_nat (0x80 + c mod 64)]
     else
       [of_nat (0xF0 + c div 262144), of_nat (0x80 + c div 4096 mod 64),
        of_nat (0x80 + c div 64 mod 64), of_nat (0x80 + c mod 64)])"

definition utf8_encode :: "nat list \<Rightarrow> bytes" where
  "utf8_encode cs = concat (map utf8_push cs)"

lemma utf8_chars_ascii_Cons: "b < 0x80 \<Longrightarrow> utf8_chars (b # r) = map_option (Cons (unat b)) (utf8_chars r)"
  by simp

lemma utf8_chars_ascii: "list_all (\<lambda>b. b < 0x80) bs \<Longrightarrow> utf8_chars bs = Some (map unat bs)"
  by (induction bs) simp_all

lemma utf8_chars_two:
  assumes "0xC2 \<le> b0 \<and> b0 \<le> 0xDF" "is_cont b1"
  shows "utf8_chars (b0 # b1 # r) = map_option (Cons (unat b0 mod 32 * 64 + cont_bits b1)) (utf8_chars r)"
proof -
  have "\<not> b0 < 0x80" using assms(1) by (auto simp: word_less_nat_alt word_le_nat_alt)
  then show ?thesis using assms by simp
qed

lemma utf8_chars_low:
  assumes "c < 256"
  shows "utf8_chars (utf8_push c @ r) = map_option (Cons c) (utf8_chars r)"
proof (cases "c < 128")
  case True
  then have "(of_nat c :: u8) < 0x80" "unat (of_nat c :: u8) = c"
    by (simp_all add: word_less_nat_alt unat_of_nat)
  with True show ?thesis by (simp add: utf8_push_def)
next
  case False
  define q where "q = c div 64"
  have q: "q = 2 \<or> q = 3" and qr: "c = q * 64 + c mod 64" using False assms by (auto simp: q_def)
  have m: "c mod 64 < 64" by simp
  have u: "unat (of_nat (128 + c mod 64) :: u8) = 128 + c mod 64" using m by (intro unat_u8_of_nat) linarith
  have c2: "is_cont (of_nat (128 + c mod 64))"
    using m u by (simp add: is_cont_def word_le_nat_alt del: of_nat_add)
  have cb: "cont_bits (of_nat (128 + c mod 64)) = c mod 64"
    unfolding cont_bits_def u by (simp add: mod_add_eq [symmetric])
  have push: "utf8_push c = [of_nat (192 + q), of_nat (128 + c mod 64)]"
    using False assms by (simp add: utf8_push_def q_def)
  have b0: "0xC2 \<le> (of_nat (192 + q) :: u8) \<and> (of_nat (192 + q) :: u8) \<le> 0xDF"
    and b0m: "unat (of_nat (192 + q) :: u8) mod 32 = q" using q by auto
  show ?thesis unfolding push append_Cons append_Nil utf8_chars_two [OF b0 c2] b0m cb qr [symmetric] ..
qed

section \<open>Integers\<close>

definition digit_value :: "nat \<Rightarrow> u8 \<Rightarrow> nat option" where
  "digit_value radix b =
    (let v = (if 0x30 \<le> b \<and> b \<le> 0x39 then Some (unat b - 48)
              else if 0x61 \<le> b \<and> b \<le> 0x7A then Some (unat b - 87)
              else if 0x41 \<le> b \<and> b \<le> 0x5A then Some (unat b - 55)
              else None)
     in case v of Some d \<Rightarrow> if d < radix then Some d else None | None \<Rightarrow> None)"

fun parse_digits :: "nat \<Rightarrow> nat \<Rightarrow> nat \<Rightarrow> bytes \<Rightarrow> nat option" where
  "parse_digits radix limit acc [] = Some acc"
| "parse_digits radix limit acc (b # bs) =
    (case digit_value radix b of
       None \<Rightarrow> None
     | Some d \<Rightarrow> if limit \<le> acc * radix + d then None else parse_digits radix limit (acc * radix + d) bs)"

text \<open>
  \<open>from_str_radix\<close> of the unsigned integer type with values below \<open>limit\<close>: one leading plus
  sign is skipped, no digits are an error, and so is a value that does not fit.
\<close>

definition from_str_radix :: "nat \<Rightarrow> nat \<Rightarrow> bytes \<Rightarrow> nat option" where
  "from_str_radix radix limit s =
    (case s of
       [] \<Rightarrow> None
     | b # bs \<Rightarrow> if b = 0x2B then if bs = [] then None else parse_digits radix limit 0 bs
                  else parse_digits radix limit 0 s)"

definition parse_u64 :: "bytes \<Rightarrow> nat option" where
  "parse_u64 = from_str_radix 10 18446744073709551616"

definition parse_u8 :: "bytes \<Rightarrow> nat option" where
  "parse_u8 = from_str_radix 10 256"

lemma parse_digits_bound: "parse_digits radix limit acc s = Some n \<Longrightarrow> acc < limit \<Longrightarrow> n < limit"
  by (induction radix limit acc s rule: parse_digits.induct) (auto split: option.splits if_splits)

lemma from_str_radix_bound: "from_str_radix radix limit s = Some n \<Longrightarrow> n < limit"
proof (cases s)
  case (Cons b bs)
  assume a: "from_str_radix radix limit s = Some n"
  have "\<exists>c cs. cs \<noteq> [] \<and> parse_digits radix limit 0 cs = Some n"
    using a Cons by (auto simp: from_str_radix_def split: if_splits)
  then obtain cs where cs: "cs \<noteq> []" "parse_digits radix limit 0 cs = Some n" by auto
  then have "0 < limit" by (cases cs) (auto split: option.splits if_splits)
  with cs(2) show ?thesis by (rule parse_digits_bound)
qed (simp add: from_str_radix_def)

lemma parse_digits_append:
  "parse_digits radix limit acc (s @ t) =
    (case parse_digits radix limit acc s of None \<Rightarrow> None | Some a \<Rightarrow> parse_digits radix limit a t)"
  by (induction radix limit acc s rule: parse_digits.induct) (auto split: option.splits)

lemma ascii_digit_char: "d < 10 \<Longrightarrow> ascii [digit_char d] = [of_nat (48 + d)]"
  by (simp add: ascii_def digit_char_def of_char_of of_nat_of_char [symmetric, where ?'a = "8 word"] del: of_nat_of_char)

lemma digit_value_digit: "d < 10 \<Longrightarrow> digit_value 10 (of_nat (48 + d)) = Some d"
proof -
  assume d: "d < 10"
  have "unat (of_nat (48 + d) :: u8) = 48 + d" using d by (intro unat_u8_of_nat) linarith
  then show ?thesis using d by (simp add: digit_value_def word_le_nat_alt del: of_nat_add)
qed

lemma parse_digits_show: "n < limit \<Longrightarrow> parse_digits 10 limit 0 (ascii (show_nat n)) = Some n"
proof (induction n rule: show_nat.induct)
  case (1 n)
  show ?case
  proof (cases "n < 10")
    case True
    with 1 show ?thesis
      by (subst show_nat.simps) (simp add: ascii_digit_char digit_value_digit del: of_nat_add ascii_Cons)
  next
    case False
    have lt: "n div 10 < limit" using 1(2) by (meson div_le_dividend le_less_trans)
    have "parse_digits 10 limit 0 (ascii (show_nat (n div 10))) = Some (n div 10)"
      using 1(1) [OF False lt] .
    with False 1(2) show ?thesis
      by (subst show_nat.simps)
        (simp add: ascii_digit_char digit_value_digit parse_digits_append del: of_nat_add ascii_Cons)
  qed
qed

lemma show_nat_head: "\<exists>d s. d < 10 \<and> ascii (show_nat n) = of_nat (48 + d) # s"
proof (induction n rule: show_nat.induct)
  case (1 n)
  show ?case
  proof (cases "n < 10")
    case True
    then show ?thesis by (subst show_nat.simps) (auto simp: ascii_digit_char simp del: of_nat_add ascii_Cons)
  next
    case False
    with 1 show ?thesis by (subst show_nat.simps) (auto simp del: of_nat_add)
  qed
qed

text \<open>Printing and parsing are inverse on every value of the type.\<close>

lemma from_str_radix_show: "n < limit \<Longrightarrow> from_str_radix 10 limit (ascii (show_nat n)) = Some n"
proof -
  assume n: "n < limit"
  obtain d s where d: "d < 10" "ascii (show_nat n) = of_nat (48 + d) # s" using show_nat_head by blast
  have "unat (of_nat (48 + d) :: u8) = 48 + d" using d(1) by (intro unat_u8_of_nat) linarith
  then have "(of_nat (48 + d) :: u8) \<noteq> 0x2B" using d(1) by (auto dest: arg_cong [of _ _ unat] simp del: of_nat_add)
  then show ?thesis using parse_digits_show [OF n] d(2) by (simp add: from_str_radix_def del: of_nat_add)
qed

lemma show_nat_ascii: "list_all (\<lambda>b. b < 0x80) (ascii (show_nat n))"
proof (induction n rule: show_nat.induct)
  case (1 n)
  have *: "d < 10 \<Longrightarrow> of_nat (48 + d) < (0x80 :: u8)" for d
    by (simp add: word_less_nat_alt unat_of_nat del: of_nat_add)
  show ?case using 1 * [of n] * [of "n mod 10"]
    by (subst show_nat.simps) (simp add: ascii_digit_char del: of_nat_add ascii_Cons)
qed

section \<open>Splitting, trimming, joining\<close>

fun split_on :: "'a \<Rightarrow> 'a list \<Rightarrow> 'a list list" where
  "split_on x [] = [[]]"
| "split_on x (y # ys) =
    (if y = x then [] # split_on x ys
     else (case split_on x ys of [] \<Rightarrow> [[y]] | p # ps \<Rightarrow> (y # p) # ps))"

fun join_with :: "'a list \<Rightarrow> 'a list list \<Rightarrow> 'a list" where
  "join_with sep [] = []"
| "join_with sep [x] = x"
| "join_with sep (x # y # xs) = x @ sep @ join_with sep (y # xs)"

lemma split_on_nonempty [simp]: "split_on x ys \<noteq> []"
  by (induction ys) (auto split: list.splits)

lemma split_on_no_sep: "x \<notin> set ys \<Longrightarrow> split_on x ys = [ys]"
  by (induction ys) auto

lemma split_on_append: "x \<notin> set ys \<Longrightarrow> split_on x (ys @ x # zs) = ys # split_on x zs"
  by (induction ys) auto

lemma split_join:
  "xs \<noteq> [] \<Longrightarrow> (\<And>y. y \<in> set xs \<Longrightarrow> x \<notin> set y) \<Longrightarrow> split_on x (join_with [x] xs) = xs"
proof (induction "[x]" xs rule: join_with.induct)
  case (3 a b c)
  then show ?case by (simp add: split_on_append)
qed (simp_all add: split_on_no_sep)

lemma join_split: "join_with [x] (split_on x ys) = ys"
proof (induction ys)
  case (Cons y ys)
  obtain p ps where s: "split_on x ys = p # ps" by (meson neq_Nil_conv split_on_nonempty)
  show ?case
    using Cons s by (cases ps) auto
qed simp

definition is_unicode_whitespace :: "nat \<Rightarrow> bool" where
  "is_unicode_whitespace c \<longleftrightarrow>
    9 \<le> c \<and> c \<le> 13 \<or> c = 0x20 \<or> c = 0x85 \<or> c = 0xA0 \<or> c = 0x1680 \<or> 0x2000 \<le> c \<and> c \<le> 0x200A
    \<or> c = 0x2028 \<or> c = 0x2029 \<or> c = 0x202F \<or> c = 0x205F \<or> c = 0x3000"

definition trim_chars :: "nat list \<Rightarrow> nat list" where
  "trim_chars cs = rev (dropWhile is_unicode_whitespace (rev (dropWhile is_unicode_whitespace cs)))"

text \<open>A function that may panic: the panic is a value, so that it can be ruled out or exhibited.\<close>

datatype 'a may_panic = Panics | Returns 'a

end
