(* ===== verification/Grpc_Headers.thy ===== *)
theory Grpc_Headers
  imports Rust_Text
begin

text \<open>
  gRPC request headers (src/src/grpc/headers.rs): recognising gRPC by its content type, the
  \<open>grpc-timeout\<close> format, message encodings, and collecting and rebuilding the gRPC headers of a
  request.  A \<open>Duration\<close> is its number of nanoseconds, a \<open>String\<close> its bytes.
\<close>

definition GRPC_CONTENT_TYPE_PREFIX :: bytes where
  "GRPC_CONTENT_TYPE_PREFIX = ascii ''application/grpc''"

definition GRPC_CONTENT_TYPE_PROTO :: bytes where
  "GRPC_CONTENT_TYPE_PROTO = ascii ''application/grpc+proto''"

definition is_grpc_content_type :: "bytes \<Rightarrow> bool" where
  "is_grpc_content_type ct \<longleftrightarrow>
    length ct \<ge> length GRPC_CONTENT_TYPE_PREFIX
    \<and> eq_ignore_ascii_case (take (length GRPC_CONTENT_TYPE_PREFIX) ct) GRPC_CONTENT_TYPE_PREFIX"

definition is_grpc_request :: "(bytes \<times> bytes) list \<Rightarrow> bool" where
  "is_grpc_request headers \<longleftrightarrow>
    list_ex (\<lambda>(name, v). eq_ignore_ascii_case name (ascii ''content-type'') \<and> is_grpc_content_type v) headers"

section \<open>Timeouts\<close>

definition u64_mul :: "nat \<Rightarrow> nat \<Rightarrow> nat" where
  "u64_mul a b = a * b mod 18446744073709551616"

text \<open>
  \<open>split_at\<close> panics when its index is inside a character, which for the last byte of valid
  UTF-8 means that this byte is not ASCII.  The products are \<open>u64\<close>.
\<close>

definition parse_grpc_timeout :: "bytes \<Rightarrow> nat option may_panic" where
  "parse_grpc_timeout v =
    (if v = [] then Returns None
     else if \<not> is_utf8 v then Returns None
     else if 0x80 \<le> last v then Panics
     else
       case parse_u64 (butlast v) of
         None \<Rightarrow> Returns None
       | Some num \<Rightarrow>
           Returns
             (if last v = 0x48 then Some (u64_mul num 3600 * 1000000000)
              else if last v = 0x4D then Some (u64_mul num 60 * 1000000000)
              else if last v = 0x53 then Some (num * 1000000000)
              else if last v = 0x6D then Some (num * 1000000)
              else if last v = 0x75 then Some (num * 1000)
              else if last v = 0x6E then Some num
              else None))"

definition format_grpc_timeout :: "nat \<Rightarrow> string" where
  "format_grpc_timeout duration =
    (let nanos = duration;
         as_secs = duration div 1000000000
     in if nanos = 0 then ''0n''
        else
          let hours = as_secs div 3600
          in if hours > 0 \<and> as_secs mod 3600 = 0 then show_nat hours @ ''H''
             else
               let minutes = as_secs div 60
               in if minutes > 0 \<and> as_secs mod 60 = 0 then show_nat minutes @ ''M''
                  else
                    let secs = as_secs
                    in if secs > 0 \<and> duration mod 1000000000 = 0 then show_nat secs @ ''S''
                       else
                         let millis = duration div 1000000
                         in if millis > 0 \<and> nanos mod 1000000 = 0 then show_nat millis @ ''m''
                            else
                              let micros = duration div 1000
                              in if micros > 0 \<and> nanos mod 1000 = 0 then show_nat micros @ ''u''
                                 else show_nat nanos @ ''n'')"

section \<open>Encodings\<close>

datatype grpc_encoding = Identity | Gzip | Deflate

definition encoding_from_bytes :: "bytes \<Rightarrow> grpc_encoding option" where
  "encoding_from_bytes v =
    (if eq_ignore_ascii_case v (ascii ''identity'') then Some Identity
     else if eq_ignore_ascii_case v (ascii ''gzip'') then Some Gzip
     else if eq_ignore_ascii_case v (ascii ''deflate'') then Some Deflate
     else None)"

fun encoding_as_bytes :: "grpc_encoding \<Rightarrow> bytes" where
  "encoding_as_bytes Identity = ascii ''identity''"
| "encoding_as_bytes Gzip = ascii ''gzip''"
| "encoding_as_bytes Deflate = ascii ''deflate''"

definition is_compressed :: "grpc_encoding \<Rightarrow> bool" where
  "is_compressed e \<longleftrightarrow> e \<noteq> Identity"

section \<open>Header collection\<close>

record grpc_headers =
  gh_timeout :: "nat option"
  gh_encoding :: grpc_encoding
  gh_accept_encoding :: "grpc_encoding list"
  gh_message_type :: "bytes option"
  gh_authority :: "bytes option"
  gh_path :: "bytes option"

definition grpc_headers_new :: grpc_headers where
  "grpc_headers_new =
    \<lparr>gh_timeout = None, gh_encoding = Identity, gh_accept_encoding = [], gh_message_type = None,
     gh_authority = None, gh_path = None\<rparr>"

definition parse_accept_encoding :: "bytes \<Rightarrow> grpc_encoding list" where
  "parse_accept_encoding v =
    (case utf8_chars v of
       None \<Rightarrow> []
     | Some s \<Rightarrow> List.map_filter (\<lambda>part. encoding_from_bytes (utf8_encode (trim_chars part))) (split_on 0x2C s))"

definition string_of_bytes :: "bytes \<Rightarrow> bytes option" where
  "string_of_bytes v = (if is_utf8 v then Some v else None)"

definition from_headers_step :: "bytes \<times> bytes \<Rightarrow> grpc_headers \<Rightarrow> grpc_headers may_panic" where
  "from_headers_step nv result =
    (let name = fst nv; v = snd nv
     in if eq_ignore_ascii_case name (ascii ''grpc-timeout'') then
          (case parse_grpc_timeout v of Panics \<Rightarrow> Panics | Returns t \<Rightarrow> Returns (result\<lparr>gh_timeout := t\<rparr>))
        else if eq_ignore_ascii_case name (ascii ''grpc-encoding'') then
          Returns (result\<lparr>gh_encoding := (case encoding_from_bytes v of Some e \<Rightarrow> e | None \<Rightarrow> Identity)\<rparr>)
        else if eq_ignore_ascii_case name (ascii ''grpc-accept-encoding'') then
          Returns (result\<lparr>gh_accept_encoding := parse_accept_encoding v\<rparr>)
        else if eq_ignore_ascii_case name (ascii ''grpc-message-type'') then
          Returns (result\<lparr>gh_message_type := string_of_bytes v\<rparr>)
        else if name = ascii '':authority'' then Returns (result\<lparr>gh_authority := string_of_bytes v\<rparr>)
        else if name = ascii '':path'' then Returns (result\<lparr>gh_path := string_of_bytes v\<rparr>)
        else Returns result)"

fun from_headers_loop :: "(bytes \<times> bytes) list \<Rightarrow> grpc_headers \<Rightarrow> grpc_headers may_panic" where
  "from_headers_loop [] result = Returns result"
| "from_headers_loop (nv # headers) result =
    (case from_headers_step nv result of Panics \<Rightarrow> Panics | Returns r \<Rightarrow> from_headers_loop headers r)"

definition from_headers :: "(bytes \<times> bytes) list \<Rightarrow> grpc_headers may_panic" where
  "from_headers headers = from_headers_loop headers grpc_headers_new"

text \<open>\<open>rfind\<close> of a byte: what stands before and after its last occurrence.\<close>

definition rsplit_last :: "u8 \<Rightarrow> bytes \<Rightarrow> (bytes \<times> bytes) option" where
  "rsplit_last c p =
    (if c \<in> set p
     then Some (rev (tl (dropWhile (\<lambda>b. b \<noteq> c) (rev p))), rev (takeWhile (\<lambda>b. b \<noteq> c) (rev p)))
     else None)"

definition service_name :: "grpc_headers \<Rightarrow> bytes option" where
  "service_name h =
    (case gh_path h of
       None \<Rightarrow> None
     | Some p \<Rightarrow>
         (case p of
            [] \<Rightarrow> None
          | b # q \<Rightarrow> if b = 0x2F then map_option fst (rsplit_last 0x2F q) else None))"

definition method_name :: "grpc_headers \<Rightarrow> bytes option" where
  "method_name h = (case gh_path h of None \<Rightarrow> None | Some p \<Rightarrow> map_option snd (rsplit_last 0x2F p))"

definition to_request_headers :: "grpc_headers \<Rightarrow> (bytes \<times> bytes) list" where
  "to_request_headers h =
    [(ascii ''content-type'', GRPC_CONTENT_TYPE_PROTO)]
    @ (case gh_timeout h of
         Some timeout \<Rightarrow> [(ascii ''grpc-timeout'', ascii (format_grpc_timeout timeout))]
       | None \<Rightarrow> [])
    @ (if is_compressed (gh_encoding h)
       then [(ascii ''grpc-encoding'', encoding_as_bytes (gh_encoding h))] else [])
    @ (if gh_accept_encoding h \<noteq> []
       then [(ascii ''grpc-accept-encoding'', join_with [0x2C] (map encoding_as_bytes (gh_accept_encoding h)))]
       else [])"

section \<open>Lemmas\<close>

lemma parse_timeout_unit:
  assumes "n < 18446744073709551616" "u < 0x80"
  shows "parse_grpc_timeout (ascii (show_nat n) @ [u]) =
    Returns
      (if u = 0x48 then Some (u64_mul n 3600 * 1000000000)
       else if u = 0x4D then Some (u64_mul n 60 * 1000000000)
       else if u = 0x53 then Some (n * 1000000000)
       else if u = 0x6D then Some (n * 1000000)
       else if u = 0x75 then Some (n * 1000)
       else if u = 0x6E then Some n
       else None)"
proof -
  have "list_all (\<lambda>b. b < 0x80) (ascii (show_nat n) @ [u])" using show_nat_ascii assms(2) by simp
  then have "is_utf8 (ascii (show_nat n) @ [u])" by (simp add: is_utf8_def utf8_chars_ascii)
  moreover have "\<not> 0x80 \<le> u" using assms(2) by simp
  moreover have "parse_u64 (ascii (show_nat n)) = Some n"
    unfolding parse_u64_def by (rule from_str_radix_show [OF assms(1)])
  ultimately show ?thesis by (simp add: parse_grpc_timeout_def)
qed

text \<open>
  Hours and minutes are chosen by looking at the whole seconds only, so a fraction of a second is
  lost exactly when the whole seconds are a positive multiple of a minute.
\<close>

definition timeout_kept :: "nat \<Rightarrow> nat" where
  "timeout_kept d =
    (let s = d div 1000000000 in if 0 < s \<and> s mod 60 = 0 then s * 1000000000 else d)"

lemma parse_format_timeout:
  assumes "d < 18446744073709551616"
  shows "parse_grpc_timeout (ascii (format_grpc_timeout d)) = Returns (Some (timeout_kept d))"
proof -
  define s where "s = d div 1000000000"
  have sd: "s \<le> d" and sl: "s < 18446744074" using assms by (auto simp: s_def)
  have unit: "parse_grpc_timeout (ascii (show_nat n) @ [u]) =
    Returns
      (if u = 0x48 then Some (u64_mul n 3600 * 1000000000)
       else if u = 0x4D then Some (u64_mul n 60 * 1000000000)
       else if u = 0x53 then Some (n * 1000000000)
       else if u = 0x6D then Some (n * 1000000)
       else if u = 0x75 then Some (n * 1000)
       else if u = 0x6E then Some n
       else None)" if "n \<le> d" "u < 0x80" for n u
    using that assms by (intro parse_timeout_unit) auto
  have kept: "timeout_kept d = (if 0 < s \<and> s mod 60 = 0 then s * 1000000000 else d)"
    by (simp add: timeout_kept_def s_def Let_def)
  consider (zero) "d = 0" | (hours) "d \<noteq> 0" "s div 3600 > 0 \<and> s mod 3600 = 0"
    | (minutes) "d \<noteq> 0" "\<not> (s div 3600 > 0 \<and> s mod 3600 = 0)" "s div 60 > 0 \<and> s mod 60 = 0"
    | (secs) "d \<noteq> 0" "\<not> (s div 3600 > 0 \<and> s mod 3600 = 0)" "\<not> (s div 60 > 0 \<and> s mod 60 = 0)"
    by blast
  then show ?thesis
  proof cases
    case zero
    have "ascii ''0n'' = ascii (show_nat 0) @ [0x6E]"
      using ascii_digit_char [of 0] by (simp add: show_nat.simps)
    then show ?thesis using zero parse_timeout_unit [of 0 "0x6E"]
      by (simp add: format_grpc_timeout_def timeout_kept_def del: ascii_Cons)
  next
    case hours
    have "3600 dvd s" using hours by auto
    then have "60 dvd s" by (rule dvd_trans [rotated]) simp
    have "s div 3600 * 3600 = s" "s div 3600 \<le> d" using hours sd by auto
    moreover from this have "u64_mul (s div 3600) 3600 = s" using sl by (simp add: u64_mul_def)
    moreover have "s mod 60 = 0" "0 < s" using hours \<open>60 dvd s\<close> by auto
    moreover have "format_grpc_timeout d = show_nat (s div 3600) @ ''H''"
      using hours by (simp add: format_grpc_timeout_def s_def Let_def)
    ultimately show ?thesis by (simp add: unit kept)
  next
    case minutes
    have "s div 60 * 60 = s" "s div 60 \<le> d" using minutes sd by auto
    moreover from this have "u64_mul (s div 60) 60 = s" using sl by (simp add: u64_mul_def)
    moreover have "format_grpc_timeout d = show_nat (s div 60) @ ''M''"
      using minutes unfolding format_grpc_timeout_def s_def [symmetric] Let_def by auto
    ultimately show ?thesis using minutes by (simp add: unit kept)
  next
    case secs
    have k: "timeout_kept d = d" using secs by (auto simp: kept)
    let ?f = "if s > 0 \<and> d mod 1000000000 = 0 then show_nat s @ ''S''
      else if d div 1000000 > 0 \<and> d mod 1000000 = 0 then show_nat (d div 1000000) @ ''m''
      else if d div 1000 > 0 \<and> d mod 1000 = 0 then show_nat (d div 1000) @ ''u'' else show_nat d @ ''n''"
    have f: "format_grpc_timeout d = ?f"
      using secs unfolding format_grpc_timeout_def s_def [symmetric] Let_def by (simp only: if_False if_True)
    show ?thesis
    proof (cases "s > 0 \<and> d mod 1000000000 = 0")
      case True
      then have "s * 1000000000 = d" by (auto simp: s_def)
      then show ?thesis unfolding f k using True by (simp add: unit sd)
    next
      case False
      have "d mod 1000000 = 0 \<Longrightarrow> d div 1000000 * 1000000 = d" "d mod 1000 = 0 \<Longrightarrow> d div 1000 * 1000 = d" by auto
      then show ?thesis unfolding f k if_not_P [OF False] by (auto simp: unit)
    qed
  qed
qed

lemma encoding_from_as_bytes [simp]: "encoding_from_bytes (encoding_as_bytes e) = Some e"
  by (cases e) (simp_all add: encoding_from_bytes_def eq_ignore_ascii_case_def to_ascii_lowercase_def u8_to_ascii_lowercase_def)

lemma accept_part:
  "encoding_from_bytes (utf8_encode (trim_chars (map unat (encoding_as_bytes e)))) = Some e"
  "0x2C \<notin> set (map unat (encoding_as_bytes e))"
  "list_all (\<lambda>b. b < 0x80) (encoding_as_bytes e)"
  by (cases e; simp add: trim_chars_def is_unicode_whitespace_def utf8_encode_def utf8_push_def
      encoding_from_bytes_def eq_ignore_ascii_case_def to_ascii_lowercase_def u8_to_ascii_lowercase_def)+

lemma list_all_join: "list_all P sep \<Longrightarrow> (\<And>x. x \<in> set xs \<Longrightarrow> list_all P x) \<Longrightarrow> list_all P (join_with sep xs)"
  by (induction sep xs rule: join_with.induct) auto

lemma map_join: "map f (join_with sep xs) = join_with (map f sep) (map (map f) xs)"
  by (induction sep xs rule: join_with.induct) auto

lemma parse_accept_encoding_join:
  assumes "es \<noteq> []"
  shows "parse_accept_encoding (join_with [0x2C] (map encoding_as_bytes es)) = es"
proof -
  let ?v = "join_with [0x2C] (map encoding_as_bytes es)"
  have "list_all (\<lambda>b. b < 0x80) ?v" by (rule list_all_join) (auto simp: accept_part)
  then have "utf8_chars ?v = Some (map unat ?v)" by (rule utf8_chars_ascii)
  also have "map unat ?v = join_with [0x2C] (map (map unat \<circ> encoding_as_bytes) es)" by (simp add: map_join)
  finally have u: "utf8_chars ?v = Some (join_with [0x2C] (map (map unat \<circ> encoding_as_bytes) es))" .
  have s: "split_on 0x2C (join_with [0x2C] (map (map unat \<circ> encoding_as_bytes) es)) = map (map unat \<circ> encoding_as_bytes) es"
    using assms accept_part(2) by (intro split_join) auto
  have "List.map_filter (\<lambda>part. encoding_from_bytes (utf8_encode (trim_chars part))) (map (map unat \<circ> encoding_as_bytes) xs) = xs" for xs
    by (induction xs) (simp_all add: accept_part)
  then show ?thesis by (simp add: parse_accept_encoding_def u s)
qed

section \<open>Properties\<close>



text \<open>
  A timeout value whose last character is not ASCII makes the parser panic: here the digit one
  followed by the micro sign.
\<close>

lemma grpc_timeout_panics: "parse_grpc_timeout [0x31, 0xC2, 0xB5] = Panics"
  by (simp add: parse_grpc_timeout_def is_utf8_def is_cont_def)

text \<open>The hours of an over-long timeout wrap around at 64 bits: the 60th power of two hours is read as zero.\<close>

lemma grpc_timeout_wraps:
  "parse_grpc_timeout (ascii (show_nat 1152921504606846976) @ [0x48]) = Returns (Some 0)"
  by (simp add: parse_timeout_unit u64_mul_def)

end
