(* ===== verification/Grpc_Status.thy ===== *)
theory Grpc_Status
  imports Rust_Text
begin

text \<open>
  gRPC status codes and the status trailers (src/src/grpc/status.rs).  A message is a list of
  code points, because the percent encoding works character by character.
\<close>

datatype grpc_status_code =
    StatusOk | Cancelled | Unknown | InvalidArgument | DeadlineExceeded | NotFound | AlreadyExists
  | PermissionDenied | ResourceExhausted | FailedPrecondition | Aborted | OutOfRange | Unimplemented
  | Internal | Unavailable | DataLoss | Unauthenticated

definition status_from_u8 :: "nat \<Rightarrow> grpc_status_code option" where
  "status_from_u8 v =
    (if v = 0 then Some StatusOk
     else if v = 1 then Some Cancelled
     else if v = 2 then Some Unknown
     else if v = 3 then Some InvalidArgument
     else if v = 4 then Some DeadlineExceeded
     else if v = 5 then Some NotFound
     else if v = 6 then Some AlreadyExists
     else if v = 7 then Some PermissionDenied
     else if v = 8 then Some ResourceExhausted
     else if v = 9 then Some FailedPrecondition
     else if v = 10 then Some Aborted
     else if v = 11 then Some OutOfRange
     else if v = 12 then Some Unimplemented
     else if v = 13 then Some Internal
     else if v = 14 then Some Unavailable
     else if v = 15 then Some DataLoss
     else if v = 16 then Some Unauthenticated
     else None)"

definition status_parse_str :: "bytes \<Rightarrow> grpc_status_code option" where
  "status_parse_str s = (case parse_u8 s of None \<Rightarrow> None | Some v \<Rightarrow> status_from_u8 v)"

definition status_from_bytes :: "bytes \<Rightarrow> grpc_status_code option" where
  "status_from_bytes bs = (if is_utf8 bs then status_parse_str bs else None)"

fun status_as_u8 :: "grpc_status_code \<Rightarrow> nat" where
  "status_as_u8 StatusOk = 0"
| "status_as_u8 Cancelled = 1"
| "status_as_u8 Unknown = 2"
| "status_as_u8 InvalidArgument = 3"
| "status_as_u8 DeadlineExceeded = 4"
| "status_as_u8 NotFound = 5"
| "status_as_u8 AlreadyExists = 6"
| "status_as_u8 PermissionDenied = 7"
| "status_as_u8 ResourceExhausted = 8"
| "status_as_u8 FailedPrecondition = 9"
| "status_as_u8 Aborted = 10"
| "status_as_u8 OutOfRange = 11"
| "status_as_u8 Unimplemented = 12"
| "status_as_u8 Internal = 13"
| "status_as_u8 Unavailable = 14"
| "status_as_u8 DataLoss = 15"
| "status_as_u8 Unauthenticated = 16"

definition status_is_ok :: "grpc_status_code \<Rightarrow> bool" where
  "status_is_ok c \<longleftrightarrow> c = StatusOk"

definition status_is_error :: "grpc_status_code \<Rightarrow> bool" where
  "status_is_error c \<longleftrightarrow> c \<noteq> StatusOk"

fun status_description :: "grpc_status_code \<Rightarrow> string" where
  "status_description StatusOk = ''OK''"
| "status_description Cancelled = ''Cancelled''"
| "status_description Unknown = ''Unknown''"
| "status_description InvalidArgument = ''Invalid Argument''"
| "status_description DeadlineExceeded = ''Deadline Exceeded''"
| "status_description NotFound = ''Not Found''"
| "status_description AlreadyExists = ''Already Exists''"
| "status_description PermissionDenied = ''Permission Denied''"
| "status_description ResourceExhausted = ''Resource Exhausted''"
| "status_description FailedPrecondition = ''Failed Precondition''"
| "status_description Aborted = ''Aborted''"
| "status_description OutOfRange = ''Out of Range''"
| "status_description Unimplemented = ''Unimplemented''"
| "status_description Internal = ''Internal''"
| "status_description Unavailable = ''Unavailable''"
| "status_description DataLoss = ''Data Loss''"
| "status_description Unauthenticated = ''Unauthenticated''"

definition from_http_status :: "u16 \<Rightarrow> grpc_status_code" where
  "from_http_status h =
    (if h = 200 then StatusOk
     else if h = 400 then InvalidArgument
     else if h = 401 then Unauthenticated
     else if h = 403 then PermissionDenied
     else if h = 404 then NotFound
     else if h = 409 then Aborted
     else if h = 429 then ResourceExhausted
     else if h = 499 then Cancelled
     else if h = 500 then Internal
     else if h = 501 then Unimplemented
     else if h = 503 then Unavailable
     else if h = 504 then DeadlineExceeded
     else if 200 \<le> h \<and> h < 300 then StatusOk
     else if 400 \<le> h \<and> h < 500 then InvalidArgument
     else Unknown)"

fun to_http_status :: "grpc_status_code \<Rightarrow> u16" where
  "to_http_status StatusOk = 200"
| "to_http_status Cancelled = 499"
| "to_http_status Unknown = 500"
| "to_http_status InvalidArgument = 400"
| "to_http_status DeadlineExceeded = 504"
| "to_http_status NotFound = 404"
| "to_http_status AlreadyExists = 409"
| "to_http_status PermissionDenied = 403"
| "to_http_status ResourceExhausted = 429"
| "to_http_status FailedPrecondition = 400"
| "to_http_status Aborted = 409"
| "to_http_status OutOfRange = 400"
| "to_http_status Unimplemented = 501"
| "to_http_status Internal = 500"
| "to_http_status Unavailable = 503"
| "to_http_status DataLoss = 500"
| "to_http_status Unauthenticated = 401"

definition status_display :: "grpc_status_code \<Rightarrow> string" where
  "status_display c = show_nat (status_as_u8 c)"

section \<open>Status with message\<close>

record grpc_status =
  st_code :: grpc_status_code
  st_message :: "nat list option"
  st_details :: "bytes option"

definition grpc_status_ok :: grpc_status where
  "grpc_status_ok = \<lparr>st_code = StatusOk, st_message = None, st_details = None\<rparr>"

definition grpc_status_error :: "grpc_status_code \<Rightarrow> nat list \<Rightarrow> grpc_status" where
  "grpc_status_error c m = \<lparr>st_code = c, st_message = Some m, st_details = None\<rparr>"

definition grpc_status_from_code :: "grpc_status_code \<Rightarrow> grpc_status" where
  "grpc_status_from_code c = \<lparr>st_code = c, st_message = None, st_details = None\<rparr>"

text \<open>\<open>{:02X}\<close>: upper-case hexadecimal, at least two digits.\<close>

definition hex_digit :: "nat \<Rightarrow> u8" where
  "hex_digit d = (if d < 10 then of_nat (48 + d) else of_nat (55 + d))"

fun show_hex :: "nat \<Rightarrow> bytes" where
  "show_hex n = (if n < 16 then [hex_digit n] else show_hex (n div 16) @ [hex_digit (n mod 16)])"

declare show_hex.simps [simp del]

definition format_02X :: "nat \<Rightarrow> bytes" where
  "format_02X n = (if n < 16 then [0x30, hex_digit n] else show_hex n)"

definition is_unreserved :: "nat \<Rightarrow> bool" where
  "is_unreserved c \<longleftrightarrow>
    48 \<le> c \<and> c \<le> 57 \<or> 65 \<le> c \<and> c \<le> 90 \<or> 97 \<le> c \<and> c \<le> 122 \<or> c \<in> {45, 95, 46, 126}"

definition encode_char :: "nat \<Rightarrow> bytes" where
  "encode_char c = (if is_unreserved c then [of_nat c] else 0x25 # format_02X c)"

definition encoded_message :: "grpc_status \<Rightarrow> bytes option" where
  "encoded_message st = map_option (\<lambda>m. concat (map encode_char m)) (st_message st)"

function decode_message_loop :: "nat list \<Rightarrow> nat list" where
  "decode_message_loop [] = []"
| "decode_message_loop (c # cs) =
    (if c = 0x25
     then
       let hex = utf8_encode (take 2 cs)
       in (if length hex = 2
           then (case from_str_radix 16 256 hex of Some byte \<Rightarrow> [byte] | None \<Rightarrow> [])
           else []) @ decode_message_loop (drop 2 cs)
     else c # decode_message_loop cs)"
  by pat_completeness auto

termination
  by (relation "measure length") auto

definition decode_message :: "bytes \<Rightarrow> nat list option" where
  "decode_message encoded = map_option decode_message_loop (utf8_chars encoded)"

definition to_trailers :: "grpc_status \<Rightarrow> (bytes \<times> bytes) list" where
  "to_trailers st =
    [(ascii ''grpc-status'', ascii (status_display (st_code st)))]
    @ (case encoded_message st of Some msg \<Rightarrow> [(ascii ''grpc-message'', msg)] | None \<Rightarrow> [])"

section \<open>Lemmas\<close>

lemma status_from_as_u8 [simp]: "status_from_u8 (status_as_u8 c) = Some c"
  by (cases c) (simp_all add: status_from_u8_def)

lemma status_as_u8_bound: "status_as_u8 c \<le> 16"
  by (cases c) simp_all

lemma status_from_display: "status_from_bytes (ascii (status_display c)) = Some c"
proof -
  have "parse_u8 (ascii (show_nat (status_as_u8 c))) = Some (status_as_u8 c)"
    unfolding parse_u8_def using status_as_u8_bound [of c] by (intro from_str_radix_show) simp
  then show ?thesis
    using show_nat_ascii [of "status_as_u8 c"]
    by (simp add: status_from_bytes_def status_parse_str_def status_display_def is_utf8_def utf8_chars_ascii)
qed

lemma unat_hex_digit: "d < 16 \<Longrightarrow> unat (hex_digit d) = (if d < 10 then 48 + d else 55 + d)"
  unfolding hex_digit_def by (auto simp del: of_nat_add simp: unat_u8_of_nat)

lemma hex_digit_ascii: "d < 16 \<Longrightarrow> hex_digit d < 0x80"
  by (simp add: word_less_nat_alt unat_hex_digit)

lemma digit_value_hex: "d < 16 \<Longrightarrow> digit_value 16 (hex_digit d) = Some d"
  by (auto simp: digit_value_def word_le_nat_alt unat_hex_digit Let_def)

lemma format_02X_two: "c < 256 \<Longrightarrow> format_02X c = [hex_digit (c div 16), hex_digit (c mod 16)]"
  by (auto simp: format_02X_def show_hex.simps [of c] show_hex.simps [of "c div 16"]) (simp add: hex_digit_def)

lemma parse_hex_two:
  assumes "c < 256"
  shows "from_str_radix 16 256 [hex_digit (c div 16), hex_digit (c mod 16)] = Some c"
proof -
  have d: "c div 16 < 16" using assms by auto
  have "hex_digit (c div 16) \<noteq> 0x2B"
    using unat_hex_digit [OF d] by (auto dest: arg_cong [of _ _ unat] split: if_splits)
  then show ?thesis using d assms by (simp add: from_str_radix_def digit_value_hex)
qed

lemma encode_char_ascii: "c < 256 \<Longrightarrow> list_all (\<lambda>b. b < 0x80) (encode_char c)"
proof -
  assume c: "c < 256"
  then have d: "c div 16 < 16" by auto
  have "is_unreserved c \<Longrightarrow> c < 128" by (auto simp: is_unreserved_def)
  then show ?thesis using c d
    using hex_digit_ascii [OF d] hex_digit_ascii [of "c mod 16"]
    by (simp add: encode_char_def format_02X_two) (simp add: word_less_nat_alt unat_u8_of_nat)
qed

lemma utf8_push_ascii: "b < 0x80 \<Longrightarrow> utf8_push (unat (b :: u8)) = [b]"
  by (simp add: utf8_push_def word_less_nat_alt)

lemma decode_encode_char:
  assumes "c < 256"
  shows "decode_message_loop (map unat (encode_char c) @ rest) = c # decode_message_loop rest"
proof (cases "is_unreserved c")
  case True
  then have "c \<noteq> 0x25" "c < 128" by (auto simp: is_unreserved_def)
  then show ?thesis using True by (simp add: encode_char_def unat_u8_of_nat)
next
  case False
  have d: "c div 16 < 16" using assms by auto
  have h: "hex_digit (c div 16) < 0x80" "hex_digit (c mod 16) < 0x80" using d by (simp_all add: hex_digit_ascii)
  have "utf8_encode [unat (hex_digit (c div 16)), unat (hex_digit (c mod 16))] = [hex_digit (c div 16), hex_digit (c mod 16)]"
    by (simp add: utf8_encode_def utf8_push_ascii h)
  then show ?thesis using False assms
    by (simp add: encode_char_def format_02X_two parse_hex_two)
qed

lemma decode_message_encoded:
  assumes "\<And>c. c \<in> set m \<Longrightarrow> c < 256"
  shows "decode_message (concat (map encode_char m)) = Some m"
proof -
  have "list_all (\<lambda>b. b < 0x80) (concat (map encode_char m))"
    using assms encode_char_ascii by (fastforce simp: list_all_iff)
  then have "decode_message (concat (map encode_char m)) = Some (decode_message_loop (map unat (concat (map encode_char m))))"
    by (simp add: decode_message_def utf8_chars_ascii)
  also have "decode_message_loop (map unat (concat (map encode_char m))) = m"
    using assms by (induction m) (simp_all add: decode_encode_char)
  finally show ?thesis .
qed

section \<open>Properties\<close>



text \<open>
  Beyond code point 255 the percent encoding prints more than two digits and does not read back:
  the euro sign comes back as a space followed by the letters \<open>AC\<close>.
\<close>

lemma grpc_message_euro:
  "encoded_message (grpc_status_error Internal [0x20AC]) = Some (ascii ''%20AC'')"
  "decode_message (ascii ''%20AC'') = Some [0x20, 65, 67]"
  by (simp_all add: encoded_message_def grpc_status_error_def encode_char_def is_unreserved_def format_02X_def
      show_hex.simps hex_digit_def decode_message_def utf8_encode_def utf8_push_def
      from_str_radix_def digit_value_def)

end
