(* ===== verification/Grpc_Web.thy ===== *)
theory Grpc_Web
  imports Rust_Text
begin

text \<open>
  gRPC-Web (src/src/grpc/web.rs): content types, the cross-origin headers of a route, the trailer
  frame appended to a response body, and the base64 form of text bodies.  A \<open>String\<close> is its bytes.
\<close>

definition GRPC_WEB_CONTENT_TYPE_PREFIX :: bytes where
  "GRPC_WEB_CONTENT_TYPE_PREFIX = ascii ''application/grpc-web''"

definition GRPC_WEB_TEXT_CONTENT_TYPE :: bytes where
  "GRPC_WEB_TEXT_CONTENT_TYPE = ascii ''application/grpc-web-text''"

definition is_grpc_web_content_type :: "bytes \<Rightarrow> bool" where
  "is_grpc_web_content_type ct \<longleftrightarrow>
    length ct \<ge> length GRPC_WEB_CONTENT_TYPE_PREFIX
    \<and> eq_ignore_ascii_case (take (length GRPC_WEB_CONTENT_TYPE_PREFIX) ct) GRPC_WEB_CONTENT_TYPE_PREFIX"

definition is_grpc_web_text :: "bytes \<Rightarrow> bool" where
  "is_grpc_web_text ct \<longleftrightarrow>
    eq_ignore_ascii_case ct GRPC_WEB_TEXT_CONTENT_TYPE
    \<or> (if length GRPC_WEB_TEXT_CONTENT_TYPE \<le> length ct
       then eq_ignore_ascii_case (take (length GRPC_WEB_TEXT_CONTENT_TYPE) ct) GRPC_WEB_TEXT_CONTENT_TYPE
       else False)"

section \<open>Cross-origin headers\<close>

record cors_config =
  cc_allowed_origins :: "bytes list"
  cc_allowed_headers :: "bytes list"
  cc_exposed_headers :: "bytes list"
  cc_allow_credentials :: bool
  cc_max_age :: nat

definition cors_default :: cors_config where
  "cors_default =
    \<lparr>cc_allowed_origins = [ascii ''*''],
     cc_allowed_headers = [ascii ''content-type'', ascii ''x-grpc-web'', ascii ''x-user-agent'', ascii ''grpc-timeout''],
     cc_exposed_headers = [ascii ''grpc-status'', ascii ''grpc-message''],
     cc_allow_credentials = False,
     cc_max_age = 86400\<rparr>"

definition cors_with_origins :: "bytes list \<Rightarrow> cors_config" where
  "cors_with_origins origins = cors_default\<lparr>cc_allowed_origins := origins\<rparr>"

definition is_origin_allowed :: "cors_config \<Rightarrow> bytes \<Rightarrow> bool" where
  "is_origin_allowed c origin \<longleftrightarrow> list_ex (\<lambda>o'. o' = ascii ''*'' \<or> o' = origin) (cc_allowed_origins c)"

definition preflight_headers :: "cors_config \<Rightarrow> bytes \<Rightarrow> (bytes \<times> bytes) list" where
  "preflight_headers c origin =
    (if is_origin_allowed c origin
     then [(ascii ''access-control-allow-origin'',
            if ascii ''*'' \<in> set (cc_allowed_origins c) then ascii ''*'' else origin)]
     else [])
    @ [(ascii ''access-control-allow-methods'', ascii ''POST, OPTIONS'')]
    @ [(ascii ''access-control-allow-headers'', join_with (ascii '', '') (cc_allowed_headers c))]
    @ (if cc_exposed_headers c \<noteq> []
       then [(ascii ''access-control-expose-headers'', join_with (ascii '', '') (cc_exposed_headers c))]
       else [])
    @ (if cc_allow_credentials c then [(ascii ''access-control-allow-credentials'', ascii ''true'')] else [])
    @ [(ascii ''access-control-max-age'', ascii (show_nat (cc_max_age c)))]"

definition response_headers :: "cors_config \<Rightarrow> bytes \<Rightarrow> (bytes \<times> bytes) list" where
  "response_headers c origin =
    (if is_origin_allowed c origin
     then
       [(ascii ''access-control-allow-origin'',
         if ascii ''*'' \<in> set (cc_allowed_origins c) then ascii ''*'' else origin)]
       @ (if cc_exposed_headers c \<noteq> []
          then [(ascii ''access-control-expose-headers'', join_with (ascii '', '') (cc_exposed_headers c))]
          else [])
       @ (if cc_allow_credentials c then [(ascii ''access-control-allow-credentials'', ascii ''true'')] else [])
     else [])"

record grpc_web_config =
  gw_enabled :: bool
  gw_cors :: cors_config

definition grpc_web_enabled :: grpc_web_config where
  "grpc_web_enabled = \<lparr>gw_enabled = True, gw_cors = cors_default\<rparr>"

definition grpc_web_with_origins :: "bytes list \<Rightarrow> grpc_web_config" where
  "grpc_web_with_origins origins = \<lparr>gw_enabled = True, gw_cors = cors_with_origins origins\<rparr>"

section \<open>Base64\<close>

datatype grpc_web_error = InvalidBase64 | InvalidTrailers | MissingHeader string

fun display_grpc_web_error :: "grpc_web_error \<Rightarrow> string" where
  "display_grpc_web_error InvalidBase64 = ''Invalid base64 encoding''"
| "display_grpc_web_error InvalidTrailers = ''Invalid gRPC-Web trailers''"
| "display_grpc_web_error (MissingHeader h) = ''Missing header: '' @ h"

definition ALPHABET :: bytes where
  "ALPHABET = ascii ''ABCDEFGHIJKLMNOPQRSTUVWXYZabcdefghijklmnopqrstuvwxyz0123456789+/''"

definition encode_chunk :: "bytes \<Rightarrow> bytes" where
  "encode_chunk chunk =
    (let b0 = unat (chunk ! 0);
         b1 = (if 1 < length chunk then unat (chunk ! 1) else 0);
         b2 = (if 2 < length chunk then unat (chunk ! 2) else 0)
     in [ALPHABET ! drop_bit 2 b0,
         ALPHABET ! (push_bit 4 (b0 AND 0x03) OR drop_bit 4 b1),
         if length chunk > 1 then ALPHABET ! (push_bit 2 (b1 AND 0x0f) OR drop_bit 6 b2) else 0x3D,
         if length chunk > 2 then ALPHABET ! (b2 AND 0x3f) else 0x3D])"

fun base64_encode :: "bytes \<Rightarrow> bytes" where
  "base64_encode (b0 # b1 # b2 # r) = encode_chunk [b0, b1, b2] @ base64_encode r"
| "base64_encode [] = []"
| "base64_encode chunk = encode_chunk chunk"

definition decode_char :: "u8 \<Rightarrow> grpc_web_error + u8" where
  "decode_char c =
    (if 0x41 \<le> c \<and> c \<le> 0x5A then Inr (c - 0x41)
     else if 0x61 \<le> c \<and> c \<le> 0x7A then Inr (c - 0x61 + 26)
     else if 0x30 \<le> c \<and> c \<le> 0x39 then Inr (c - 0x30 + 52)
     else if c = 0x2B then Inr 62
     else if c = 0x2F then Inr 63
     else if c = 0x3D then Inr 0
     else Inl InvalidBase64)"

fun base64_decode_loop :: "bytes \<Rightarrow> grpc_web_error + bytes" where
  "base64_decode_loop [] = Inr []"
| "base64_decode_loop (c0 # c1 # c2 # c3 # r) =
    bind_res (decode_char c0) (\<lambda>b0.
    bind_res (decode_char c1) (\<lambda>b1.
    bind_res (decode_char c2) (\<lambda>b2.
    bind_res (decode_char c3) (\<lambda>b3.
    bind_res (base64_decode_loop r) (\<lambda>rest.
      Inr ((push_bit 2 b0 OR drop_bit 4 b1)
           # (if c2 \<noteq> 0x3D then [push_bit 4 b1 OR drop_bit 2 b2] else [])
           @ (if c3 \<noteq> 0x3D then [push_bit 6 b2 OR b3] else [])
           @ rest))))))"
| "base64_decode_loop chunk = Inl InvalidBase64"

definition base64_decode :: "bytes \<Rightarrow> grpc_web_error + bytes" where
  "base64_decode d = base64_decode_loop (filter (\<lambda>c. c \<noteq> 0x0A \<and> c \<noteq> 0x0D) d)"

definition decode_grpc_web_body :: "bytes \<Rightarrow> bool \<Rightarrow> grpc_web_error + bytes" where
  "decode_grpc_web_body body is_text = (if is_text then base64_decode body else Inr body)"

definition encode_trailers :: "(bytes \<times> bytes) list \<Rightarrow> bytes" where
  "encode_trailers trailers =
    concat (map (\<lambda>(name, v). name @ ascii '': '' @ v @ [0x0D, 0x0A]) trailers)"

definition encode_grpc_web_response :: "bytes \<Rightarrow> (bytes \<times> bytes) list \<Rightarrow> bool \<Rightarrow> bytes" where
  "encode_grpc_web_response body trailers is_text =
    (let trailer_data = encode_trailers trailers;
         response = body @ [0x80] @ u32_to_be (of_nat (length trailer_data)) @ trailer_data
     in if is_text then base64_encode response else response)"

section \<open>Lemmas\<close>

lemma length_ALPHABET: "length ALPHABET = 64"
  by (simp add: ALPHABET_def)

lemma alphabet_decoded:
  "map decode_char ALPHABET = map (\<lambda>i. Inr (of_nat i)) [0..<64]"
  by (simp add: ALPHABET_def decode_char_def upt_rec)

lemma alphabet_plain: "list_all (\<lambda>c. c \<noteq> 0x3D \<and> c \<noteq> 0x0A \<and> c \<noteq> 0x0D) ALPHABET"
  by (simp add: ALPHABET_def)

lemma decode_alphabet:
  assumes "i < 64"
  shows "decode_char (ALPHABET ! i) = Inr (of_nat i)"
    "ALPHABET ! i \<noteq> 0x3D" "ALPHABET ! i \<noteq> 0x0A" "ALPHABET ! i \<noteq> 0x0D"
proof -
  have "map decode_char ALPHABET ! i = map (\<lambda>i. Inr (of_nat i)) [0..<64] ! i" using alphabet_decoded by simp
  then show "decode_char (ALPHABET ! i) = Inr (of_nat i)" using assms by (simp add: length_ALPHABET)
  have "ALPHABET ! i \<in> set ALPHABET" using assms by (simp add: length_ALPHABET)
  then show "ALPHABET ! i \<noteq> 0x3D" "ALPHABET ! i \<noteq> 0x0A" "ALPHABET ! i \<noteq> 0x0D"
    using alphabet_plain by (auto simp: list_all_iff)
qed

text \<open>The four indices of a chunk as words, and how the decoder puts the bytes together again.\<close>

lemma chunk_index:
  fixes b0 b1 b2 :: u8
  shows "drop_bit 2 (unat b0) = unat (drop_bit 2 b0)"
    "push_bit 4 (unat b0 AND 3) OR drop_bit 4 (unat b1) = unat (push_bit 4 (b0 AND 3) OR drop_bit 4 b1)"
    "push_bit 2 (unat b1 AND 15) OR drop_bit 6 (unat b2) = unat (push_bit 2 (b1 AND 15) OR drop_bit 6 b2)"
    "unat b2 AND 63 = unat (b2 AND 63)"
proof -
  have mask: "n AND 3 = take_bit 2 n" "n AND 15 = take_bit 4 n" for n :: nat
    by (simp_all add: take_bit_eq_mask mask_eq_exp_minus_1)
  have small: "n AND 3 < 4" "n AND 15 < 16" for n :: nat
    unfolding mask using take_bit_nat_less_exp [of 2 n] take_bit_nat_less_exp [of 4 n] by simp_all
  have m: "unat (w AND 3) = unat w AND 3" "unat (w AND 15) = unat w AND 15" "unat (w AND 63) = unat w AND 63" for w :: u8
    by (simp_all add: unsigned_and_eq)
  have push: "unat (push_bit k w) = push_bit k (unat w)" if "unat w * 2 ^ k < 256" for k and w :: u8
    using that by (simp add: unsigned_push_bit_eq push_bit_nat_def take_bit_nat_eq_self)
  have "unat (push_bit 4 (b0 AND 3)) = push_bit 4 (unat (b0 AND 3))"
    using small(1) [of "unat b0"] by (intro push) (unfold m, simp)
  moreover have "unat (push_bit 2 (b1 AND 15)) = push_bit 2 (unat (b1 AND 15))"
    using small(2) [of "unat b1"] by (intro push) (unfold m, simp)
  ultimately have p: "unat (push_bit 4 (b0 AND 3)) = push_bit 4 (unat b0 AND 3)"
    "unat (push_bit 2 (b1 AND 15)) = push_bit 2 (unat b1 AND 15)"
    unfolding m by blast+
  have d: "unat (drop_bit k w) = drop_bit k (unat w)" for k and w :: u8
    by (simp add: unat_drop_bit_eq)
  show "drop_bit 2 (unat b0) = unat (drop_bit 2 b0)" by (simp only: d)
  show "unat b2 AND 63 = unat (b2 AND 63)" by (simp only: m)
  show "push_bit 4 (unat b0 AND 3) OR drop_bit 4 (unat b1) = unat (push_bit 4 (b0 AND 3) OR drop_bit 4 b1)"
    unfolding unsigned_or_eq p d ..
  show "push_bit 2 (unat b1 AND 15) OR drop_bit 6 (unat b2) = unat (push_bit 2 (b1 AND 15) OR drop_bit 6 b2)"
    unfolding unsigned_or_eq p d ..
qed

lemma u8_eqI:
  assumes "bit a 0 = bit b 0" "bit a 1 = bit b 1" "bit a 2 = bit b 2" "bit a 3 = bit b 3"
    "bit a 4 = bit b 4" "bit a 5 = bit b 5" "bit a 6 = bit b 6" "bit a 7 = bit b 7"
  shows "a = (b :: u8)"
proof (rule bit_word_eqI)
  fix n
  assume "n < LENGTH(8)"
  then have "n \<in> {0, 1, 2, 3, 4, 5, 6, 7}" by auto
  with assms show "bit a n = bit b n" by blast
qed

lemma u8_masks: "b AND 3 = take_bit 2 b" "b AND 15 = take_bit 4 b" "b AND 63 = take_bit 6 b" for b :: u8
  by (simp_all add: take_bit_eq_mask mask_eq_exp_minus_1)

lemma chunk_index_bound:
  fixes b0 b1 b2 :: u8
  shows "unat (drop_bit 2 b0) < 64" "unat (push_bit 4 (b0 AND 3) OR drop_bit 4 b1) < 64"
    "unat (push_bit 2 (b1 AND 15) OR drop_bit 6 b2) < 64" "unat (b2 AND 63) < 64"
proof -
  have *: "unat w < 64" if "take_bit 6 w = w" for w :: u8
  proof -
    have "unat (take_bit 6 w) < 2 ^ 6" unfolding unsigned_take_bit_eq by (rule take_bit_nat_less_exp)
    then show ?thesis using that by simp
  qed
  show "unat (drop_bit 2 b0) < 64" "unat (push_bit 4 (b0 AND 3) OR drop_bit 4 b1) < 64"
    "unat (push_bit 2 (b1 AND 15) OR drop_bit 6 b2) < 64" "unat (b2 AND 63) < 64"
    unfolding u8_masks by (rule *, rule u8_eqI, simp_all add: bit_simps)+
qed

lemma chunk_bytes:
  fixes b0 b1 b2 :: u8
  shows "push_bit 2 (drop_bit 2 b0) OR drop_bit 4 (push_bit 4 (b0 AND 3) OR drop_bit 4 b1) = b0"
    "push_bit 4 (push_bit 4 (b0 AND 3) OR drop_bit 4 b1) OR drop_bit 2 (push_bit 2 (b1 AND 15) OR drop_bit 6 b2) = b1"
    "push_bit 6 (push_bit 2 (b1 AND 15) OR drop_bit 6 b2) OR (b2 AND 63) = b2"
  unfolding u8_masks by (rule u8_eqI, simp_all add: bit_simps)+

lemma encode_chunk_words:
  "encode_chunk [b0, b1, b2] =
    [ALPHABET ! unat (drop_bit 2 b0), ALPHABET ! unat (push_bit 4 (b0 AND 3) OR drop_bit 4 b1),
     ALPHABET ! unat (push_bit 2 (b1 AND 15) OR drop_bit 6 b2), ALPHABET ! unat (b2 AND 63)]"
  "encode_chunk [b0, b1] =
    [ALPHABET ! unat (drop_bit 2 b0), ALPHABET ! unat (push_bit 4 (b0 AND 3) OR drop_bit 4 b1),
     ALPHABET ! unat (push_bit 2 (b1 AND 15) OR drop_bit 6 0), 0x3D]"
  "encode_chunk [b0] =
    [ALPHABET ! unat (drop_bit 2 b0), ALPHABET ! unat (push_bit 4 (b0 AND 3) OR drop_bit 4 0), 0x3D, 0x3D]"
  unfolding encode_chunk_def Let_def chunk_index [symmetric] by (simp_all del: push_bit_and)

lemma of_nat_unat_u8: "of_nat (unat w) = (w :: u8)"
  by simp

lemma decode_encode_chunk:
  "base64_decode_loop (encode_chunk [b0, b1, b2] @ r) =
    bind_res (base64_decode_loop r) (\<lambda>rest. Inr (b0 # b1 # b2 # rest))"
  "base64_decode_loop (encode_chunk [b0, b1] @ r) =
    bind_res (base64_decode_loop r) (\<lambda>rest. Inr (b0 # b1 # rest))"
  "base64_decode_loop (encode_chunk [b0] @ r) =
    bind_res (base64_decode_loop r) (\<lambda>rest. Inr (b0 # rest))"
proof -
  note dec = decode_alphabet(1,2) [OF chunk_index_bound(1)] decode_alphabet(1,2) [OF chunk_index_bound(2)]
    decode_alphabet(1,2) [OF chunk_index_bound(3)] decode_alphabet(1,2) [OF chunk_index_bound(4)]
  have pad: "decode_char 0x3D = Inr 0" by (simp add: decode_char_def)
  show "base64_decode_loop (encode_chunk [b0, b1, b2] @ r) =
    bind_res (base64_decode_loop r) (\<lambda>rest. Inr (b0 # b1 # b2 # rest))"
    unfolding encode_chunk_words append_Cons append_Nil base64_decode_loop.simps dec bind_res.simps of_nat_unat_u8
      chunk_bytes
    by (simp only: dec simp_thms if_True if_False append_Cons append_Nil)
  show "base64_decode_loop (encode_chunk [b0, b1] @ r) =
    bind_res (base64_decode_loop r) (\<lambda>rest. Inr (b0 # b1 # rest))"
    unfolding encode_chunk_words append_Cons append_Nil base64_decode_loop.simps dec pad bind_res.simps
      of_nat_unat_u8 chunk_bytes
    by (simp only: dec simp_thms if_True if_False append_Cons append_Nil)
  show "base64_decode_loop (encode_chunk [b0] @ r) = bind_res (base64_decode_loop r) (\<lambda>rest. Inr (b0 # rest))"
    unfolding encode_chunk_words append_Cons append_Nil base64_decode_loop.simps dec pad bind_res.simps
      of_nat_unat_u8 chunk_bytes by simp
qed

lemma encode_chunk_plain:
  "filter (\<lambda>c. c \<noteq> 0x0A \<and> c \<noteq> 0x0D) (encode_chunk [b0, b1, b2]) = encode_chunk [b0, b1, b2]"
  "filter (\<lambda>c. c \<noteq> 0x0A \<and> c \<noteq> 0x0D) (encode_chunk [b0, b1]) = encode_chunk [b0, b1]"
  "filter (\<lambda>c. c \<noteq> 0x0A \<and> c \<noteq> 0x0D) (encode_chunk [b0]) = encode_chunk [b0]"
proof -
  have pad: "(0x3D :: u8) \<noteq> 0x0A" "(0x3D :: u8) \<noteq> 0x0D" by simp_all
  note ok = decode_alphabet(3,4) [OF chunk_index_bound(1)] decode_alphabet(3,4) [OF chunk_index_bound(2)]
    decode_alphabet(3,4) [OF chunk_index_bound(3)] decode_alphabet(3,4) [OF chunk_index_bound(4)] pad
  show "filter (\<lambda>c. c \<noteq> 0x0A \<and> c \<noteq> 0x0D) (encode_chunk [b0, b1, b2]) = encode_chunk [b0, b1, b2]"
    "filter (\<lambda>c. c \<noteq> 0x0A \<and> c \<noteq> 0x0D) (encode_chunk [b0, b1]) = encode_chunk [b0, b1]"
    "filter (\<lambda>c. c \<noteq> 0x0A \<and> c \<noteq> 0x0D) (encode_chunk [b0]) = encode_chunk [b0]"
    unfolding encode_chunk_words by (simp_all only: filter.simps ok simp_thms if_True)
qed

lemma base64_encode_plain: "filter (\<lambda>c. c \<noteq> 0x0A \<and> c \<noteq> 0x0D) (base64_encode d) = base64_encode d"
  by (induction d rule: base64_encode.induct) (simp_all only: base64_encode.simps filter_append encode_chunk_plain filter.simps)

lemma base64_roundtrip: "base64_decode (base64_encode d) = Inr d"
proof -
  have one: "base64_decode_loop (encode_chunk [b0, b1]) = Inr [b0, b1]" "base64_decode_loop (encode_chunk [b0]) = Inr [b0]" for b0 b1
    using decode_encode_chunk(2) [of b0 b1 "[]"] decode_encode_chunk(3) [of b0 "[]"] by simp_all
  have "base64_decode_loop (base64_encode d) = Inr d"
    by (induction d rule: base64_encode.induct)
      (simp_all only: base64_encode.simps decode_encode_chunk one bind_res.simps base64_decode_loop.simps)
  then show ?thesis unfolding base64_decode_def base64_encode_plain .
qed

section \<open>Properties\<close>

text \<open>C15: A text-mode gRPC-Web response decodes to the message frames followed by one trailer
  frame, whatever the bytes are: base64 encoding and decoding are inverse on every byte string.\<close>

theorem grpc_web_text_roundtrip:
  "decode_grpc_web_body (encode_grpc_web_response body trailers True) True =
    Inr (body @ 0x80 # u32_to_be (of_nat (length (encode_trailers trailers))) @ encode_trailers trailers)"
  by (simp add: decode_grpc_web_body_def encode_grpc_web_response_def Let_def base64_roundtrip)

text \<open>C16: A cross-origin grant is only ever given to an allowed origin: both header builders name
  an origin exactly when the configuration allows the caller's, and then it is the caller's own
  or the wildcard that the configuration lists.\<close>

theorem cors_grant_exact:
  "map_of (preflight_headers c origin) (ascii ''access-control-allow-origin'') =
      map_of (response_headers c origin) (ascii ''access-control-allow-origin'')
    \<and> map_of (response_headers c origin) (ascii ''access-control-allow-origin'') =
      (if ascii ''*'' \<in> set (cc_allowed_origins c) then Some (ascii ''*'')
       else if origin \<in> set (cc_allowed_origins c) then Some origin else None)"
  by (auto simp: preflight_headers_def response_headers_def is_origin_allowed_def list_ex_iff)

end
