(* ===== verification/Transport.thy ===== *)
theory Transport
  imports Http2_Error
begin

text \<open>
  The byte stream under a connection (the traits of src/src/runtime/io.rs).  The environment is a
  script: for each read how long it takes and what it yields, for each write how many bytes the
  kernel accepts or which error it reports.  An exhausted script reads end of file and accepts
  every write.  What was accepted accumulates in \<open>tr_sent\<close>; the clock advances with reads.
\<close>

datatype read_outcome = ReadData bytes | ReadErr io_error

datatype write_outcome = WriteAccept nat | WriteErr io_error

record transport =
  tr_reads :: "(nat \<times> read_outcome) list"
  tr_writes :: "write_outcome list"
  tr_sent :: bytes
  tr_now :: nat

text \<open>\<open>AsyncReadRent::read\<close> into a buffer of the given capacity; no bytes is end of file.\<close>

definition tr_read :: "nat \<Rightarrow> (transport, io_error, bytes) step" where
  "tr_read cap t =
    (case tr_reads t of
       [] \<Rightarrow> (t, Inr [])
     | (dt, ReadErr e) # rest \<Rightarrow> (t\<lparr>tr_reads := rest, tr_now := tr_now t + dt\<rparr>, Inl e)
     | (dt, ReadData d) # rest \<Rightarrow>
         if length d \<le> cap then (t\<lparr>tr_reads := rest, tr_now := tr_now t + dt\<rparr>, Inr d)
         else (t\<lparr>tr_reads := (0, ReadData (drop cap d)) # rest, tr_now := tr_now t + dt\<rparr>, Inr (take cap d)))"

text \<open>
  \<open>AsyncWriteRentExt::write_all\<close>: continue after a short write, repeat after \<open>WouldBlock\<close>, stop at
  any other error.
\<close>

fun write_all_loop :: "write_outcome list \<Rightarrow> bytes \<Rightarrow> bytes \<Rightarrow> write_outcome list \<times> bytes \<times> (io_error + unit)" where
  "write_all_loop ws [] sent = (ws, sent, Inr ())"
| "write_all_loop [] buf sent = ([], sent @ buf, Inr ())"
| "write_all_loop (WriteAccept n # ws) buf sent =
    (let k = min n (length buf)
     in if k = 0 then (ws, sent, Inl (IoOther ''write returned 0 bytes''))
        else write_all_loop ws (drop k buf) (sent @ take k buf))"
| "write_all_loop (WriteErr (IoWouldBlock msg) # ws) buf sent = write_all_loop ws buf sent"
| "write_all_loop (WriteErr (IoOther msg) # ws) buf sent = (ws, sent, Inl (IoOther msg))"

definition tr_write_all :: "bytes \<Rightarrow> (transport, io_error, unit) step" where
  "tr_write_all buf t =
    (case write_all_loop (tr_writes t) buf (tr_sent t) of
       (ws, sent, r) \<Rightarrow> (t\<lparr>tr_writes := ws, tr_sent := sent\<rparr>, r))"

section \<open>Lemmas\<close>

lemma write_all_loop_ok: "write_all_loop ws buf sent = (ws', sent', Inr ()) \<Longrightarrow> sent' = sent @ buf"
  by (induction ws buf sent rule: write_all_loop.induct) (auto simp: Let_def split: if_splits)

lemma write_all_loop_no_block: "write_all_loop ws buf sent = (ws', sent', r) \<Longrightarrow> r \<noteq> Inl (IoWouldBlock msg)"
  by (induction ws buf sent rule: write_all_loop.induct) (auto simp: Let_def split: if_splits)

lemma write_all_loop_prefix: "write_all_loop ws buf sent = (ws', sent', r) \<Longrightarrow> \<exists>rest. sent @ buf = sent' @ rest"
  by (induction ws buf sent rule: write_all_loop.induct) (auto simp: Let_def split: if_splits)

lemma tr_write_all_ok: "tr_write_all buf t = (t', Inr u) \<Longrightarrow> tr_sent t' = tr_sent t @ buf"
  by (auto simp: tr_write_all_def dest: write_all_loop_ok split: prod.splits)

lemma tr_write_all_prefix: "tr_write_all buf t = (t', r) \<Longrightarrow> \<exists>rest. tr_sent t @ buf = tr_sent t' @ rest"
  by (auto simp: tr_write_all_def dest: write_all_loop_prefix split: prod.splits)

lemma tr_write_all_no_block: "tr_write_all buf t = (t', r) \<Longrightarrow> r \<noteq> Inl (IoWouldBlock msg)"
  by (auto simp: tr_write_all_def dest: write_all_loop_no_block split: prod.splits)

lemma tr_write_all_frame:
  "tr_write_all buf t = (t', r) \<Longrightarrow> tr_reads t' = tr_reads t \<and> tr_now t' = tr_now t"
  by (auto simp: tr_write_all_def split: prod.splits)

text \<open>The script of reads gets shorter with every read that yields something.\<close>

fun outcome_size :: "nat \<times> read_outcome \<Rightarrow> nat" where
  "outcome_size (dt, ReadData d) = Suc (length d)"
| "outcome_size (dt, ReadErr e) = 1"

definition script_size :: "transport \<Rightarrow> nat" where
  "script_size t = sum_list (map outcome_size (tr_reads t))"

lemma tr_read_shrinks:
  assumes "tr_read cap t = (t', r)" "r = Inl e \<or> r = Inr d \<and> d \<noteq> []"
  shows "script_size t' < script_size t"
proof (cases "tr_reads t")
  case Nil
  then show ?thesis using assms by (auto simp: tr_read_def)
next
  case (Cons a rest)
  then show ?thesis using assms
    by (cases a rule: outcome_size.cases) (auto simp: tr_read_def script_size_def split: if_splits)
qed

lemma tr_read_length: "tr_read cap t = (t', Inr d) \<Longrightarrow> length d \<le> cap"
  by (auto simp: tr_read_def split: list.splits prod.splits read_outcome.splits if_splits)

lemma tr_read_frame: "tr_read cap t = (t', r) \<Longrightarrow> tr_sent t' = tr_sent t \<and> tr_writes t' = tr_writes t \<and> tr_now t \<le> tr_now t'"
  by (auto simp: tr_read_def split: list.splits prod.splits read_outcome.splits if_splits)

text \<open>The bytes the script still holds, up to the first error: what a reader can get.\<close>

fun incoming :: "(nat \<times> read_outcome) list \<Rightarrow> bytes" where
  "incoming ((dt, ReadData d) # rest) = d @ incoming rest"
| "incoming _ = []"

lemma tr_read_incoming:
  "tr_read cap t = (t', Inr d) \<Longrightarrow> incoming (tr_reads t) = d @ incoming (tr_reads t')"
  by (cases "tr_reads t" rule: incoming.cases) (auto simp: tr_read_def split: if_splits)

end
