(* ===== verification/Credit.thy ===== *)
theory Credit
  imports Prelude
begin

text \<open>
  Flow-control credit.  A window is an account: sending or receiving data spends from it and is
  refused when the balance does not cover it, a window update pays in.  The locale states what
  one operation does to the balance; its lemmas bound what a whole sequence of operations can
  spend.
\<close>

datatype ('d, 'g) credit_op = Spend 'd | Pay 'g

text \<open>
  A run of operations: the final state, the amount whose spending was accepted and the amount
  whose paying in was accepted.
\<close>

fun credit_run :: "('d \<Rightarrow> ('s, 'e, unit) step) \<Rightarrow> ('d \<Rightarrow> nat) \<Rightarrow> ('g \<Rightarrow> ('s, 'e, unit) step) \<Rightarrow> ('g \<Rightarrow> int)
    \<Rightarrow> ('d, 'g) credit_op list \<Rightarrow> 's \<Rightarrow> 's \<times> int \<times> int" where
  "credit_run spend cost pay amount [] s = (s, 0, 0)"
| "credit_run spend cost pay amount (Spend n # ops) s =
    (case spend n s of
       (s', Inl _) \<Rightarrow> credit_run spend cost pay amount ops s'
     | (s', Inr _) \<Rightarrow>
         (case credit_run spend cost pay amount ops s' of (t, spent, paid) \<Rightarrow> (t, int (cost n) + spent, paid)))"
| "credit_run spend cost pay amount (Pay g # ops) s =
    (case pay g s of
       (s', Inl _) \<Rightarrow> credit_run spend cost pay amount ops s'
     | (s', Inr _) \<Rightarrow>
         (case credit_run spend cost pay amount ops s' of (t, spent, paid) \<Rightarrow> (t, spent, amount g + paid)))"

locale credit_account =
  fixes balance :: "'s \<Rightarrow> int"
    and valid :: "'s \<Rightarrow> bool"
    and spend :: "'d \<Rightarrow> ('s, 'e, unit) step"
    and cost :: "'d \<Rightarrow> nat"
    and pay :: "'g \<Rightarrow> ('s, 'e, unit) step"
    and amount :: "'g \<Rightarrow> int"
    and small :: "('d, 'g) credit_op \<Rightarrow> bool"
  assumes spend_accepted: "valid s \<Longrightarrow> small (Spend n) \<Longrightarrow> spend n s = (s', Inr u) \<Longrightarrow>
      int (cost n) \<le> balance s \<and> balance s' = balance s - int (cost n)"
    and spend_refused: "valid s \<Longrightarrow> small (Spend n) \<Longrightarrow> spend n s = (s', Inl e) \<Longrightarrow>
      balance s' \<le> balance s \<and> (0 \<le> balance s \<longrightarrow> 0 \<le> balance s')"
    and pay_accepted: "valid s \<Longrightarrow> small (Pay g) \<Longrightarrow> pay g s = (s', Inr u) \<Longrightarrow>
      balance s' \<le> balance s + amount g \<and> (0 \<le> amount g \<longrightarrow> balance s \<le> balance s')"
    and pay_refused: "valid s \<Longrightarrow> small (Pay g) \<Longrightarrow> pay g s = (s', Inl e) \<Longrightarrow> balance s' = balance s"
    and spend_valid: "valid s \<Longrightarrow> small (Spend n) \<Longrightarrow> valid (fst (spend n s))"
    and pay_valid: "valid s \<Longrightarrow> small (Pay g) \<Longrightarrow> valid (fst (pay g s))"
begin

lemma credit_run_bound:
  assumes "valid s" "list_all small ops" "credit_run spend cost pay amount ops s = (t, spent, paid)"
  shows "balance t \<le> balance s + paid - spent \<and> valid t"
  using assms
proof (induction ops arbitrary: s t spent paid)
  case (Cons op ops)
  show ?case
  proof (cases op)
    case (Spend n)
    then obtain s' r where r: "spend n s = (s', r)" by fastforce
    have v: "valid s'" using spend_valid [of s n] Cons.prems Spend r by simp
    show ?thesis
    proof (cases r)
      case (Inl e)
      then show ?thesis using Cons.IH [OF v, of t spent paid] Cons.prems Spend r spend_refused [of s n s' e] by simp
    next
      case (Inr u)
      obtain t0 sp pd where run: "credit_run spend cost pay amount ops s' = (t0, sp, pd)" using prod_cases3 by blast
      then show ?thesis
        using Cons.IH [OF v _ run] Cons.prems Spend r Inr spend_accepted [of s n s' u] by simp
    qed
  next
    case (Pay g)
    then obtain s' r where r: "pay g s = (s', r)" by fastforce
    have v: "valid s'" using pay_valid [of s g] Cons.prems Pay r by simp
    show ?thesis
    proof (cases r)
      case (Inl e)
      then show ?thesis using Cons.IH [OF v, of t spent paid] Cons.prems Pay r pay_refused [of s g s' e] by simp
    next
      case (Inr u)
      obtain t0 sp pd where run: "credit_run spend cost pay amount ops s' = (t0, sp, pd)" using prod_cases3 by blast
      then show ?thesis
        using Cons.IH [OF v _ run] Cons.prems Pay r Inr pay_accepted [of s g s' u] by simp
    qed
  qed
qed simp

lemma credit_run_nonneg:
  assumes "valid s" "list_all small ops" "0 \<le> balance s"
    and "\<And>g. Pay g \<in> set ops \<Longrightarrow> 0 \<le> amount g"
  shows "0 \<le> balance (fst (credit_run spend cost pay amount ops s))"
  using assms
proof (induction ops arbitrary: s)
  case (Cons op ops)
  show ?case
  proof (cases op)
    case (Spend n)
    obtain s' r where r: "spend n s = (s', r)" by fastforce
    have v: "valid s'" using spend_valid [of s n] Cons.prems Spend r by simp
    have "0 \<le> balance s'"
      using spend_refused [of s n s'] spend_accepted [of s n s'] Cons.prems Spend r by (cases r) auto
    with Cons.IH [OF v] Cons.prems Spend r show ?thesis by (cases r) (auto split: prod.splits)
  next
    case (Pay g)
    obtain s' r where r: "pay g s = (s', r)" by fastforce
    have v: "valid s'" using pay_valid [of s g] Cons.prems Pay r by simp
    have "0 \<le> amount g" using Cons.prems Pay by simp
    then have "0 \<le> balance s'"
      using pay_refused [of s g s'] pay_accepted [of s g s'] Cons.prems Pay r by (cases r) auto
    with Cons.IH [OF v] Cons.prems Pay r show ?thesis by (cases r) (auto split: prod.splits)
  qed
qed simp

text \<open>Never overdrawn: what was accepted is covered by the initial balance and the payments.\<close>

lemma spent_covered:
  assumes "valid s" "list_all small ops" "0 \<le> balance s" "\<And>g. Pay g \<in> set ops \<Longrightarrow> 0 \<le> amount g"
    and "credit_run spend cost pay amount ops s = (t, spent, paid)"
  shows "spent \<le> balance s + paid"
proof -
  have "0 \<le> balance t" using credit_run_nonneg [OF assms(1-4)] assms(5) by simp
  then show ?thesis using credit_run_bound [OF assms(1,2,5)] by linarith
qed

end

end
