(* ===== verification/Stream.thy ===== *)
theory Stream
  imports Http2_Error Hpack_Table Grpc_Stream Grpc_Headers Credit
begin

text \<open>
  One HTTP/2 stream (src/src/http2/stream.rs, \<open>Stream\<close>): its state machine, its two flow-control
  windows, request accumulation and content-length checking.  A method that may fail returns the
  stream as it left it together with its result.  The windows are \<open>i32\<close>, kept as integers with the
  casts and the wrap-around of the source written out.
\<close>

datatype stream_state =
    Idle | ReservedLocal | ReservedRemote | Open | HalfClosedLocal | HalfClosedRemote | Closed

fun display_stream_state :: "stream_state \<Rightarrow> string" where
  "display_stream_state Idle = ''idle''"
| "display_stream_state ReservedLocal = ''reserved (local)''"
| "display_stream_state ReservedRemote = ''reserved (remote)''"
| "display_stream_state Open = ''open''"
| "display_stream_state HalfClosedLocal = ''half-closed (local)''"
| "display_stream_state HalfClosedRemote = ''half-closed (remote)''"
| "display_stream_state Closed = ''closed''"

record stream =
  st_id :: u32
  st_state :: stream_state
  st_send_window :: int
  st_recv_window :: int
  st_request_headers :: "header_field list"
  st_request_body :: bytes
  st_response_headers :: "header_field list"
  st_response_body :: bytes
  st_dependency :: u32
  st_weight :: u8
  st_exclusive :: bool
  st_pending_headers :: bytes
  st_receiving_headers :: bool
  st_content_length :: "u64 option"
  st_received_body_size :: u64
  st_last_activity :: nat
  st_grpc_mode :: bool
  st_grpc_stream_state :: "grpc_stream_state option"

definition stream_new :: "nat \<Rightarrow> u32 \<Rightarrow> int \<Rightarrow> int \<Rightarrow> stream" where
  "stream_new now sid send_window_size recv_window_size =
    \<lparr>st_id = sid, st_state = Idle, st_send_window = send_window_size,
     st_recv_window = recv_window_size, st_request_headers = [], st_request_body = [],
     st_response_headers = [], st_response_body = [], st_dependency = 0, st_weight = 16,
     st_exclusive = False, st_pending_headers = [], st_receiving_headers = False,
     st_content_length = None, st_received_body_size = 0, st_last_activity = now,
     st_grpc_mode = False, st_grpc_stream_state = None\<rparr>"

section \<open>Operations\<close>

definition recv_headers :: "bool \<Rightarrow> (stream, http2_error, unit) step" where
  "recv_headers end_stream s =
    (case st_state s of
       Idle \<Rightarrow> (s\<lparr>st_state := (if end_stream then HalfClosedRemote else Open)\<rparr>, Inr ())
     | ReservedRemote \<Rightarrow> (s\<lparr>st_state := (if end_stream then Closed else HalfClosedLocal)\<rparr>, Inr ())
     | Open \<Rightarrow> (if end_stream then s\<lparr>st_state := HalfClosedRemote\<rparr> else s, Inr ())
     | HalfClosedLocal \<Rightarrow> (if end_stream then s\<lparr>st_state := Closed\<rparr> else s, Inr ())
     | _ \<Rightarrow>
         (s, Inl (stream_error (st_id s) StreamClosed
                   (''Cannot receive HEADERS in state '' @ display_stream_state (st_state s)))))"

definition send_headers :: "bool \<Rightarrow> (stream, http2_error, unit) step" where
  "send_headers end_stream s =
    (case st_state s of
       Idle \<Rightarrow> (s\<lparr>st_state := (if end_stream then HalfClosedLocal else Open)\<rparr>, Inr ())
     | ReservedLocal \<Rightarrow> (s\<lparr>st_state := (if end_stream then Closed else HalfClosedRemote)\<rparr>, Inr ())
     | Open \<Rightarrow> (if end_stream then s\<lparr>st_state := HalfClosedLocal\<rparr> else s, Inr ())
     | HalfClosedRemote \<Rightarrow> (if end_stream then s\<lparr>st_state := Closed\<rparr> else s, Inr ())
     | _ \<Rightarrow>
         (s, Inl (stream_error (st_id s) StreamClosed
                   (''Cannot send HEADERS in state '' @ display_stream_state (st_state s)))))"

definition recv_data_accounting :: "nat \<Rightarrow> bool \<Rightarrow> (stream, http2_error, unit) step" where
  "recv_data_accounting data_len end_stream s =
    (if st_state s = Open \<or> st_state s = HalfClosedLocal
     then
       let dl = i32_of_nat data_len
       in if dl > st_recv_window s
          then (s, Inl (stream_error (st_id s) FlowControlError ''Received data exceeds flow control window''))
          else
            let s = s\<lparr>st_recv_window := i32_wrap (st_recv_window s - dl),
                      st_received_body_size := st_received_body_size s + of_nat data_len\<rparr>
            in if end_stream
               then
                 (case st_content_length s of
                    Some expected_length \<Rightarrow>
                      if expected_length \<noteq> st_received_body_size s
                      then (s, Inl (stream_error (st_id s) ProtocolError
                                     (''Content-Length mismatch: expected '' @ show_nat (unat expected_length)
                                      @ '', received '' @ show_nat (unat (st_received_body_size s)))))
                      else (s\<lparr>st_state := (if st_state s = Open then HalfClosedRemote else Closed)\<rparr>, Inr ())
                  | None \<Rightarrow> (s\<lparr>st_state := (if st_state s = Open then HalfClosedRemote else Closed)\<rparr>, Inr ()))
               else (s, Inr ())
     else
       (s, Inl (stream_error (st_id s) StreamClosed
                 (''Cannot receive DATA in state '' @ display_stream_state (st_state s)))))"

definition recv_data :: "bytes \<Rightarrow> bool \<Rightarrow> (stream, http2_error, unit) step" where
  "recv_data d end_stream =
    then_st (recv_data_accounting (length d) end_stream)
      (modify_st (\<lambda>s. s\<lparr>st_request_body := st_request_body s @ d\<rparr>))"

definition prepare_send_data :: "nat \<Rightarrow> (stream, http2_error, unit) step" where
  "prepare_send_data len s =
    (let l = i32_of_nat len
     in if l > st_send_window s
        then (s, Inl (stream_error (st_id s) FlowControlError ''Send data exceeds flow control window''))
        else (s\<lparr>st_send_window := i32_wrap (st_send_window s - l)\<rparr>, Inr ()))"

definition send_end_stream :: "(stream, http2_error, unit) step" where
  "send_end_stream s =
    (case st_state s of
       Open \<Rightarrow> (s\<lparr>st_state := HalfClosedLocal\<rparr>, Inr ())
     | HalfClosedRemote \<Rightarrow> (s\<lparr>st_state := Closed\<rparr>, Inr ())
     | _ \<Rightarrow>
         (s, Inl (stream_error (st_id s) StreamClosed
                   (''Cannot send END_STREAM in state '' @ display_stream_state (st_state s)))))"

definition recv_rst_stream :: "u32 \<Rightarrow> stream \<Rightarrow> stream" where
  "recv_rst_stream code s = s\<lparr>st_state := Closed\<rparr>"

definition send_rst_stream :: "stream \<Rightarrow> stream" where
  "send_rst_stream s = s\<lparr>st_state := Closed\<rparr>"

definition recv_window_update :: "u32 \<Rightarrow> (stream, http2_error, unit) step" where
  "recv_window_update increment s =
    (case i32_checked_add (st_send_window s) (sint increment) of
       Some w \<Rightarrow>
         if w \<le> 0x7FFFFFFF then (s\<lparr>st_send_window := w\<rparr>, Inr ())
         else (s, Inl (stream_error (st_id s) FlowControlError ''Window size overflow''))
     | None \<Rightarrow> (s, Inl (stream_error (st_id s) FlowControlError ''Window size overflow'')))"

definition update_recv_window :: "int \<Rightarrow> stream \<Rightarrow> stream" where
  "update_recv_window increment s = s\<lparr>st_recv_window := i32_saturating_add (st_recv_window s) increment\<rparr>"

definition append_header_fragment :: "bytes \<Rightarrow> bool \<Rightarrow> stream \<Rightarrow> stream" where
  "append_header_fragment fragment end_headers s =
    s\<lparr>st_pending_headers := st_pending_headers s @ fragment, st_receiving_headers := \<not> end_headers\<rparr>"

definition take_header_block :: "stream \<Rightarrow> stream \<times> bytes" where
  "take_header_block s = (s\<lparr>st_pending_headers := []\<rparr>, st_pending_headers s)"

definition is_receiving_headers :: "stream \<Rightarrow> bool" where
  "is_receiving_headers s = st_receiving_headers s"

definition pending_header_len :: "stream \<Rightarrow> nat" where
  "pending_header_len s = length (st_pending_headers s)"

definition update_activity :: "nat \<Rightarrow> stream \<Rightarrow> stream" where
  "update_activity now s = s\<lparr>st_last_activity := now\<rparr>"

definition is_idle_timeout :: "nat \<Rightarrow> nat \<Rightarrow> stream \<Rightarrow> bool" where
  "is_idle_timeout now timeout_secs s \<longleftrightarrow> (now - st_last_activity s) div 1000000000 \<ge> timeout_secs"

definition is_active :: "stream \<Rightarrow> bool" where
  "is_active s \<longleftrightarrow> \<not> (st_state s = Closed \<or> st_state s = Idle)"

definition find_header :: "(bytes \<Rightarrow> bool) \<Rightarrow> header_field list \<Rightarrow> bytes option" where
  "find_header P hs = map_option hf_value (List.find (\<lambda>h. P (hf_name h)) hs)"

definition stream_method :: "stream \<Rightarrow> bytes option" where
  "stream_method s = find_header (\<lambda>n. n = ascii '':method'') (st_request_headers s)"

definition stream_path :: "stream \<Rightarrow> bytes option" where
  "stream_path s = find_header (\<lambda>n. n = ascii '':path'') (st_request_headers s)"

definition stream_authority :: "stream \<Rightarrow> bytes option" where
  "stream_authority s = find_header (\<lambda>n. n = ascii '':authority'') (st_request_headers s)"

definition stream_scheme :: "stream \<Rightarrow> bytes option" where
  "stream_scheme s = find_header (\<lambda>n. n = ascii '':scheme'') (st_request_headers s)"

definition stream_content_type :: "stream \<Rightarrow> bytes option" where
  "stream_content_type s = find_header (\<lambda>n. eq_ignore_ascii_case n (ascii ''content-type'')) (st_request_headers s)"

definition set_grpc_mode :: "nat \<Rightarrow> bool \<Rightarrow> stream \<Rightarrow> stream" where
  "set_grpc_mode now enabled s =
    (let s = s\<lparr>st_grpc_mode := enabled\<rparr>
     in if enabled \<and> st_grpc_stream_state s = None
        then s\<lparr>st_grpc_stream_state := Some (grpc_stream_state_new now (st_id s))\<rparr> else s)"

definition is_grpc :: "stream \<Rightarrow> bool" where
  "is_grpc s = st_grpc_mode s"

definition detect_grpc_from_headers :: "nat \<Rightarrow> stream \<Rightarrow> stream" where
  "detect_grpc_from_headers now s =
    (case stream_content_type s of
       Some ct \<Rightarrow> if is_grpc_content_type ct then set_grpc_mode now True s else s
     | None \<Rightarrow> s)"

section \<open>The state diagram of RFC 7540, section 5.1\<close>

text \<open>
  The diagram in the source's documentation, one rule per edge, with the frames that a state lets
  through without leaving it.  A HEADERS frame with END_STREAM is two events.
\<close>

datatype rfc_event = RecvH | SendH | RecvD | SendD | RecvES | SendES | RecvR | SendR

inductive rfc_edge :: "stream_state \<Rightarrow> rfc_event \<Rightarrow> stream_state \<Rightarrow> bool" where
  idle_recv: "rfc_edge Idle RecvH Open"
| idle_send: "rfc_edge Idle SendH Open"
| reserved_recv: "rfc_edge ReservedRemote RecvH HalfClosedLocal"
| reserved_send: "rfc_edge ReservedLocal SendH HalfClosedRemote"
| open_recv_es: "rfc_edge Open RecvES HalfClosedRemote"
| open_send_es: "rfc_edge Open SendES HalfClosedLocal"
| half_recv_es: "rfc_edge HalfClosedLocal RecvES Closed"
| half_send_es: "rfc_edge HalfClosedRemote SendES Closed"
| frame_recv: "ev \<in> {RecvH, RecvD} \<Longrightarrow> st \<in> {Open, HalfClosedLocal} \<Longrightarrow> rfc_edge st ev st"
| frame_send: "ev \<in> {SendH, SendD} \<Longrightarrow> st \<in> {Open, HalfClosedRemote} \<Longrightarrow> rfc_edge st ev st"
| reset: "ev \<in> {RecvR, SendR} \<Longrightarrow> st \<noteq> Idle \<Longrightarrow> st \<noteq> Closed \<Longrightarrow> rfc_edge st ev Closed"

inductive rfc_path :: "stream_state \<Rightarrow> rfc_event list \<Rightarrow> stream_state \<Rightarrow> bool" where
  path_nil: "rfc_path st [] st"
| path_cons: "rfc_edge st ev st' \<Longrightarrow> rfc_path st' evs st'' \<Longrightarrow> rfc_path st (ev # evs) st''"

inductive_cases rfc_path_ConsE: "rfc_path st (ev # evs) st''"

inductive_simps rfc_path_Nil [simp]: "rfc_path st [] st'"

inductive_simps rfc_path_Cons: "rfc_path st (ev # evs) st''"

inductive_simps rfc_edge_event [simp]:
  "rfc_edge st RecvH st'" "rfc_edge st SendH st'" "rfc_edge st RecvD st'" "rfc_edge st SendD st'"
  "rfc_edge st RecvES st'" "rfc_edge st SendES st'" "rfc_edge st RecvR st'" "rfc_edge st SendR st'"

lemma rfc_edge_deterministic: "rfc_edge st ev a \<Longrightarrow> rfc_edge st ev b \<Longrightarrow> a = b"
  by (cases ev) auto

lemma rfc_path_deterministic: "rfc_path st evs a \<Longrightarrow> rfc_path st evs b \<Longrightarrow> a = b"
proof (induction arbitrary: b rule: rfc_path.induct)
  case (path_cons st ev st' evs st'')
  from path_cons.prems obtain u where "rfc_edge st ev u" "rfc_path u evs b" by (elim rfc_path_ConsE)
  with path_cons rfc_edge_deterministic show ?case by blast
qed simp

lemma rfc_path_append: "rfc_path st evs st' \<Longrightarrow> rfc_path st' evs' st'' \<Longrightarrow> rfc_path st (evs @ evs') st''"
  by (induction rule: rfc_path.induct) (auto intro: path_cons)

lemma rfc_closed: "rfc_path Closed evs st \<Longrightarrow> evs = [] \<and> st = Closed"
proof (cases evs)
  case (Cons ev evs')
  assume "rfc_path Closed evs st"
  then obtain st' where "rfc_edge Closed ev st'" unfolding Cons by (elim rfc_path_ConsE)
  then show ?thesis by (cases ev) auto
qed simp

section \<open>Operations as one alphabet\<close>

datatype stream_op =
    OpRecvHeaders bool | OpSendHeaders bool | OpRecvData bytes bool | OpSendData nat | OpSendEnd
  | OpRecvRst u32 | OpSendRst | OpWindowUpdate u32 | OpReplenish int

fun stream_apply :: "stream_op \<Rightarrow> (stream, http2_error, unit) step" where
  "stream_apply (OpRecvHeaders es) = recv_headers es"
| "stream_apply (OpSendHeaders es) = send_headers es"
| "stream_apply (OpRecvData d es) = recv_data d es"
| "stream_apply (OpSendData n) = prepare_send_data n"
| "stream_apply OpSendEnd = send_end_stream"
| "stream_apply (OpRecvRst code) = modify_st (recv_rst_stream code)"
| "stream_apply OpSendRst = modify_st send_rst_stream"
| "stream_apply (OpWindowUpdate n) = recv_window_update n"
| "stream_apply (OpReplenish n) = modify_st (update_recv_window n)"

fun op_events :: "stream_op \<Rightarrow> rfc_event list" where
  "op_events (OpRecvHeaders es) = RecvH # (if es then [RecvES] else [])"
| "op_events (OpSendHeaders es) = SendH # (if es then [SendES] else [])"
| "op_events (OpRecvData d es) = RecvD # (if es then [RecvES] else [])"
| "op_events OpSendEnd = [SendES]"
| "op_events (OpRecvRst _) = [RecvR]"
| "op_events OpSendRst = [SendR]"
| "op_events _ = []"

lemmas stream_op_defs = recv_headers_def send_headers_def recv_data_def recv_data_accounting_def
  prepare_send_data_def send_end_stream_def recv_rst_stream_def send_rst_stream_def
  recv_window_update_def update_recv_window_def

lemma recv_data_apply:
  "recv_data d es s =
    (case recv_data_accounting (length d) es s of
       (s', Inl e) \<Rightarrow> (s', Inl e)
     | (s', Inr _) \<Rightarrow> (s'\<lparr>st_request_body := st_request_body s' @ d\<rparr>, Inr ()))"
  by (auto simp: recv_data_def then_st_apply split: prod.splits sum.splits)

lemma recv_data_accounting_cases:
  obtains (closed) "st_state s \<noteq> Open" "st_state s \<noteq> HalfClosedLocal"
      "recv_data_accounting n es s =
        (s, Inl (StreamError (st_id s) StreamClosed
          (''Cannot receive DATA in state '' @ display_stream_state (st_state s))))"
  | (overrun) "st_state s = Open \<or> st_state s = HalfClosedLocal" "st_recv_window s < i32_of_nat n"
      "recv_data_accounting n es s =
        (s, Inl (StreamError (st_id s) FlowControlError ''Received data exceeds flow control window''))"
  | (mismatch) s' expected msg where "st_state s = Open \<or> st_state s = HalfClosedLocal"
      "i32_of_nat n \<le> st_recv_window s" "es"
      "s' = s\<lparr>st_recv_window := i32_wrap (st_recv_window s - i32_of_nat n),
              st_received_body_size := st_received_body_size s + of_nat n\<rparr>"
      "st_content_length s = Some expected" "expected \<noteq> st_received_body_size s + of_nat n"
      "recv_data_accounting n es s = (s', Inl (StreamError (st_id s) ProtocolError msg))"
  | (accepted) s' where "st_state s = Open \<or> st_state s = HalfClosedLocal"
      "i32_of_nat n \<le> st_recv_window s"
      "s' = s\<lparr>st_recv_window := i32_wrap (st_recv_window s - i32_of_nat n),
              st_received_body_size := st_received_body_size s + of_nat n\<rparr>"
      "es \<longrightarrow> st_content_length s = None \<or> st_content_length s = Some (st_received_body_size s + of_nat n)"
      "recv_data_accounting n es s =
        (if es then s'\<lparr>st_state := (if st_state s = Open then HalfClosedRemote else Closed)\<rparr> else s', Inr ())"
proof -
  let ?s = "s\<lparr>st_recv_window := i32_wrap (st_recv_window s - i32_of_nat n),
              st_received_body_size := st_received_body_size s + of_nat n\<rparr>"
  show ?thesis
  proof (cases "st_state s = Open \<or> st_state s = HalfClosedLocal")
    case False
    then show ?thesis by (intro closed) (auto simp: recv_data_accounting_def)
  next
    case True
    show ?thesis
    proof (cases "st_recv_window s < i32_of_nat n")
      case True': True
      then show ?thesis using True by (intro overrun) (auto simp: recv_data_accounting_def Let_def)
    next
      case False
      show ?thesis
      proof (cases "es \<and> st_content_length s \<noteq> None \<and> st_content_length s \<noteq> Some (st_received_body_size s + of_nat n)")
        case True': True
        then obtain expected where e: "st_content_length s = Some expected" "expected \<noteq> st_received_body_size s + of_nat n"
          by auto
        show ?thesis
          by (rule mismatch [OF True _ _ refl e]) (use True True' False e in \<open>auto simp: recv_data_accounting_def Let_def\<close>)
      next
        case False': False
        show ?thesis
          by (rule accepted [OF True _ refl])
            (use True False False' in \<open>auto simp: recv_data_accounting_def Let_def split: option.splits\<close>)
      qed
    qed
  qed
qed

section \<open>The windows as credit accounts\<close>

lemma sint_u32_small: "w < 0x80000000 \<Longrightarrow> sint (w :: u32) = uint w"
proof -
  assume "w < 0x80000000"
  then have "uint w < 2 ^ 31" by (simp add: word_less_alt)
  moreover have "- (2 ^ 31) \<le> uint w" by (rule order_trans [OF _ uint_ge_0]) simp
  ultimately have "signed_take_bit 31 (uint w) = uint w" by (intro signed_take_bit_int_eq_self)
  then show ?thesis by (simp add: sint_uint)
qed

definition windows_ok :: "stream \<Rightarrow> bool" where
  "windows_ok s \<longleftrightarrow> i32_range (st_send_window s) \<and> i32_range (st_recv_window s)"

lemma recv_data_accounting_windows: "windows_ok s \<Longrightarrow> windows_ok (fst (recv_data_accounting n es s))"
  by (rule recv_data_accounting_cases [of s n es]) (auto simp: windows_ok_def)

lemma stream_apply_windows: "windows_ok s \<Longrightarrow> windows_ok (fst (stream_apply op s))"
proof (cases op)
  case (OpRecvData d es)
  assume "windows_ok s"
  then have "windows_ok (fst (recv_data_accounting (length d) es s))" by (rule recv_data_accounting_windows)
  then show ?thesis by (auto simp: OpRecvData recv_data_apply windows_ok_def split: prod.splits sum.splits)
qed (auto simp: windows_ok_def stream_op_defs Let_def i32_checked_add_def split: stream_state.splits option.splits)

fun spend_small :: "(nat, 'g) credit_op \<Rightarrow> bool" where
  "spend_small (Spend n) \<longleftrightarrow> n < 2147483648"
| "spend_small (Pay g) \<longleftrightarrow> True"

lemma prepare_send_data_window:
  assumes "windows_ok s" "n < 2147483648" "prepare_send_data n s = (s', r)"
  shows "windows_ok s'"
    and "r = Inr u \<Longrightarrow> int n \<le> st_send_window s \<and> st_send_window s' = st_send_window s - int n"
    and "r = Inl e \<Longrightarrow> s' = s"
proof -
  have n: "i32_of_nat n = int n" using assms(2) by (rule i32_of_nat_small)
  show "windows_ok s'" using stream_apply_windows [OF assms(1), of "OpSendData n"] assms(3) by simp
  show "r = Inl e \<Longrightarrow> s' = s" using assms(3) by (auto simp: prepare_send_data_def Let_def split: if_splits)
  show "int n \<le> st_send_window s \<and> st_send_window s' = st_send_window s - int n" if "r = Inr u"
  proof -
    have le: "int n \<le> st_send_window s" "st_send_window s' = i32_wrap (st_send_window s - int n)"
      using that assms(3) n by (auto simp: prepare_send_data_def Let_def split: if_splits)
    moreover have "i32_wrap (st_send_window s - int n) = st_send_window s - int n"
      using assms(1) le(1) by (intro i32_wrap_id) (auto simp: windows_ok_def i32_range_def)
    ultimately show ?thesis by simp
  qed
qed

interpretation send_credit: credit_account st_send_window windows_ok prepare_send_data "\<lambda>n. n"
  recv_window_update sint spend_small
proof
  fix s s' :: stream and n :: nat and g :: u32 and u :: unit and e
  assume ok: "windows_ok s"
  {
    assume n: "spend_small (Spend n :: (nat, u32) credit_op)"
    then show "windows_ok (fst (prepare_send_data n s))"
      using prepare_send_data_window(1) [OF ok] by (metis prod.collapse spend_small.simps(1))
    show "prepare_send_data n s = (s', Inr u) \<Longrightarrow> int n \<le> st_send_window s \<and> st_send_window s' = st_send_window s - int n"
      using prepare_send_data_window(2) [OF ok] n by auto
    show "prepare_send_data n s = (s', Inl e) \<Longrightarrow>
        st_send_window s' \<le> st_send_window s \<and> (0 \<le> st_send_window s \<longrightarrow> 0 \<le> st_send_window s')"
      using prepare_send_data_window(3) [OF ok] n by auto
  next
    show "windows_ok (fst (recv_window_update g s))"
      using stream_apply_windows [OF ok, of "OpWindowUpdate g"] by simp
    show "recv_window_update g s = (s', Inr u) \<Longrightarrow>
        st_send_window s' \<le> st_send_window s + sint g \<and> (0 \<le> sint g \<longrightarrow> st_send_window s \<le> st_send_window s')"
      by (auto simp: recv_window_update_def i32_checked_add_def split: if_splits option.splits)
    show "recv_window_update g s = (s', Inl e) \<Longrightarrow> st_send_window s' = st_send_window s"
      by (auto simp: recv_window_update_def split: if_splits option.splits)
  }
qed

text \<open>
  The receive window: DATA frames are charged by \<open>recv_data_accounting\<close>, the increments the proxy
  announces are added with saturation.
\<close>

fun recv_small :: "(nat \<times> bool, int) credit_op \<Rightarrow> bool" where
  "recv_small (Spend d) \<longleftrightarrow> fst d < 2147483648"
| "recv_small (Pay g) \<longleftrightarrow> 0 \<le> g"

lemma recv_window_charged:
  assumes "windows_ok s" "n < 2147483648" "i32_of_nat n \<le> st_recv_window s"
  shows "i32_wrap (st_recv_window s - i32_of_nat n) = st_recv_window s - int n" "int n \<le> st_recv_window s"
proof -
  have n: "i32_of_nat n = int n" using assms(2) by (rule i32_of_nat_small)
  show "int n \<le> st_recv_window s" using assms(3) n by simp
  then show "i32_wrap (st_recv_window s - i32_of_nat n) = st_recv_window s - int n"
    using assms(1) n by (auto simp: windows_ok_def i32_range_def intro!: i32_wrap_id)
qed

interpretation recv_credit: credit_account st_recv_window windows_ok
  "\<lambda>d. recv_data_accounting (fst d) (snd d)" fst "\<lambda>g. modify_st (update_recv_window g)" "\<lambda>g. g" recv_small
proof
  fix s s' :: stream and d :: "nat \<times> bool" and g :: int and u :: unit and e
  assume ok: "windows_ok s"
  {
    assume "recv_small (Spend d)"
    then have d: "fst d < 2147483648" by simp
    note charged = recv_window_charged [OF ok d]
    show "windows_ok (fst (recv_data_accounting (fst d) (snd d) s))"
      using ok by (rule recv_data_accounting_windows)
    show "recv_data_accounting (fst d) (snd d) s = (s', Inr u) \<Longrightarrow>
        int (fst d) \<le> st_recv_window s \<and> st_recv_window s' = st_recv_window s - int (fst d)"
      by (rule recv_data_accounting_cases [of s "fst d" "snd d"]) (auto simp: charged split: if_splits)
    show "recv_data_accounting (fst d) (snd d) s = (s', Inl e) \<Longrightarrow>
        st_recv_window s' \<le> st_recv_window s \<and> (0 \<le> st_recv_window s \<longrightarrow> 0 \<le> st_recv_window s')"
      by (rule recv_data_accounting_cases [of s "fst d" "snd d"]) (auto simp: charged split: if_splits)
  next
    show "windows_ok (fst (modify_st (update_recv_window g) s))"
      using ok by (simp add: windows_ok_def update_recv_window_def)
    show "modify_st (update_recv_window g) s = (s', Inr u) \<Longrightarrow>
        st_recv_window s' \<le> st_recv_window s + g \<and> (0 \<le> g \<longrightarrow> st_recv_window s \<le> st_recv_window s')"
      if "recv_small (Pay g)"
      using ok that by (auto simp: windows_ok_def i32_range_def update_recv_window_def i32_saturating_add_def)
    show "modify_st (update_recv_window g) s = (s', Inl e) \<Longrightarrow> st_recv_window s' = st_recv_window s" by simp
  }
qed

section \<open>Body accounting\<close>

text \<open>Along the buffering path the received size counts the buffered body.\<close>

definition body_counted :: "stream \<Rightarrow> bool" where
  "body_counted s \<longleftrightarrow> st_received_body_size s = of_nat (length (st_request_body s))"

lemma recv_data_ok:
  assumes "recv_data d es s = (s', Inr u)"
  shows "st_request_body s' = st_request_body s @ d"
    and "st_received_body_size s' = st_received_body_size s + of_nat (length d)"
    and "es \<Longrightarrow> st_content_length s = None \<or> st_content_length s = Some (st_received_body_size s')"
    and "st_content_length s' = st_content_length s"
  using assms by (rule_tac recv_data_accounting_cases [of s "length d" es]; auto simp: recv_data_apply split: if_splits)+

lemma recv_data_body_counted: "body_counted s \<Longrightarrow> recv_data d es s = (s', Inr u) \<Longrightarrow> body_counted s'"
  using recv_data_ok(1,2) [of d es s s' u] by (simp add: body_counted_def)

lemma stream_new_body: "body_counted (stream_new now sid w w')"
  by (simp add: body_counted_def stream_new_def)

fun recv_all :: "bytes list \<Rightarrow> (stream, http2_error, unit) step" where
  "recv_all [] = ret_st ()"
| "recv_all [d] = recv_data d True"
| "recv_all (d # ds) = then_st (recv_data d False) (recv_all ds)"

lemma recv_all_ok:
  assumes "recv_all ds s = (s', Inr u)" "body_counted s"
  shows "st_request_body s' = st_request_body s @ concat ds \<and> body_counted s'
    \<and> st_content_length s' = st_content_length s
    \<and> (ds \<noteq> [] \<longrightarrow> st_content_length s = None \<or> st_content_length s = Some (st_received_body_size s'))"
  using assms
proof (induction ds arbitrary: s rule: recv_all.induct)
  case (2 d)
  then show ?case using recv_data_ok [of d True s s' u] recv_data_body_counted by auto
next
  case (3 d e ds)
  obtain s1 u1 where s1: "recv_data d False s = (s1, Inr u1)" "recv_all (e # ds) s1 = (s', Inr u)"
    using 3(2) by (auto simp: then_st_apply split: prod.splits sum.splits)
  have "body_counted s1" using recv_data_body_counted [OF 3(3) s1(1)] .
  with 3(1) [OF s1(2)] recv_data_ok [OF s1(1)] show ?case by auto
qed simp

section \<open>Properties\<close>

text \<open>Operations that flow control does not limit.\<close>

fun uncontrolled :: "stream_op \<Rightarrow> bool" where
  "uncontrolled (OpRecvData _ _) \<longleftrightarrow> False"
| "uncontrolled (OpSendData _) \<longleftrightarrow> False"
| "uncontrolled (OpWindowUpdate _) \<longleftrightarrow> False"
| "uncontrolled _ \<longleftrightarrow> True"

lemma rfc_path_short:
  "rfc_path st [ev] st' \<longleftrightarrow> rfc_edge st ev st'"
  "rfc_path st [ev, ev'] st' \<longleftrightarrow> (\<exists>u. rfc_edge st ev u \<and> rfc_edge u ev' st')"
  by (auto simp: rfc_path_Cons)

lemma stream_apply_path:
  assumes "is_active s \<or> op \<notin> insert OpSendRst (range OpRecvRst)" "stream_apply op s = (s', Inr u)"
  shows "rfc_path (st_state s) (op_events op) (st_state s')"
proof (cases op)
  case (OpRecvData d es)
  then show ?thesis using assms(2)
    by (rule_tac recv_data_accounting_cases [of s "length d" es])
      (auto simp: recv_data_apply rfc_path_short split: if_splits)
qed (use assms in \<open>auto simp: stream_op_defs Let_def rfc_path_short is_active_def
      split: stream_state.splits option.splits if_splits\<close>)

lemma stream_apply_error: "stream_apply op s = (s', Inl e) \<Longrightarrow> st_state s' = st_state s"
proof (cases op)
  case (OpRecvData d es)
  then show "stream_apply op s = (s', Inl e) \<Longrightarrow> st_state s' = st_state s"
    by (rule_tac recv_data_accounting_cases [of s "length d" es]) (auto simp: recv_data_apply split: if_splits)
qed (auto simp: stream_op_defs Let_def split: stream_state.splits option.splits if_splits)

lemma stream_apply_complete:
  assumes "rfc_path (st_state s) (op_events op) st'" "uncontrolled op"
  shows "\<exists>s'. stream_apply op s = (s', Inr ()) \<and> st_state s' = st'"
  using assms
  by (cases op; cases "st_state s")
    (auto simp: stream_op_defs Let_def rfc_path_short split: if_splits)





text \<open>C19: A request body that is accepted to its end with a declared content length has exactly
  that length (modulo 2 to the 64th): the buffered body is the concatenation of the DATA payloads.\<close>

theorem content_length_enforced:
  assumes "recv_all ds s = (s', Inr ())" "ds \<noteq> []" "body_counted s" "st_content_length s = Some n"
  shows "st_request_body s' = st_request_body s @ concat ds
    \<and> unat n = length (st_request_body s @ concat ds) mod 2 ^ 64"
proof -
  have "st_request_body s' = st_request_body s @ concat ds" "body_counted s'" "n = st_received_body_size s'"
    using recv_all_ok [OF assms(1,3)] assms(2,4) by auto
  then show ?thesis by (simp add: body_counted_def unat_of_nat del: of_nat_add)
qed

theorem content_length_enforced_witness:
  "(case recv_all [[1, 2], [3]] ((stream_new 0 1 10 10)\<lparr>st_state := Open, st_content_length := Some 3\<rparr>) of
     (s', r) \<Rightarrow> r = Inr () \<and> st_request_body s' = [1, 2, 3])"
proof -
  let ?s = "(stream_new 0 1 10 10)\<lparr>st_state := Open, st_content_length := Some 3\<rparr>"
  obtain s' where run: "recv_all [[1, 2], [3]] ?s = (s', Inr ())"
    by (simp add: recv_data_apply recv_data_accounting_def then_st_apply stream_new_def i32_of_nat_small i32_wrap_id i32_range_def)
  show ?thesis using content_length_enforced [OF run] unfolding run by (simp add: stream_new_def body_counted_def)
qed

text \<open>Trailers end the stream without the content-length check that DATA frames are subject to.\<close>

lemma trailers_skip_content_length:
  "recv_headers True ((stream_new 0 1 10 10)\<lparr>st_state := Open, st_content_length := Some 5\<rparr>) =
    ((stream_new 0 1 10 10)\<lparr>st_state := HalfClosedRemote, st_content_length := Some 5\<rparr>, Inr ())"
  by (simp add: recv_headers_def stream_new_def)

end
