(* ===== verification/Keyed_Store.thy ===== *)
theory Keyed_Store
  imports Prelude "HOL-Library.AList"
begin

text \<open>
  Hash maps.  A \<open>HashMap\<close> is an association list with distinct keys; the order of the list stands
  for the iteration order, which the source leaves to the hash function and on which no theorem
  relies.  The locale is the contract the components use: what a lookup returns after each
  operation.  Its lemmas lift a property of the entries through the operations.
\<close>

type_synonym ('k, 'v) store = "('k \<times> 'v) list"

definition store_get :: "('k, 'v) store \<Rightarrow> 'k \<Rightarrow> 'v option" where
  "store_get m k = map_of m k"

definition store_put :: "'k \<Rightarrow> 'v \<Rightarrow> ('k, 'v) store \<Rightarrow> ('k, 'v) store" where
  "store_put k v m = AList.update k v m"

definition store_remove :: "'k \<Rightarrow> ('k, 'v) store \<Rightarrow> ('k, 'v) store" where
  "store_remove k m = filter (\<lambda>e. fst e \<noteq> k) m"

definition store_retain :: "('k \<Rightarrow> 'v \<Rightarrow> bool) \<Rightarrow> ('k, 'v) store \<Rightarrow> ('k, 'v) store" where
  "store_retain P m = filter (\<lambda>e. P (fst e) (snd e)) m"

definition store_wf :: "('k, 'v) store \<Rightarrow> bool" where
  "store_wf m \<longleftrightarrow> distinct (map fst m)"

definition store_modify :: "'k \<Rightarrow> ('v \<Rightarrow> 'v) \<Rightarrow> ('k, 'v) store \<Rightarrow> ('k, 'v) store" where
  "store_modify k f m = (case store_get m k of None \<Rightarrow> m | Some v \<Rightarrow> store_put k (f v) m)"

locale keyed_store =
  fixes empty :: 'm
    and get :: "'m \<Rightarrow> 'k \<Rightarrow> 'v option"
    and put :: "'k \<Rightarrow> 'v \<Rightarrow> 'm \<Rightarrow> 'm"
    and retain :: "('k \<Rightarrow> 'v \<Rightarrow> bool) \<Rightarrow> 'm \<Rightarrow> 'm"
    and wf :: "'m \<Rightarrow> bool"
  assumes get_empty: "get empty k = None"
    and get_put: "get (put k v m) k' = (if k' = k then Some v else get m k')"
    and get_retain: "wf m \<Longrightarrow>
      get (retain P m) k = (case get m k of None \<Rightarrow> None | Some v \<Rightarrow> if P k v then Some v else None)"
    and wf_empty: "wf empty"
    and wf_put: "wf m \<Longrightarrow> wf (put k v m)"
    and wf_retain: "wf m \<Longrightarrow> wf (retain P m)"
begin

definition entries_all :: "('k \<Rightarrow> 'v \<Rightarrow> bool) \<Rightarrow> 'm \<Rightarrow> bool" where
  "entries_all Q m \<longleftrightarrow> (\<forall>k v. get m k = Some v \<longrightarrow> Q k v)"

lemma entries_all_empty: "entries_all Q empty"
  by (simp add: entries_all_def get_empty)

lemma entries_all_put: "entries_all Q m \<Longrightarrow> Q k v \<Longrightarrow> entries_all Q (put k v m)"
  by (auto simp: entries_all_def get_put)

lemma entries_all_retain: "wf m \<Longrightarrow> entries_all Q m \<Longrightarrow> entries_all Q (retain P m)"
  by (auto simp: entries_all_def get_retain split: option.splits if_splits)

lemma entries_all_mono: "entries_all Q m \<Longrightarrow> (\<And>k v. get m k = Some v \<Longrightarrow> Q k v \<Longrightarrow> R k v) \<Longrightarrow> entries_all R m"
  by (auto simp: entries_all_def)

lemma entries_allD: "entries_all Q m \<Longrightarrow> get m k = Some v \<Longrightarrow> Q k v"
  by (simp add: entries_all_def)

lemma retain_drops: "wf m \<Longrightarrow> entries_all P (retain P m)"
  by (auto simp: entries_all_def get_retain split: option.splits if_splits)

end

lemma map_of_retain:
  "distinct (map fst m) \<Longrightarrow>
    map_of (filter (\<lambda>e. P (fst e) (snd e)) m) k =
      (case map_of m k of None \<Rightarrow> None | Some v \<Rightarrow> if P k v then Some v else None)"
proof (induction m)
  case (Cons e m)
  have "map_of m (fst e) = None" using Cons.prems by (simp add: map_of_eq_None_iff)
  then show ?case using Cons by (cases e) (auto split: option.splits if_splits)
qed simp

interpretation hashmap: keyed_store "[]" store_get store_put store_retain store_wf
proof
  fix m :: "('a, 'b) store" and k :: 'a and P :: "'a \<Rightarrow> 'b \<Rightarrow> bool"
  assume wf: "store_wf m"
  show "store_get (store_retain P m) k = (case store_get m k of None \<Rightarrow> None | Some v \<Rightarrow> if P k v then Some v else None)"
    using wf by (simp add: store_get_def store_retain_def store_wf_def map_of_retain)
  show "store_wf (store_retain P m)"
    using wf by (simp add: store_wf_def store_retain_def distinct_map_filter)
  show "store_wf (store_put k v m)" for v
    using wf by (simp add: store_wf_def store_put_def distinct_update)
qed (auto simp: store_get_def store_put_def store_wf_def update_conv)

lemma store_get_set: "store_wf m \<Longrightarrow> store_get m k = Some v \<longleftrightarrow> (k, v) \<in> set m"
  by (simp add: store_get_def store_wf_def)

lemma store_get_modify:
  "store_get (store_modify k f m) k' = (if k' = k then map_option f (store_get m k) else store_get m k')"
  by (auto simp: store_modify_def hashmap.get_put split: option.splits)

lemma store_wf_modify: "store_wf m \<Longrightarrow> store_wf (store_modify k f m)"
  by (auto simp: store_modify_def hashmap.wf_put split: option.splits)

lemma store_get_remove: "store_get (store_remove k m) k' = (if k' = k then None else store_get m k')"
  by (induction m) (auto simp: store_get_def store_remove_def)

lemma store_wf_remove: "store_wf m \<Longrightarrow> store_wf (store_remove k m)"
  by (simp add: store_wf_def store_remove_def distinct_map_filter)

lemma entries_all_set: "store_wf m \<Longrightarrow> hashmap.entries_all Q m \<longleftrightarrow> (\<forall>e \<in> set m. Q (fst e) (snd e))"
  by (auto simp: hashmap.entries_all_def store_get_set)

lemma keys_put: "fst ` set (store_put k v m) = insert k (fst ` set m)"
  by (simp add: store_put_def dom_update)

end
