(* ===== verification/Stream_Manager.thy ===== *)
theory Stream_Manager
  imports Stream Keyed_Store "HOL-Library.Product_Lexorder" "HOL-Library.Multiset"
begin

text \<open>
  The streams of one connection (src/src/http2/stream.rs, \<open>StreamManager\<close>): creation in the order
  RFC 7540 demands, the concurrency limit, window changes by SETTINGS, priorities.  A method that
  hands out a mutable reference to a stream is modelled by the stream's presence in the table;
  the caller then works on the entry.
\<close>

record stream_manager =
  sm_streams :: "(u32, stream) store"
  sm_next_server_stream_id :: u32
  sm_max_client_stream_id :: u32
  sm_max_concurrent_streams :: u32
  sm_local_initial_window_size :: int
  sm_peer_initial_window_size :: int
  sm_receiving_headers_stream :: "u32 option"
  sm_goaway_last_stream_id :: "u32 option"

definition stream_manager_new :: "u32 \<Rightarrow> int \<Rightarrow> stream_manager" where
  "stream_manager_new max_concurrent local_initial_window =
    \<lparr>sm_streams = [], sm_next_server_stream_id = 2, sm_max_client_stream_id = 0,
     sm_max_concurrent_streams = max_concurrent, sm_local_initial_window_size = local_initial_window,
     sm_peer_initial_window_size = 65535, sm_receiving_headers_stream = None,
     sm_goaway_last_stream_id = None\<rparr>"

definition sm_get :: "stream_manager \<Rightarrow> u32 \<Rightarrow> stream option" where
  "sm_get m sid = store_get (sm_streams m) sid"

definition active_stream_count :: "stream_manager \<Rightarrow> nat" where
  "active_stream_count m = length (filter (\<lambda>e. is_active (snd e)) (sm_streams m))"

definition get_or_create_client_stream :: "nat \<Rightarrow> u32 \<Rightarrow> (stream_manager, http2_error, unit) step" where
  "get_or_create_client_stream now sid m =
    (if sid mod 2 = 0 then (m, Inl (connection_error ProtocolError ''Client stream ID must be odd''))
     else if (case sm_goaway_last_stream_id m of Some goaway_id \<Rightarrow> sid > goaway_id | None \<Rightarrow> False)
     then (m, Inl (connection_error RefusedStream ''Stream ID exceeds GOAWAY last_stream_id''))
     else if sm_get m sid \<noteq> None then (m, Inr ())
     else if sid \<le> sm_max_client_stream_id m
     then (m, Inl (connection_error ProtocolError
                    (''Stream ID '' @ show_nat (unat sid) @ '' not greater than last opened stream ''
                     @ show_nat (unat (sm_max_client_stream_id m)))))
     else if active_stream_count m \<ge> unat (sm_max_concurrent_streams m)
     then (m, Inl (stream_error sid RefusedStream ''Too many concurrent streams''))
     else
       (m\<lparr>sm_max_client_stream_id := sid,
          sm_streams := store_put sid
            (stream_new now sid (sm_peer_initial_window_size m) (sm_local_initial_window_size m)) (sm_streams m)\<rparr>,
        Inr ()))"

definition cleanup_closed :: "stream_manager \<Rightarrow> stream_manager" where
  "cleanup_closed m = m\<lparr>sm_streams := store_retain (\<lambda>_ s. st_state s \<noteq> Closed) (sm_streams m)\<rparr>"

definition get_idle_streams :: "nat \<Rightarrow> nat \<Rightarrow> stream_manager \<Rightarrow> u32 list" where
  "get_idle_streams now timeout_secs m =
    map fst (filter (\<lambda>e. (st_state (snd e) = Open \<or> st_state (snd e) = HalfClosedLocal)
                       \<and> is_idle_timeout now timeout_secs (snd e)) (sm_streams m))"

fun shift_windows :: "int \<Rightarrow> (u32, stream) store \<Rightarrow> (u32, stream) store \<times> unit http2_result" where
  "shift_windows delta [] = ([], Inr ())"
| "shift_windows delta ((k, s) # streams) =
    (case i32_checked_add (st_send_window s) delta of
       Some w \<Rightarrow>
         if w \<le> 0x7FFFFFFF
         then apfst (Cons (k, s\<lparr>st_send_window := w\<rparr>)) (shift_windows delta streams)
         else ((k, s) # streams,
               Inl (connection_error FlowControlError ''Window size overflow after SETTINGS update''))
     | None \<Rightarrow> ((k, s) # streams,
                Inl (connection_error FlowControlError ''Window size overflow after SETTINGS update'')))"

definition update_initial_window_size :: "int \<Rightarrow> (stream_manager, http2_error, unit) step" where
  "update_initial_window_size new_size m =
    (let delta = i32_wrap (new_size - sm_peer_initial_window_size m);
         m = m\<lparr>sm_peer_initial_window_size := new_size\<rparr>;
         shifted = shift_windows delta (sm_streams m)
     in (m\<lparr>sm_streams := fst shifted\<rparr>, snd shifted))"

definition set_receiving_headers :: "u32 option \<Rightarrow> stream_manager \<Rightarrow> stream_manager" where
  "set_receiving_headers sid m = m\<lparr>sm_receiving_headers_stream := sid\<rparr>"

definition next_server_stream_id :: "stream_manager \<Rightarrow> stream_manager \<times> u32" where
  "next_server_stream_id m =
    (m\<lparr>sm_next_server_stream_id := sm_next_server_stream_id m + 2\<rparr>, sm_next_server_stream_id m)"

definition set_goaway_last_stream_id :: "u32 \<Rightarrow> stream_manager \<Rightarrow> stream_manager" where
  "set_goaway_last_stream_id last_stream_id m = m\<lparr>sm_goaway_last_stream_id := Some last_stream_id\<rparr>"

text \<open>
  \<open>sort_by\<close> is stable and compares by larger weight first, then smaller dependency: sorting by the
  key below.
\<close>

definition priority_key :: "u32 \<times> stream \<Rightarrow> nat \<times> nat" where
  "priority_key e = (255 - unat (st_weight (snd e)), unat (st_dependency (snd e)))"

definition get_streams_by_priority :: "stream_manager \<Rightarrow> u32 list" where
  "get_streams_by_priority m =
    map fst (sort_key priority_key
      (filter (\<lambda>e. st_state (snd e) = Open \<or> st_state (snd e) = HalfClosedRemote) (sm_streams m)))"

definition get_dependent_streams :: "u32 \<Rightarrow> stream_manager \<Rightarrow> u32 list" where
  "get_dependent_streams parent_id m =
    map fst (filter (\<lambda>e. st_dependency (snd e) = parent_id) (sm_streams m))"

definition update_priority :: "u32 \<Rightarrow> u32 \<Rightarrow> u8 \<Rightarrow> bool \<Rightarrow> (stream_manager, http2_error, unit) step" where
  "update_priority stream_id dependency weight exclusive m =
    (if stream_id = dependency then (m, Inl (protocol_error ''Stream cannot depend on itself''))
     else
       case sm_get m stream_id of
         Some s \<Rightarrow>
           (m\<lparr>sm_streams := store_put stream_id
               (s\<lparr>st_dependency := dependency, st_weight := weight, st_exclusive := exclusive\<rparr>) (sm_streams m)\<rparr>,
            Inr ())
       | None \<Rightarrow> (m, Inl (stream_error stream_id StreamClosed ''Stream not found'')))"

section \<open>Working on one entry\<close>

text \<open>
  \<open>if let Some(s) = manager.get(id) { ... }\<close>: run a step on the entry, write it back, also when
  the step fails.
\<close>

definition with_stream :: "u32 \<Rightarrow> (stream, http2_error, 'a) step \<Rightarrow> (stream_manager, http2_error, 'a option) step" where
  "with_stream sid f m =
    (case sm_get m sid of
       None \<Rightarrow> (m, Inr None)
     | Some s \<Rightarrow>
         (m\<lparr>sm_streams := store_put sid (fst (f s)) (sm_streams m)\<rparr>,
          (case snd (f s) of Inl e \<Rightarrow> Inl e | Inr a \<Rightarrow> Inr (Some a))))"

definition modify_stream :: "u32 \<Rightarrow> (stream \<Rightarrow> stream) \<Rightarrow> stream_manager \<Rightarrow> stream_manager" where
  "modify_stream sid f m = m\<lparr>sm_streams := store_modify sid f (sm_streams m)\<rparr>"

lemma sm_get_with_stream:
  "sm_get (fst (with_stream sid f m)) k =
    (if k = sid then map_option (\<lambda>s. fst (f s)) (sm_get m sid) else sm_get m k)"
  by (auto simp: with_stream_def sm_get_def hashmap.get_put split: option.splits)

lemma sm_get_modify_stream:
  "sm_get (modify_stream sid f m) k = (if k = sid then map_option f (sm_get m sid) else sm_get m k)"
  by (simp add: modify_stream_def sm_get_def store_get_modify)

section \<open>Invariant\<close>

text \<open>
  Every entry carries its own identifier, an odd one that is not above the largest seen, and
  windows in range.
\<close>

definition stream_entry_ok :: "u32 \<Rightarrow> u32 \<Rightarrow> stream \<Rightarrow> bool" where
  "stream_entry_ok mx k s \<longleftrightarrow> st_id s = k \<and> k mod 2 = 1 \<and> k \<le> mx \<and> windows_ok s"

definition sm_inv :: "stream_manager \<Rightarrow> bool" where
  "sm_inv m \<longleftrightarrow> store_wf (sm_streams m) \<and> hashmap.entries_all (stream_entry_ok (sm_max_client_stream_id m)) (sm_streams m)
    \<and> i32_range (sm_local_initial_window_size m) \<and> i32_range (sm_peer_initial_window_size m)"

lemma sm_inv_entry: "sm_inv m \<Longrightarrow> sm_get m k = Some s \<Longrightarrow> stream_entry_ok (sm_max_client_stream_id m) k s"
  unfolding sm_inv_def sm_get_def by (blast dest: hashmap.entries_allD)

lemma sm_inv_new: "i32_range w \<Longrightarrow> sm_inv (stream_manager_new n w)"
  by (simp add: sm_inv_def stream_manager_new_def hashmap.wf_empty hashmap.entries_all_empty)
    (simp add: i32_range_def)

lemma u32_odd: "sid mod 2 \<noteq> 0 \<Longrightarrow> sid mod 2 = (1 :: u32)"
proof -
  assume a: "sid mod 2 \<noteq> 0"
  have "unat (sid mod 2) < 2" by (simp add: unat_mod)
  moreover have "unat (sid mod 2) \<noteq> 0" using a by (simp add: unat_eq_0)
  ultimately have "unat (sid mod 2) = unat (1 :: u32)" by simp
  then show ?thesis by (simp only: word_unat_eq_iff)
qed

lemma sm_inv_put:
  assumes "sm_inv m" "stream_entry_ok (sm_max_client_stream_id m) k s"
  shows "sm_inv (m\<lparr>sm_streams := store_put k s (sm_streams m)\<rparr>)"
  using assms by (simp add: sm_inv_def hashmap.wf_put hashmap.entries_all_put)

lemma sm_inv_create: "sm_inv m \<Longrightarrow> sm_inv (fst (get_or_create_client_stream now sid m))"
proof -
  assume inv: "sm_inv m"
  let ?s = "stream_new now sid (sm_peer_initial_window_size m) (sm_local_initial_window_size m)"
  let ?m = "m\<lparr>sm_max_client_stream_id := sid, sm_streams := store_put sid ?s (sm_streams m)\<rparr>"
  have "sm_inv ?m" if "sid mod 2 \<noteq> 0" "\<not> sid \<le> sm_max_client_stream_id m"
  proof -
    have "hashmap.entries_all (stream_entry_ok sid) (sm_streams m)"
    proof (rule hashmap.entries_all_mono)
      show "hashmap.entries_all (stream_entry_ok (sm_max_client_stream_id m)) (sm_streams m)"
        using inv by (simp add: sm_inv_def)
    qed (use that in \<open>auto simp: stream_entry_ok_def\<close>)
    moreover have "stream_entry_ok sid sid ?s"
      using inv that u32_odd by (simp add: stream_entry_ok_def sm_inv_def windows_ok_def stream_new_def)
    ultimately show ?thesis
      using inv by (simp add: sm_inv_def hashmap.wf_put hashmap.entries_all_put)
  qed
  then show ?thesis using inv by (auto simp: get_or_create_client_stream_def split: option.splits)
qed

lemma sm_inv_cleanup: "sm_inv m \<Longrightarrow> sm_inv (cleanup_closed m)"
  by (simp add: sm_inv_def cleanup_closed_def hashmap.wf_retain hashmap.entries_all_retain)

lemma shift_windows_get:
  "store_get (fst (shift_windows delta m)) k = Some s' \<Longrightarrow>
    \<exists>s. store_get m k = Some s \<and> (s' = s \<or> s' = s\<lparr>st_send_window := st_send_window s + delta\<rparr> \<and> i32_range (st_send_window s + delta))"
proof (induction delta m rule: shift_windows.induct)
  case (2 delta k0 s0 streams)
  then show ?case
    by (cases "i32_range (st_send_window s0 + delta)")
      (auto simp: i32_checked_add_def store_get_def split: if_splits)
qed (simp add: store_get_def)

lemma shift_windows_keys: "map fst (fst (shift_windows delta m)) = map fst m"
  by (induction delta m rule: shift_windows.induct) (auto split: option.splits)

lemma sm_inv_update_window:
  assumes "sm_inv m" "i32_range new_size"
  shows "sm_inv (fst (update_initial_window_size new_size m))"
proof -
  let ?d = "i32_wrap (new_size - sm_peer_initial_window_size m)"
  have "hashmap.entries_all (stream_entry_ok (sm_max_client_stream_id m)) (fst (shift_windows ?d (sm_streams m)))"
    unfolding hashmap.entries_all_def
  proof (intro allI impI)
    fix k s'
    assume "store_get (fst (shift_windows ?d (sm_streams m))) k = Some s'"
    then obtain s where s: "store_get (sm_streams m) k = Some s"
      "s' = s \<or> s' = s\<lparr>st_send_window := st_send_window s + ?d\<rparr> \<and> i32_range (st_send_window s + ?d)"
      using shift_windows_get by blast
    have "stream_entry_ok (sm_max_client_stream_id m) k s" using sm_inv_entry [OF assms(1)] s(1) by (simp add: sm_get_def)
    with s(2) show "stream_entry_ok (sm_max_client_stream_id m) k s'" by (auto simp: stream_entry_ok_def windows_ok_def)
  qed
  moreover have "store_wf (fst (shift_windows ?d (sm_streams m)))"
    using assms(1) by (simp add: sm_inv_def store_wf_def shift_windows_keys)
  ultimately show ?thesis using assms by (simp add: sm_inv_def update_initial_window_size_def Let_def)
qed

lemma sm_inv_update_priority: "sm_inv m \<Longrightarrow> sm_inv (fst (update_priority sid dep w ex m))"
proof -
  assume inv: "sm_inv m"
  have "sm_inv (m\<lparr>sm_streams := store_put sid
        (s\<lparr>st_dependency := dep, st_weight := w, st_exclusive := ex\<rparr>) (sm_streams m)\<rparr>)" if "sm_get m sid = Some s" for s
    using sm_inv_entry [OF inv that] by (intro sm_inv_put inv) (auto simp: stream_entry_ok_def windows_ok_def)
  then show ?thesis using inv by (auto simp: update_priority_def split: option.splits)
qed

text \<open>A step on an entry that keeps its identifier and its windows in range keeps the invariant.\<close>

definition keeps_entry :: "(stream \<Rightarrow> stream) \<Rightarrow> bool" where
  "keeps_entry f \<longleftrightarrow> (\<forall>s. st_id (f s) = st_id s \<and> (windows_ok s \<longrightarrow> windows_ok (f s)))"

lemma sm_inv_with_stream:
  assumes "sm_inv m" "keeps_entry (\<lambda>s. fst (f s))"
  shows "sm_inv (fst (with_stream sid f m))"
proof (cases "sm_get m sid")
  case (Some s)
  have "stream_entry_ok (sm_max_client_stream_id m) sid (fst (f s))"
    using sm_inv_entry [OF assms(1) Some] assms(2) by (auto simp: stream_entry_ok_def keeps_entry_def)
  then show ?thesis using sm_inv_put [OF assms(1)] Some by (simp add: with_stream_def)
qed (simp add: with_stream_def assms(1))

lemma sm_inv_modify_stream:
  assumes "sm_inv m" "keeps_entry f"
  shows "sm_inv (modify_stream sid f m)"
proof (cases "sm_get m sid")
  case (Some s)
  have "stream_entry_ok (sm_max_client_stream_id m) sid (f s)"
    using sm_inv_entry [OF assms(1) Some] assms(2) by (auto simp: stream_entry_ok_def keeps_entry_def)
  then show ?thesis using sm_inv_put [OF assms(1)] Some
    by (simp add: modify_stream_def store_modify_def sm_get_def)
qed (use assms in \<open>simp add: modify_stream_def store_modify_def sm_get_def\<close>)

lemma sm_inv_fields [simp]:
  "sm_inv (set_receiving_headers r m) = sm_inv m"
  "sm_inv (set_goaway_last_stream_id g m) = sm_inv m"
  "sm_inv (fst (next_server_stream_id m)) = sm_inv m"
  by (simp_all add: sm_inv_def set_receiving_headers_def set_goaway_last_stream_id_def next_server_stream_id_def)

section \<open>Runs of the manager\<close>

datatype sm_op =
    SmOpen nat u32 | SmStream u32 stream_op | SmCleanup | SmSettings int | SmPriority u32 u32 u8 bool
  | SmGoaway u32 | SmReceiving "u32 option"

fun sm_apply :: "sm_op \<Rightarrow> stream_manager \<Rightarrow> stream_manager" where
  "sm_apply (SmOpen now sid) m = fst (get_or_create_client_stream now sid m)"
| "sm_apply (SmStream sid op) m = fst (with_stream sid (stream_apply op) m)"
| "sm_apply SmCleanup m = cleanup_closed m"
| "sm_apply (SmSettings w) m = fst (update_initial_window_size w m)"
| "sm_apply (SmPriority sid dep w ex) m = fst (update_priority sid dep w ex m)"
| "sm_apply (SmGoaway last_id) m = set_goaway_last_stream_id last_id m"
| "sm_apply (SmReceiving r) m = set_receiving_headers r m"

text \<open>The identifiers of the streams a run creates, in order.\<close>

fun sm_opens :: "sm_op \<Rightarrow> stream_manager \<Rightarrow> u32 list" where
  "sm_opens (SmOpen now sid) m =
    (if sm_get m sid = None \<and> sm_get (fst (get_or_create_client_stream now sid m)) sid \<noteq> None then [sid] else [])"
| "sm_opens _ m = []"

fun sm_opened :: "sm_op list \<Rightarrow> stream_manager \<Rightarrow> u32 list" where
  "sm_opened [] m = []"
| "sm_opened (op # ops) m = sm_opens op m @ sm_opened ops (sm_apply op m)"

definition sm_op_ok :: "sm_op \<Rightarrow> bool" where
  "sm_op_ok op = (case op of SmSettings w \<Rightarrow> 0 \<le> w \<and> w \<le> 2147483647 | _ \<Rightarrow> True)"

lemma stream_apply_id: "st_id (fst (stream_apply op s)) = st_id s"
proof (cases op)
  case (OpRecvData d es)
  then show ?thesis
    by (rule_tac recv_data_accounting_cases [of s "length d" es]) (auto simp: recv_data_apply)
qed (auto simp: stream_op_defs Let_def split: stream_state.splits option.splits)

lemma stream_apply_keeps_entry: "keeps_entry (\<lambda>s. fst (stream_apply op s))"
  by (simp add: keeps_entry_def stream_apply_id stream_apply_windows)

lemma sm_inv_apply: "sm_inv m \<Longrightarrow> sm_op_ok op \<Longrightarrow> sm_inv (sm_apply op m)"
  by (cases op) (auto simp: sm_op_ok_def i32_range_def
      intro: sm_inv_create sm_inv_cleanup sm_inv_update_window sm_inv_update_priority sm_inv_with_stream
        stream_apply_keeps_entry)

lemma sm_inv_fold: "sm_inv m \<Longrightarrow> list_all sm_op_ok ops \<Longrightarrow> sm_inv (fold sm_apply ops m)"
  by (induction ops arbitrary: m) (auto intro: sm_inv_apply)

lemma sm_max_apply: "sm_max_client_stream_id m \<le> sm_max_client_stream_id (sm_apply op m)"
  by (cases op) (auto simp: get_or_create_client_stream_def with_stream_def cleanup_closed_def
      update_initial_window_size_def update_priority_def set_goaway_last_stream_id_def set_receiving_headers_def
      Let_def split: option.splits)

lemma sm_opens_max:
  assumes "sid \<in> set (sm_opens op m)"
  shows "sm_max_client_stream_id m < sid" "sm_max_client_stream_id (sm_apply op m) = sid" "sid mod 2 = 1"
    "case sm_goaway_last_stream_id m of None \<Rightarrow> True | Some g \<Rightarrow> sid \<le> g"
    "active_stream_count m < unat (sm_max_concurrent_streams m)" "sm_opens op m = [sid]"
proof -
  obtain now where op: "op = SmOpen now sid" and none: "sm_get m sid = None"
    and some: "sm_get (fst (get_or_create_client_stream now sid m)) sid \<noteq> None"
    using assms by (cases "(op, m)" rule: sm_opens.cases) (auto split: if_splits)
  have ok: "sid mod 2 \<noteq> 0" "\<not> sid \<le> sm_max_client_stream_id m"
    "active_stream_count m < unat (sm_max_concurrent_streams m)"
    "case sm_goaway_last_stream_id m of None \<Rightarrow> True | Some g \<Rightarrow> sid \<le> g"
    using some none by (auto simp: get_or_create_client_stream_def split: if_splits option.splits)
  show "sm_max_client_stream_id m < sid" "sid mod 2 = 1" using ok u32_odd by auto
  show "sm_max_client_stream_id (sm_apply op m) = sid"
    using ok none by (auto simp: op get_or_create_client_stream_def split: option.splits)
  show "case sm_goaway_last_stream_id m of None \<Rightarrow> True | Some g \<Rightarrow> sid \<le> g"
    "active_stream_count m < unat (sm_max_concurrent_streams m)" by (fact ok)+
  show "sm_opens op m = [sid]" using none some by (simp add: op)
qed

lemma sm_opened_bounds:
  "sorted_wrt (<) (sm_opened ops m) \<and> (\<forall>sid \<in> set (sm_opened ops m). sm_max_client_stream_id m < sid \<and> sid mod 2 = 1)"
proof (induction ops arbitrary: m)
  case (Cons op ops)
  have later: "sm_max_client_stream_id (sm_apply op m) < sid" "sid mod 2 = 1" if "sid \<in> set (sm_opened ops (sm_apply op m))" for sid
    using Cons [of "sm_apply op m"] that by auto
  show ?case
  proof (cases "sm_opens op m")
    case Nil
    then show ?thesis using Cons [of "sm_apply op m"] sm_max_apply [of m op] by auto
  next
    case (Cons sid rest)
    then have "sid \<in> set (sm_opens op m)" by simp
    note o = sm_opens_max [OF this]
    have "sm_opens op m = [sid]" by (rule o(6))
    then show ?thesis
      using o(1-3) later Cons.IH [of "sm_apply op m"] sm_max_apply [of m op] by (auto intro: less_trans)
  qed
qed simp

section \<open>Properties\<close>

text \<open>C20: Whatever requests and frames arrive, the streams a connection opens have strictly
  increasing odd identifiers, all above those seen before: no identifier is opened twice, also
  not after its stream was closed and dropped.\<close>

theorem stream_ids_never_reused:
  "sorted_wrt (<) (sm_opened ops m)
    \<and> (\<forall>sid \<in> set (sm_opened ops m). sm_max_client_stream_id m < sid \<and> sid mod 2 = 1)"
  by (rule sm_opened_bounds)

theorem stream_ids_never_reused_witness:
  "sorted_wrt (<) (sm_opened [SmOpen 0 1, SmStream 1 OpSendRst, SmCleanup, SmOpen 0 1, SmOpen 0 3] (stream_manager_new 100 65535))
    \<and> sm_opened [SmOpen 0 1, SmStream 1 OpSendRst, SmCleanup, SmOpen 0 1, SmOpen 0 3] (stream_manager_new 100 65535) = [1, 3]"
proof -
  have run: "sm_opened [SmOpen 0 1, SmStream 1 OpSendRst, SmCleanup, SmOpen 0 1, SmOpen 0 3] (stream_manager_new 100 65535) = [1, 3]"
    by code_simp
  show ?thesis using stream_ids_never_reused [of _ "stream_manager_new 100 65535"] run by blast
qed

text \<open>C21: The stream table keeps its invariant under every operation, in any order: distinct keys,
  each entry under its own odd identifier not above the largest one seen, both windows within
  signed 32 bits.\<close>

theorem stream_table_invariant:
  assumes "i32_range w" "list_all sm_op_ok ops"
  shows "sm_inv (fold sm_apply ops (stream_manager_new n w))"
  using sm_inv_fold [OF sm_inv_new] assms by blast

theorem stream_table_invariant_witness:
  "sm_inv (fold sm_apply [SmOpen 0 1, SmStream 1 (OpRecvHeaders False), SmSettings 2147483647, SmCleanup] (stream_manager_new 100 65535))"
  by (rule stream_table_invariant) (simp_all add: i32_range_def sm_op_ok_def)



text \<open>C23: A changed initial window size is applied to every open stream as RFC 7540 demands: if no
  stream's window would leave the 32-bit range, each send window moves by exactly the difference
  (and may become negative); otherwise the peer gets a connection-level flow-control error.\<close>

theorem settings_shift_windows:
  assumes "0 \<le> sm_peer_initial_window_size m" "sm_peer_initial_window_size m \<le> 2147483647"
    and "0 \<le> new_size" "new_size \<le> 2147483647"
  shows "(if \<forall>e \<in> set (sm_streams m). i32_range (st_send_window (snd e) + (new_size - sm_peer_initial_window_size m))
     then update_initial_window_size new_size m =
       (m\<lparr>sm_peer_initial_window_size := new_size,
          sm_streams := map (\<lambda>(k, s). (k, s\<lparr>st_send_window := st_send_window s + (new_size - sm_peer_initial_window_size m)\<rparr>))
            (sm_streams m)\<rparr>, Inr ())
     else snd (update_initial_window_size new_size m) =
       Inl (ConnectionError FlowControlError ''Window size overflow after SETTINGS update''))"
proof -
  let ?d = "new_size - sm_peer_initial_window_size m"
  have d: "i32_wrap ?d = ?d" using assms by (intro i32_wrap_id) (auto simp: i32_range_def)
  have ok: "shift_windows ?d st = (map (\<lambda>(k, s). (k, s\<lparr>st_send_window := st_send_window s + ?d\<rparr>)) st, Inr ())"
    if "\<forall>e \<in> set st. i32_range (st_send_window (snd e) + ?d)" for st
    using that by (induction st) (auto simp: i32_checked_add_def i32_range_def)
  have bad: "snd (shift_windows ?d st) = Inl (ConnectionError FlowControlError ''Window size overflow after SETTINGS update'')"
    if "\<not> (\<forall>e \<in> set st. i32_range (st_send_window (snd e) + ?d))" for st
    using that
  proof (induction st)
    case (Cons e st)
    then show ?case
      by (cases e; cases "i32_range (st_send_window (snd e) + ?d)") (simp_all add: i32_checked_add_def)
  qed simp
  show ?thesis using ok [of "sm_streams m"] bad [of "sm_streams m"]
    by (simp add: update_initial_window_size_def Let_def d)
qed

theorem settings_shift_windows_witness:
  "fst (update_initial_window_size 10 (fold sm_apply [SmOpen 0 1] (stream_manager_new 100 65535))) =
    (fold sm_apply [SmOpen 0 1] (stream_manager_new 100 65535))
      \<lparr>sm_peer_initial_window_size := 10, sm_streams := [(1, stream_new 0 1 10 65535)]\<rparr>"
proof -
  let ?m = "fold sm_apply [SmOpen 0 1] (stream_manager_new 100 65535)"
  have s: "sm_streams ?m = [(1, stream_new 0 1 65535 65535)]" "sm_peer_initial_window_size ?m = 65535"
    by code_simp+
  show ?thesis
    using settings_shift_windows [of ?m 10] unfolding s by (simp add: i32_range_def stream_new_def)
qed

text \<open>C24: The scheduling order lists exactly the streams that can still be sent on, each once, by
  decreasing weight and among equal weights by increasing dependency.\<close>

theorem priority_order:
  assumes "sm_inv m"
  shows "mset (get_streams_by_priority m) =
      mset_set {k. \<exists>s. sm_get m k = Some s \<and> (st_state s = Open \<or> st_state s = HalfClosedRemote)}
    \<and> sorted_wrt (\<lambda>a b. \<forall>s t. sm_get m a = Some s \<and> sm_get m b = Some t \<longrightarrow>
        st_weight t < st_weight s \<or> st_weight t = st_weight s \<and> st_dependency s \<le> st_dependency t)
      (get_streams_by_priority m)"
proof -
  have wf: "store_wf (sm_streams m)" using assms by (simp add: sm_inv_def)
  let ?P = "\<lambda>e. st_state (snd e) = Open \<or> st_state (snd e) = HalfClosedRemote"
  let ?es = "filter ?P (sm_streams m)"
  let ?sorted = "sort_key priority_key ?es"
  have dist: "distinct (map fst ?es)" using wf by (simp add: store_wf_def distinct_map_filter)
  have "mset (map fst ?sorted) = mset (map fst ?es)" by simp
  also have "\<dots> = mset_set (set (map fst ?es))" using dist by (rule mset_set_set [symmetric])
  also have "set (map fst ?es) = {k. \<exists>s. sm_get m k = Some s \<and> (st_state s = Open \<or> st_state s = HalfClosedRemote)}"
    using store_get_set [OF wf] by (force simp: sm_get_def)
  finally have perm: "mset (get_streams_by_priority m) = mset_set \<dots>" by (simp add: get_streams_by_priority_def)
  have get: "sm_get m (fst e) = Some (snd e)" if "e \<in> set ?sorted" for e
    using that store_get_set [OF wf, of "fst e" "snd e"] by (simp add: sm_get_def)
  have "sorted_wrt (\<lambda>a b. priority_key a \<le> priority_key b) ?sorted"
    using sorted_sort_key [of priority_key ?es] by (simp add: sorted_map)
  then have "sorted_wrt (\<lambda>a b. \<forall>s t. sm_get m (fst a) = Some s \<and> sm_get m (fst b) = Some t \<longrightarrow>
        st_weight t < st_weight s \<or> st_weight t = st_weight s \<and> st_dependency s \<le> st_dependency t) ?sorted"
  proof (rule sorted_wrt_mono_rel [rotated])
    fix a b
    assume ab: "a \<in> set ?sorted" "b \<in> set ?sorted" "priority_key a \<le> priority_key b"
    have bound: "unat w \<le> 255" for w :: u8 using unsigned_less [of w, where ?'a = nat] by simp
    show "\<forall>s t. sm_get m (fst a) = Some s \<and> sm_get m (fst b) = Some t \<longrightarrow>
        st_weight t < st_weight s \<or> st_weight t = st_weight s \<and> st_dependency s \<le> st_dependency t"
      using ab(3) bound [of "st_weight (snd a)"] bound [of "st_weight (snd b)"] get [OF ab(1)] get [OF ab(2)]
      by (auto simp: priority_key_def less_eq_prod_def word_less_nat_alt word_le_nat_alt word_unat_eq_iff)
  qed
  with perm show ?thesis by (simp add: get_streams_by_priority_def sorted_wrt_map)
qed

theorem priority_order_witness:
  "let m = fold sm_apply
      [SmOpen 0 1, SmStream 1 (OpRecvHeaders True), SmOpen 0 3, SmStream 3 (OpRecvHeaders True), SmPriority 3 1 200 False]
      (stream_manager_new 100 65535)
   in get_streams_by_priority m = [3, 1]
    \<and> mset_set {k. \<exists>s. sm_get m k = Some s \<and> (st_state s = Open \<or> st_state s = HalfClosedRemote)} = {#3, 1#}"
proof -
  let ?ops = "[SmOpen 0 1, SmStream 1 (OpRecvHeaders True), SmOpen 0 3, SmStream 3 (OpRecvHeaders True), SmPriority 3 1 200 False]"
  let ?m = "fold sm_apply ?ops (stream_manager_new 100 65535)"
  have run: "get_streams_by_priority ?m = [3, 1]" by code_simp
  have "sm_inv ?m" by (intro sm_inv_fold sm_inv_new) (simp_all add: i32_range_def sm_op_ok_def)
  from priority_order [OF this] show ?thesis using run by (simp add: Let_def)
qed

end
