(* ===== verification/Connection.thy ===== *)
theory Connection
  imports Transport Settings Frame_Codec Hpack_Codec Stream_Manager Incremental
begin

text \<open>
  The server side of an HTTP/2 connection (src/src/http2/connection.rs): its state, the read
  buffer, reading frames, writing and coalescing frames, the handshake.  Asynchronous methods are
  steps on the connection; awaiting the socket is reading the transport's script.  The clock is
  the transport's.
\<close>

record h2conn =
  hc_stream :: transport
  hc_local_settings :: http2_settings
  hc_remote_settings :: http2_settings
  hc_streams :: stream_manager
  hc_hpack_decoder :: hpack_decoder
  hc_hpack_encoder :: hpack_encoder
  hc_frame_encoder :: frame_encoder
  hc_frame_decoder :: frame_decoder
  hc_conn_send_window :: int
  hc_conn_recv_window :: int
  hc_goaway_sent :: bool
  hc_goaway_received :: bool
  hc_goaway_last_stream_id :: "u32 option"
  hc_settings_ack_pending :: bool
  hc_read_buf :: bytes
  hc_buf_start :: nat
  hc_buf_end :: nat
  hc_rst_stream_count :: u32
  hc_rst_stream_window_start :: nat
  hc_control_frame_count :: u32
  hc_control_frame_window_start :: nat
  hc_continuation_count :: u32
  hc_write_buf :: bytes

type_synonym 'a conn_step = "(h2conn, http2_error, 'a) step"

definition CONNECTION_PREFACE :: bytes where
  "CONNECTION_PREFACE =
    ascii ''PRI * HTTP/2.0'' @ [0x0D, 0x0A, 0x0D, 0x0A] @ ascii ''SM'' @ [0x0D, 0x0A, 0x0D, 0x0A]"

section \<open>Buffer pools\<close>

text \<open>
  The thread-local pools keep the capacities of returned buffers; a buffer taken from a pool is
  cleared, so only its length matters to the connection.
\<close>

definition H2_READ_BUF_SIZE :: nat where
  "H2_READ_BUF_SIZE = 65536"

definition H2_READ_BUF_POOL_MAX :: nat where
  "H2_READ_BUF_POOL_MAX = 256"

definition H2_READ_BUF_RETAIN_MAX :: nat where
  "H2_READ_BUF_RETAIN_MAX = 1048576"

definition WRITE_BUF_FLUSH_THRESHOLD :: nat where
  "WRITE_BUF_FLUSH_THRESHOLD = 128 * 1024"

definition acquire_h2_read_buf :: "nat list \<Rightarrow> nat list \<times> bytes" where
  "acquire_h2_read_buf pool = (tl pool, replicate H2_READ_BUF_SIZE 0)"

definition acquire_h2_write_buf :: "nat list \<Rightarrow> nat list \<times> bytes" where
  "acquire_h2_write_buf pool = (tl pool, [])"

definition release_h2_buf :: "nat \<Rightarrow> nat list \<Rightarrow> nat list" where
  "release_h2_buf cap pool =
    (if cap = 0 \<or> cap > H2_READ_BUF_RETAIN_MAX then pool
     else if length pool < H2_READ_BUF_POOL_MAX then cap # pool
     else pool)"

lemma release_bounded:
  "length pool \<le> H2_READ_BUF_POOL_MAX \<Longrightarrow> length (release_h2_buf cap pool) \<le> H2_READ_BUF_POOL_MAX"
  by (auto simp: release_h2_buf_def)

section \<open>Construction\<close>

definition conn_new_with_initial_buffer :: "transport \<Rightarrow> http2_settings \<Rightarrow> bytes \<Rightarrow> h2conn" where
  "conn_new_with_initial_buffer t settings initial_data =
    (let now = tr_now t;
         read_buf = snd (acquire_h2_read_buf []);
         len = min (length initial_data) 65536
     in \<lparr>hc_stream = t,
         hc_local_settings = settings,
         hc_remote_settings = settings_default,
         hc_streams = stream_manager_new (hs_max_concurrent_streams settings) (sint (hs_initial_window_size settings)),
         hc_hpack_decoder = hpack_decoder_new (unat (hs_header_table_size settings)),
         hc_hpack_encoder = hpack_encoder_new (unat (hs_header_table_size settings)),
         hc_frame_encoder = frame_encoder_new (hs_max_frame_size settings),
         hc_frame_decoder = frame_decoder_new (hs_max_frame_size settings),
         hc_conn_send_window = 65535,
         hc_conn_recv_window = sint (hs_connection_window_size settings),
         hc_goaway_sent = False,
         hc_goaway_received = False,
         hc_goaway_last_stream_id = None,
         hc_settings_ack_pending = False,
         hc_read_buf = take len initial_data @ drop len read_buf,
         hc_buf_start = 0,
         hc_buf_end = len,
         hc_rst_stream_count = 0,
         hc_rst_stream_window_start = now,
         hc_control_frame_count = 0,
         hc_control_frame_window_start = now,
         hc_continuation_count = 0,
         hc_write_buf = snd (acquire_h2_write_buf [])\<rparr>)"

definition conn_new :: "transport \<Rightarrow> http2_settings \<Rightarrow> h2conn" where
  "conn_new t settings = conn_new_with_initial_buffer t settings []"

section \<open>Access to the parts\<close>

definition conn_now :: "h2conn \<Rightarrow> nat" where
  "conn_now c = tr_now (hc_stream c)"

definition on_streams :: "(stream_manager, http2_error, 'a) step \<Rightarrow> 'a conn_step" where
  "on_streams f c = (case f (hc_streams c) of (m, r) \<Rightarrow> (c\<lparr>hc_streams := m\<rparr>, r))"

definition conn_get :: "h2conn \<Rightarrow> u32 \<Rightarrow> stream option" where
  "conn_get c sid = sm_get (hc_streams c) sid"

text \<open>\<open>if let Some(stream) = self.streams.get(id) { stream.f()?; }\<close>\<close>

definition on_stream :: "u32 \<Rightarrow> (stream, http2_error, unit) step \<Rightarrow> unit conn_step" where
  "on_stream sid f = then_st (on_streams (with_stream sid f)) (ret_st ())"

definition update_stream :: "u32 \<Rightarrow> (stream \<Rightarrow> stream) \<Rightarrow> unit conn_step" where
  "update_stream sid f = modify_st (\<lambda>c. c\<lparr>hc_streams := modify_stream sid f (hc_streams c)\<rparr>)"

definition update_streams :: "(stream_manager \<Rightarrow> stream_manager) \<Rightarrow> unit conn_step" where
  "update_streams f = modify_st (\<lambda>c. c\<lparr>hc_streams := f (hc_streams c)\<rparr>)"

section \<open>Writing\<close>

function write_all_raw :: "bytes \<Rightarrow> unit conn_step" where
  "write_all_raw buf c =
    (case tr_write_all buf (hc_stream c) of
       (t, Inr _) \<Rightarrow> (c\<lparr>hc_stream := t\<rparr>, Inr ())
     | (t, Inl (IoWouldBlock msg)) \<Rightarrow> write_all_raw buf (c\<lparr>hc_stream := t\<rparr>)
     | (t, Inl e) \<Rightarrow> (c\<lparr>hc_stream := t\<rparr>, Inl (Io e)))"
  by pat_completeness auto

text \<open>The runtime repeats blocked writes itself, so the loop never goes round.\<close>

termination
  by (relation "{}") (auto dest: tr_write_all_no_block [OF sym])

declare write_all_raw.simps [simp del]

definition write_all :: "bytes \<Rightarrow> unit conn_step" where
  "write_all buf = write_all_raw buf"

definition flush_write_buf :: "unit conn_step" where
  "flush_write_buf c =
    (if hc_write_buf c = [] then (c, Inr ())
     else write_all_raw (hc_write_buf c) (c\<lparr>hc_write_buf := []\<rparr>))"

definition queue_frame :: "bytes \<Rightarrow> unit conn_step" where
  "queue_frame frame = modify_st (\<lambda>c. c\<lparr>hc_write_buf := hc_write_buf c @ frame\<rparr>)"

section \<open>Reading\<close>

definition compact_buffer :: "h2conn \<Rightarrow> h2conn" where
  "compact_buffer c =
    (if hc_buf_start c > 0
     then
       let remaining = hc_buf_end c - hc_buf_start c
       in c\<lparr>hc_read_buf := take remaining (drop (hc_buf_start c) (hc_read_buf c)) @ drop remaining (hc_read_buf c),
            hc_buf_start := 0, hc_buf_end := remaining\<rparr>
     else c)"

definition grow_read_buf :: "h2conn \<Rightarrow> h2conn" where
  "grow_read_buf c =
    (if hc_buf_end c \<ge> length (hc_read_buf c)
     then
       if hc_buf_start c > 0 then compact_buffer c
       else
         let min_capacity = unat (fd_max_frame_size (hc_frame_decoder c)) + FRAME_HEADER_SIZE + 1024;
             new_capacity = max (length (hc_read_buf c) * 2) min_capacity
         in c\<lparr>hc_read_buf := hc_read_buf c @ replicate (new_capacity - length (hc_read_buf c)) 0\<rparr>
     else c)"

definition fill_read_buf :: "nat conn_step" where
  "fill_read_buf c =
    (let c = grow_read_buf c;
         full_buf = take (hc_buf_end c) (hc_read_buf c);
         cap = length (hc_read_buf c) - hc_buf_end c
     in case tr_read cap (hc_stream c) of
          (t, Inr returned) \<Rightarrow>
            if returned = [] then (c\<lparr>hc_stream := t, hc_read_buf := full_buf\<rparr>, Inl ConnectionClosed)
            else (c\<lparr>hc_stream := t, hc_read_buf := full_buf @ returned,
                    hc_buf_end := hc_buf_end c + length returned\<rparr>, Inr (length returned))
        | (t, Inl e) \<Rightarrow> (c\<lparr>hc_stream := t, hc_read_buf := full_buf\<rparr>, Inl (Io e)))"

definition try_read_frame_buffered :: "frame option conn_step" where
  "try_read_frame_buffered c =
    (if hc_buf_end c - hc_buf_start c < FRAME_HEADER_SIZE then (c, Inr None)
     else
       case decode_header (hc_frame_decoder c) (drop (hc_buf_start c) (hc_read_buf c)) of
         Inl e \<Rightarrow> (c, Inl e)
       | Inr header \<Rightarrow>
           let total_len = FRAME_HEADER_SIZE + unat (fh_length header)
           in if hc_buf_end c - hc_buf_start c < total_len then (c, Inr None)
              else
                let payload_start = hc_buf_start c + FRAME_HEADER_SIZE;
                    payload_end = hc_buf_start c + total_len
                in if payload_end > hc_buf_end c \<or> payload_end > length (hc_read_buf c)
                   then (c, Inl (InvalidFrame (''Buffer underflow: expected '' @ show_nat total_len
                               @ '' bytes, available '' @ show_nat (hc_buf_end c - hc_buf_start c))))
                   else
                     case frame_decode header (take (payload_end - payload_start) (drop payload_start (hc_read_buf c))) of
                       Inl e \<Rightarrow> (c, Inl e)
                     | Inr frame \<Rightarrow>
                         let c = c\<lparr>hc_buf_start := hc_buf_start c + total_len\<rparr>
                         in (if hc_buf_start c > 32768 then compact_buffer c else c, Inr (Some frame)))"

text \<open>What is still to be read, buffered or in the script.\<close>

definition input_left :: "h2conn \<Rightarrow> nat" where
  "input_left c = script_size (hc_stream c) + (hc_buf_end c - hc_buf_start c)"

lemma grow_read_buf_stream [simp]:
  "hc_stream (grow_read_buf c) = hc_stream c" "hc_stream (compact_buffer c) = hc_stream c"
  by (simp_all add: grow_read_buf_def compact_buffer_def Let_def)

lemma fill_read_buf_shrinks: "fill_read_buf c = (c', Inr n) \<Longrightarrow> script_size (hc_stream c') < script_size (hc_stream c)"
  using tr_read_shrinks [of _ "hc_stream c"]
  by (auto simp: fill_read_buf_def Let_def split: prod.splits sum.splits if_splits)

lemma try_read_stream: "try_read_frame_buffered c = (c', r) \<Longrightarrow> hc_stream c' = hc_stream c"
  by (auto simp: try_read_frame_buffered_def Let_def split: sum.splits if_splits)

function read_frame :: "frame conn_step" where
  "read_frame c =
    (case try_read_frame_buffered c of
       (c', Inl e) \<Rightarrow> (c', Inl e)
     | (c', Inr (Some frame)) \<Rightarrow> (c', Inr frame)
     | (c', Inr None) \<Rightarrow>
         (case fill_read_buf c' of
            (c'', Inl e) \<Rightarrow> (c'', Inl e)
          | (c'', Inr _) \<Rightarrow> read_frame c''))"
  by pat_completeness auto

termination
  by (relation "measure (\<lambda>c. script_size (hc_stream c))")
    (auto dest!: try_read_stream [OF sym] fill_read_buf_shrinks [OF sym])

declare read_frame.simps [simp del]

section \<open>Handshake\<close>

function expect_preface_fill :: "unit conn_step" where
  "expect_preface_fill c =
    (if hc_buf_end c - hc_buf_start c < length CONNECTION_PREFACE
     then (case fill_read_buf c of
             (c', Inl e) \<Rightarrow> (c', Inl e)
           | (c', Inr _) \<Rightarrow> expect_preface_fill c')
     else (c, Inr ()))"
  by pat_completeness auto

termination
  by (relation "measure (\<lambda>c. script_size (hc_stream c))") (auto dest!: fill_read_buf_shrinks [OF sym])

declare expect_preface_fill.simps [simp del]

definition expect_preface :: "unit conn_step" where
  "expect_preface =
    then_st expect_preface_fill (\<lambda>c.
      (let received = take (length CONNECTION_PREFACE) (drop (hc_buf_start c) (hc_read_buf c))
       in if received \<noteq> CONNECTION_PREFACE then (c, Inl InvalidPreface)
          else (c\<lparr>hc_buf_start := hc_buf_start c + length CONNECTION_PREFACE\<rparr>, Inr ())))"

definition send_settings :: "unit conn_step" where
  "send_settings =
    bind_st (gets_st (\<lambda>c. settings_chunks (settings_encode (hc_local_settings c)))) (\<lambda>settings.
    then_st (write_all (encode_settings settings False))
      (modify_st (\<lambda>c. c\<lparr>hc_settings_ack_pending := True\<rparr>)))"

definition handshake :: "unit conn_step" where
  "handshake =
    then_st expect_preface
    (then_st send_settings
    (bind_st (gets_st (\<lambda>c. sint (hs_connection_window_size (hc_local_settings c)))) (\<lambda>target_window.
      let default_window = sint CONNECTION_WINDOW_SIZE
      in if target_window > default_window
         then write_all (encode_window_update 0 (of_int (i32_wrap (target_window - default_window))))
         else ret_st ())))"

end
