(* ===== verification/Request_Validation.thy ===== *)
theory Request_Validation
  imports Http2_Error Hpack_Table Rust_Text
begin

text \<open>
  Validation of decoded request headers and trailers (src/src/http2/connection.rs,
  \<open>validate_request_headers\<close>).  The pseudo-header counters are \<open>u8\<close>, as in the source, and wrap.
\<close>

record pseudo_counts =
  pc_seen_regular :: bool
  pc_method :: u8
  pc_scheme :: u8
  pc_path :: u8
  pc_authority :: u8

definition pseudo_counts_init :: pseudo_counts where
  "pseudo_counts_init = \<lparr>pc_seen_regular = False, pc_method = 0, pc_scheme = 0, pc_path = 0, pc_authority = 0\<rparr>"

definition is_ascii_uppercase :: "u8 \<Rightarrow> bool" where
  "is_ascii_uppercase b \<longleftrightarrow> 0x41 \<le> b \<and> b \<le> 0x5A"

definition is_pseudo :: "bytes \<Rightarrow> bool" where
  "is_pseudo name \<longleftrightarrow> (case name of [] \<Rightarrow> False | b # _ \<Rightarrow> b = 0x3A)"

definition connection_specific :: "bytes \<Rightarrow> bool" where
  "connection_specific name \<longleftrightarrow>
    name \<in> {ascii ''connection'', ascii ''keep-alive'', ascii ''proxy-connection'',
            ascii ''transfer-encoding'', ascii ''upgrade''}"

definition validate_pseudo :: "u32 \<Rightarrow> bool \<Rightarrow> header_field \<Rightarrow> pseudo_counts \<Rightarrow> pseudo_counts http2_result" where
  "validate_pseudo sid is_trailer h c =
    (let name = hf_name h
     in if is_trailer then Inl (stream_error sid ProtocolError ''Pseudo-header in trailer'')
        else if pc_seen_regular c
        then Inl (stream_error sid ProtocolError ''Pseudo-header after regular header'')
        else if name = ascii '':method'' then Inr (c\<lparr>pc_method := pc_method c + 1\<rparr>)
        else if name = ascii '':scheme'' then Inr (c\<lparr>pc_scheme := pc_scheme c + 1\<rparr>)
        else if name = ascii '':path'' then
          (if hf_value h = [] then Inl (stream_error sid ProtocolError ''Empty :path pseudo-header'')
           else Inr (c\<lparr>pc_path := pc_path c + 1\<rparr>))
        else if name = ascii '':authority'' then Inr (c\<lparr>pc_authority := pc_authority c + 1\<rparr>)
        else if name = ascii '':status''
        then Inl (stream_error sid ProtocolError ''Response pseudo-header :status in request'')
        else Inl (stream_error sid ProtocolError ''Unknown pseudo-header''))"

definition validate_regular :: "u32 \<Rightarrow> header_field \<Rightarrow> pseudo_counts \<Rightarrow> pseudo_counts http2_result" where
  "validate_regular sid h c =
    (let c = c\<lparr>pc_seen_regular := True\<rparr>;
         lower = to_ascii_lowercase (hf_name h)
     in if connection_specific lower
        then Inl (stream_error sid ProtocolError ''Connection-specific header field'')
        else if lower = ascii ''te'' \<and> \<not> eq_ignore_ascii_case (hf_value h) (ascii ''trailers'')
        then Inl (stream_error sid ProtocolError (''TE header with value other than '' @ [CHR 0x27] @ ''trailers'' @ [CHR 0x27]))
        else Inr c)"

fun validate_loop :: "u32 \<Rightarrow> bool \<Rightarrow> header_field list \<Rightarrow> pseudo_counts \<Rightarrow> pseudo_counts http2_result" where
  "validate_loop sid is_trailer [] c = Inr c"
| "validate_loop sid is_trailer (h # hs) c =
    (if list_ex is_ascii_uppercase (hf_name h)
     then Inl (stream_error sid ProtocolError ''Header name contains uppercase characters'')
     else
       bind_res (if is_pseudo (hf_name h) then validate_pseudo sid is_trailer h c else validate_regular sid h c)
         (\<lambda>c. validate_loop sid is_trailer hs c))"

definition validate_counts :: "u32 \<Rightarrow> pseudo_counts \<Rightarrow> unit http2_result" where
  "validate_counts sid c =
    (if pc_method c \<noteq> 1
     then Inl (stream_error sid ProtocolError
                (if pc_method c = 0 then ''Missing :method pseudo-header'' else ''Duplicate :method pseudo-header''))
     else if pc_scheme c \<noteq> 1
     then Inl (stream_error sid ProtocolError
                (if pc_scheme c = 0 then ''Missing :scheme pseudo-header'' else ''Duplicate :scheme pseudo-header''))
     else if pc_path c \<noteq> 1
     then Inl (stream_error sid ProtocolError
                (if pc_path c = 0 then ''Missing :path pseudo-header'' else ''Duplicate :path pseudo-header''))
     else if pc_authority c > 1
     then Inl (stream_error sid ProtocolError ''Duplicate :authority pseudo-header'')
     else Inr ())"

definition validate_request_headers :: "header_field list \<Rightarrow> u32 \<Rightarrow> bool \<Rightarrow> unit http2_result" where
  "validate_request_headers headers sid is_trailer =
    bind_res (validate_loop sid is_trailer headers pseudo_counts_init) (\<lambda>c.
      if \<not> is_trailer then validate_counts sid c else Inr ())"

section \<open>The rules of RFC 7540, section 8.1.2\<close>

definition count_name :: "string \<Rightarrow> header_field list \<Rightarrow> nat" where
  "count_name n hs = length (filter (\<lambda>h. hf_name h = ascii n) hs)"

definition regular_ok :: "header_field \<Rightarrow> bool" where
  "regular_ok h \<longleftrightarrow> \<not> connection_specific (hf_name h)
    \<and> (hf_name h = ascii ''te'' \<longrightarrow> eq_ignore_ascii_case (hf_value h) (ascii ''trailers''))"

definition pseudo_ok :: "header_field \<Rightarrow> bool" where
  "pseudo_ok h \<longleftrightarrow> hf_name h \<in> {ascii '':method'', ascii '':scheme'', ascii '':path'', ascii '':authority''}
    \<and> (hf_name h = ascii '':path'' \<longrightarrow> hf_value h \<noteq> [])"

text \<open>
  Lower-case names, no connection-specific fields, pseudo-headers first and only the request ones,
  each at most once and the three mandatory ones present.
\<close>

definition rfc_request :: "header_field list \<Rightarrow> bool" where
  "rfc_request hs \<longleftrightarrow>
    (\<forall>h \<in> set hs. list_all (\<lambda>b. \<not> is_ascii_uppercase b) (hf_name h))
    \<and> (\<exists>ps rs. hs = ps @ rs \<and> (\<forall>h \<in> set ps. pseudo_ok h) \<and> (\<forall>h \<in> set rs. \<not> is_pseudo (hf_name h) \<and> regular_ok h))
    \<and> count_name '':method'' hs = 1 \<and> count_name '':scheme'' hs = 1 \<and> count_name '':path'' hs = 1
    \<and> count_name '':authority'' hs \<le> 1"

definition rfc_trailers :: "header_field list \<Rightarrow> bool" where
  "rfc_trailers hs \<longleftrightarrow>
    (\<forall>h \<in> set hs. list_all (\<lambda>b. \<not> is_ascii_uppercase b) (hf_name h) \<and> \<not> is_pseudo (hf_name h) \<and> regular_ok h)"

section \<open>Lemmas\<close>

lemma lowercase_id: "list_all (\<lambda>b. \<not> is_ascii_uppercase b) n \<Longrightarrow> to_ascii_lowercase n = n"
  by (induction n) (auto simp: to_ascii_lowercase_def u8_to_ascii_lowercase_def is_ascii_uppercase_def)

lemma not_upper: "list_ex is_ascii_uppercase n \<longleftrightarrow> \<not> list_all (\<lambda>b. \<not> is_ascii_uppercase b) n"
  by (induction n) auto

lemma validate_regular_iff:
  "list_all (\<lambda>b. \<not> is_ascii_uppercase b) (hf_name h) \<Longrightarrow>
    validate_regular sid h c = Inr c' \<longleftrightarrow> regular_ok h \<and> c' = c\<lparr>pc_seen_regular := True\<rparr>"
  by (auto simp: validate_regular_def regular_ok_def lowercase_id Let_def split: if_splits)

lemma pseudo_ok_is_pseudo: "pseudo_ok h \<Longrightarrow> is_pseudo (hf_name h)"
  by (auto simp: pseudo_ok_def is_pseudo_def)

text \<open>What the loop has counted, as numbers modulo 256.\<close>

definition bump :: "pseudo_counts \<Rightarrow> header_field list \<Rightarrow> pseudo_counts" where
  "bump c hs = c\<lparr>pc_method := pc_method c + of_nat (count_name '':method'' hs),
    pc_scheme := pc_scheme c + of_nat (count_name '':scheme'' hs),
    pc_path := pc_path c + of_nat (count_name '':path'' hs),
    pc_authority := pc_authority c + of_nat (count_name '':authority'' hs)\<rparr>"

lemma validate_pseudo_iff:
  "validate_pseudo sid False h c = Inr c' \<longleftrightarrow> \<not> pc_seen_regular c \<and> pseudo_ok h \<and> c' = bump c [h]"
  by (auto simp: validate_pseudo_def pseudo_ok_def bump_def count_name_def Let_def split: if_splits)

lemma bump_Nil [simp]: "bump c [] = c"
  by (simp add: bump_def count_name_def)

lemma bump_Cons: "bump (bump c [h]) hs = bump c (h # hs)"
  by (simp add: bump_def count_name_def)

lemma bump_regular [simp]: "pc_seen_regular (bump c hs) = pc_seen_regular c"
  by (simp add: bump_def)

lemma count_pseudo_only: "\<forall>h \<in> set rs. \<not> is_pseudo (hf_name h) \<Longrightarrow>
    count_name '':method'' rs = 0 \<and> count_name '':scheme'' rs = 0 \<and> count_name '':path'' rs = 0
    \<and> count_name '':authority'' rs = 0"
  by (auto simp: count_name_def is_pseudo_def filter_empty_conv split: list.splits)

lemma validate_loop_regular:
  "pc_seen_regular c \<Longrightarrow> validate_loop sid False hs c = Inr c' \<longleftrightarrow>
    rfc_trailers hs \<and> c' = c"
proof (induction hs arbitrary: c)
  case (Cons h hs)
  show ?case
  proof (cases "list_all (\<lambda>b. \<not> is_ascii_uppercase b) (hf_name h)")
    case True
    show ?thesis
    proof (cases "is_pseudo (hf_name h)")
      case True': True
      then show ?thesis using Cons.prems True by (auto simp: not_upper validate_pseudo_iff rfc_trailers_def)
    next
      case False
      have "c\<lparr>pc_seen_regular := True\<rparr> = c" using Cons.prems by simp
      then show ?thesis using Cons True False
        by (auto simp: not_upper validate_regular_iff rfc_trailers_def)
    qed
  qed (auto simp: not_upper rfc_trailers_def)
qed (auto simp: rfc_trailers_def)

lemma validate_loop_trailers: "validate_loop sid True hs c = Inr c' \<longrightarrow> rfc_trailers hs"
  "rfc_trailers hs \<longrightarrow> (\<exists>c'. validate_loop sid True hs c = Inr c')"
proof (induction hs arbitrary: c c')
  case (Cons h hs)
  {
    case 1
    then show ?case using Cons(1)
      by (auto simp: not_upper validate_pseudo_def validate_regular_iff rfc_trailers_def Let_def split: if_splits)
  next
    case 2
    then show ?case using Cons(2) by (auto simp: not_upper validate_regular_iff rfc_trailers_def)
  }
qed (auto simp: rfc_trailers_def)

lemma pseudo_ok_lower: "pseudo_ok h \<Longrightarrow> list_all (\<lambda>b. \<not> is_ascii_uppercase b) (hf_name h)"
  by (auto simp: pseudo_ok_def is_ascii_uppercase_def)

lemma validate_loop_request:
  "\<not> pc_seen_regular c \<Longrightarrow> validate_loop sid False hs c = Inr c' \<longleftrightarrow>
    (\<exists>ps rs. hs = ps @ rs \<and> (\<forall>h \<in> set ps. pseudo_ok h) \<and> rfc_trailers rs
      \<and> c' = (bump c ps)\<lparr>pc_seen_regular := (rs \<noteq> [])\<rparr>)"
proof (induction hs arbitrary: c)
  case Nil
  have "c\<lparr>pc_seen_regular := False\<rparr> = c" using Nil by simp
  then show ?case by (auto simp: rfc_trailers_def)
next
  case (Cons h hs)
  consider (upper) "\<not> list_all (\<lambda>b. \<not> is_ascii_uppercase b) (hf_name h)"
    | (pseudo) "list_all (\<lambda>b. \<not> is_ascii_uppercase b) (hf_name h)" "is_pseudo (hf_name h)"
    | (regular) "list_all (\<lambda>b. \<not> is_ascii_uppercase b) (hf_name h)" "\<not> is_pseudo (hf_name h)"
    by blast
  then show ?case
  proof cases
    case upper
    then show ?thesis using pseudo_ok_lower [of h] by (auto simp: not_upper Cons_eq_append_conv rfc_trailers_def)
  next
    case pseudo
    have "validate_loop sid False (h # hs) c = Inr c' \<longleftrightarrow> pseudo_ok h \<and> validate_loop sid False hs (bump c [h]) = Inr c'"
      using pseudo Cons.prems by (auto simp: not_upper validate_pseudo_iff)
    also have "\<dots> \<longleftrightarrow> pseudo_ok h \<and> (\<exists>ps rs. hs = ps @ rs \<and> (\<forall>h \<in> set ps. pseudo_ok h) \<and> rfc_trailers rs
        \<and> c' = (bump c (h # ps))\<lparr>pc_seen_regular := (rs \<noteq> [])\<rparr>)"
      using Cons.IH [of "bump c [h]"] Cons.prems by (simp add: bump_Cons)
    also have "\<dots> \<longleftrightarrow> (\<exists>ps rs. h # hs = ps @ rs \<and> (\<forall>h \<in> set ps. pseudo_ok h) \<and> rfc_trailers rs
        \<and> c' = (bump c ps)\<lparr>pc_seen_regular := (rs \<noteq> [])\<rparr>)"
      using pseudo by (auto simp: Cons_eq_append_conv rfc_trailers_def) (metis append_Cons list.set_intros(1) set_ConsD)+
    finally show ?thesis .
  next
    case regular
    have "validate_loop sid False (h # hs) c = Inr c' \<longleftrightarrow> rfc_trailers (h # hs) \<and> c' = c\<lparr>pc_seen_regular := True\<rparr>"
      using regular validate_loop_regular [of "c\<lparr>pc_seen_regular := True\<rparr>" sid hs c']
      by (auto simp: not_upper validate_regular_iff rfc_trailers_def)
    also have "\<dots> \<longleftrightarrow> (\<exists>ps rs. h # hs = ps @ rs \<and> (\<forall>h \<in> set ps. pseudo_ok h) \<and> rfc_trailers rs
        \<and> c' = (bump c ps)\<lparr>pc_seen_regular := (rs \<noteq> [])\<rparr>)"
    proof
      assume "rfc_trailers (h # hs) \<and> c' = c\<lparr>pc_seen_regular := True\<rparr>"
      then show "\<exists>ps rs. h # hs = ps @ rs \<and> (\<forall>h \<in> set ps. pseudo_ok h) \<and> rfc_trailers rs
          \<and> c' = (bump c ps)\<lparr>pc_seen_regular := (rs \<noteq> [])\<rparr>"
        by (intro exI [of _ "[]"] exI [of _ "h # hs"]) simp
    qed (use regular pseudo_ok_is_pseudo [of h] in \<open>auto simp: Cons_eq_append_conv\<close>)
    finally show ?thesis .
  qed
qed

lemma u8_count: "n < 256 \<Longrightarrow> ((of_nat n :: u8) = 1) = (n = 1)" "n < 256 \<Longrightarrow> (1 < (of_nat n :: u8)) = (1 < n)"
proof -
  assume n: "n < 256"
  have "((of_nat n :: u8) = 1) = (unat (of_nat n :: u8) = unat (1 :: u8))" by (simp only: word_unat_eq_iff)
  then show "((of_nat n :: u8) = 1) = (n = 1)" using n by (simp add: unat_u8_of_nat)
  show "(1 < (of_nat n :: u8)) = (1 < n)" using n by (simp add: word_less_nat_alt unat_u8_of_nat)
qed

lemma validate_counts_Inr:
  "validate_counts sid c = Inr () \<longleftrightarrow> pc_method c = 1 \<and> pc_scheme c = 1 \<and> pc_path c = 1 \<and> \<not> 1 < pc_authority c"
  by (auto simp: validate_counts_def)

lemma count_name_append: "count_name n (xs @ ys) = count_name n xs + count_name n ys"
  by (simp add: count_name_def)

lemma count_name_le: "count_name n hs \<le> length hs"
  by (simp add: count_name_def)

lemma rfc_trailers_no_pseudo: "rfc_trailers rs \<Longrightarrow>
    count_name '':method'' rs = 0 \<and> count_name '':scheme'' rs = 0 \<and> count_name '':path'' rs = 0
    \<and> count_name '':authority'' rs = 0"
  by (rule count_pseudo_only) (simp add: rfc_trailers_def)

lemma rfc_request_split:
  "rfc_request hs \<longleftrightarrow>
    (\<exists>ps rs. hs = ps @ rs \<and> (\<forall>h \<in> set ps. pseudo_ok h) \<and> rfc_trailers rs
      \<and> count_name '':method'' ps = 1 \<and> count_name '':scheme'' ps = 1 \<and> count_name '':path'' ps = 1
      \<and> count_name '':authority'' ps \<le> 1)" (is "_ \<longleftrightarrow> ?R")
proof
  assume "rfc_request hs"
  then obtain ps rs where hs: "hs = ps @ rs" "\<forall>h \<in> set ps. pseudo_ok h"
    and rs: "\<forall>h \<in> set rs. \<not> is_pseudo (hf_name h) \<and> regular_ok h"
    and rest: "\<forall>h \<in> set hs. list_all (\<lambda>b. \<not> is_ascii_uppercase b) (hf_name h)"
      "count_name '':method'' hs = 1" "count_name '':scheme'' hs = 1" "count_name '':path'' hs = 1"
      "count_name '':authority'' hs \<le> 1"
    by (auto simp: rfc_request_def)
  have "rfc_trailers rs" using rs rest(1) hs(1) by (simp add: rfc_trailers_def)
  then show ?R using hs rest rfc_trailers_no_pseudo [of rs] by (auto simp: count_name_append)
next
  assume ?R
  then obtain ps rs where hs: "hs = ps @ rs" "\<forall>h \<in> set ps. pseudo_ok h" "rfc_trailers rs"
    and counts: "count_name '':method'' ps = 1" "count_name '':scheme'' ps = 1" "count_name '':path'' ps = 1"
      "count_name '':authority'' ps \<le> 1"
    by blast
  then show "rfc_request hs"
    using rfc_trailers_no_pseudo [OF hs(3)] pseudo_ok_lower
    by (auto simp: rfc_request_def count_name_append) (auto simp: rfc_trailers_def)
qed

lemma validation_accepts:
  assumes "length hs < 256"
  shows "validate_request_headers hs sid is_trailer = Inr () \<longleftrightarrow> (if is_trailer then rfc_trailers hs else rfc_request hs)"
proof (cases is_trailer)
  case True
  then show ?thesis
    using validate_loop_trailers [where ?hs = hs and ?sid = sid and ?c = pseudo_counts_init]
    by (auto simp: validate_request_headers_def)
next
  case False
  have init: "\<not> pc_seen_regular pseudo_counts_init" by (simp add: pseudo_counts_init_def)
  have counts: "validate_counts sid ((bump pseudo_counts_init ps)\<lparr>pc_seen_regular := b\<rparr>) = Inr () \<longleftrightarrow>
      count_name '':method'' ps = 1 \<and> count_name '':scheme'' ps = 1 \<and> count_name '':path'' ps = 1
      \<and> count_name '':authority'' ps \<le> 1" if "length ps < 256" for ps b
    using that count_name_le [of _ ps] le_less_trans [OF count_name_le that]
    by (simp add: validate_counts_Inr bump_def pseudo_counts_init_def u8_count not_less)
  have "validate_request_headers hs sid is_trailer = Inr () \<longleftrightarrow>
      (\<exists>c'. validate_loop sid False hs pseudo_counts_init = Inr c' \<and> validate_counts sid c' = Inr ())"
    using False by (simp add: validate_request_headers_def)
  also have "\<dots> \<longleftrightarrow> (\<exists>ps rs. hs = ps @ rs \<and> (\<forall>h \<in> set ps. pseudo_ok h) \<and> rfc_trailers rs
      \<and> validate_counts sid ((bump pseudo_counts_init ps)\<lparr>pc_seen_regular := (rs \<noteq> [])\<rparr>) = Inr ())"
    unfolding validate_loop_request [OF init] by blast
  also have "\<dots> \<longleftrightarrow> rfc_request hs"
    unfolding rfc_request_split by (intro iff_exI) (use assms counts in auto)
  finally show ?thesis using False by simp
qed

lemma validate_loop_error: "validate_loop sid is_trailer hs c = Inl e \<Longrightarrow> \<exists>msg. e = StreamError sid ProtocolError msg"
  by (induction sid is_trailer hs c rule: validate_loop.induct)
    (auto simp: bind_res_Inl_iff validate_pseudo_def validate_regular_def Let_def split: if_splits)

lemma validation_error:
  "validate_request_headers hs sid is_trailer = Inl e \<Longrightarrow> \<exists>msg. e = StreamError sid ProtocolError msg"
  by (auto simp: validate_request_headers_def bind_res_Inl_iff validate_counts_def dest: validate_loop_error split: if_splits)

section \<open>Properties\<close>



text \<open>
  The eight-bit counters wrap, so beyond that length the duplicate check fails: 257 fields
  \<open>:method\<close> count as one.
\<close>

lemma validate_loop_methods:
  "\<not> pc_seen_regular c \<Longrightarrow>
    validate_loop sid False (replicate n (header_field_new (ascii '':method'') v) @ hs) c =
      validate_loop sid False hs (c\<lparr>pc_method := pc_method c + of_nat n\<rparr>)"
proof (induction n arbitrary: c)
  case (Suc n)
  have "validate_loop sid False (header_field_new (ascii '':method'') v # hs') c =
      validate_loop sid False hs' (c\<lparr>pc_method := pc_method c + 1\<rparr>)" for hs'
    using Suc.prems by (simp add: header_field_new_def is_ascii_uppercase_def is_pseudo_def validate_pseudo_def)
  then show ?case using Suc.IH [of "c\<lparr>pc_method := pc_method c + 1\<rparr>"] Suc.prems by (simp add: algebra_simps)
qed simp

lemma validation_counter_wraps:
  "validate_request_headers
     (replicate 257 (header_field_new (ascii '':method'') (ascii ''GET''))
      @ [header_field_new (ascii '':scheme'') (ascii ''https''), header_field_new (ascii '':path'') (ascii ''/'')]) sid False = Inr ()"
  unfolding validate_request_headers_def
  by (subst validate_loop_methods)
    (simp_all add: pseudo_counts_init_def header_field_new_def is_ascii_uppercase_def is_pseudo_def validate_pseudo_def
      validate_counts_def)

end
