(* ===== verification/Connection_Recv.thy ===== *)
theory Connection_Recv
  imports Connection Request_Validation
begin

text \<open>
  Frame processing (src/src/http2/connection.rs, \<open>process_frame\<close> and the handlers): every frame
  type, with the limits that protect against floods.
\<close>

record processed_request =
  pr_stream_id :: u32
  pr_body_pending :: bool

section \<open>Control frames out\<close>

definition conn_send_rst_stream :: "u32 \<Rightarrow> http2_error_code \<Rightarrow> unit conn_step" where
  "conn_send_rst_stream sid code =
    then_st (write_all (encode_rst_stream sid (error_code_as_u32 code)))
      (update_stream sid send_rst_stream)"

definition send_goaway :: "http2_error_code \<Rightarrow> bytes \<Rightarrow> unit conn_step" where
  "send_goaway code debug_data c =
    (if hc_goaway_sent c then (c, Inr ())
     else
       then_st (write_all (encode_goaway (sm_max_client_stream_id (hc_streams c)) (error_code_as_u32 code) debug_data))
         (modify_st (\<lambda>c. c\<lparr>hc_goaway_sent := True\<rparr>)) c)"

section \<open>Rate limits\<close>

definition check_control_frame_rate :: "unit conn_step" where
  "check_control_frame_rate c =
    (let now = conn_now c;
         elapsed = now - hc_control_frame_window_start c
     in if elapsed div 1000000000 \<ge> 1
        then (c\<lparr>hc_control_frame_count := 1, hc_control_frame_window_start := now\<rparr>, Inr ())
        else
          let c = c\<lparr>hc_control_frame_count := hc_control_frame_count c + 1\<rparr>
          in if hc_control_frame_count c > hs_max_control_frames_per_second (hc_local_settings c)
             then (c, Inl (connection_error EnhanceYourCalm ''Control frame rate limit exceeded''))
             else (c, Inr ()))"

definition check_rst_rate :: "unit conn_step" where
  "check_rst_rate c =
    (let now = conn_now c;
         elapsed = now - hc_rst_stream_window_start c
     in if elapsed div 1000000000 \<ge> 1
        then (c\<lparr>hc_rst_stream_count := 1, hc_rst_stream_window_start := now\<rparr>, Inr ())
        else
          let c = c\<lparr>hc_rst_stream_count := hc_rst_stream_count c + 1\<rparr>
          in if hc_rst_stream_count c > hs_max_rst_stream_per_second (hc_local_settings c)
             then (c, Inl (connection_error EnhanceYourCalm ''RST_STREAM rate limit exceeded''))
             else (c, Inr ()))"

section \<open>Settings, ping, goaway, reset, priority\<close>

definition apply_setting :: "u16 \<times> u32 \<Rightarrow> unit conn_step" where
  "apply_setting setting =
    (let sid = fst setting; v = snd setting
     in if sid = 0x1 then
          modify_st (\<lambda>c. c\<lparr>hc_hpack_encoder := he_set_max_table_size (unat v) (hc_hpack_encoder c)\<rparr>)
        else if sid = 0x2 then
          (if v > 1 then throw_st (connection_error ProtocolError ''ENABLE_PUSH must be 0 or 1'') else ret_st ())
        else if sid = 0x3 then ret_st ()
        else if sid = 0x4 then
          (if v > 0x7FFFFFFF then throw_st (connection_error FlowControlError ''INITIAL_WINDOW_SIZE too large'')
           else
             then_st (on_streams (update_initial_window_size (sint v)))
               (modify_st (\<lambda>c. c\<lparr>hc_remote_settings := (hc_remote_settings c)\<lparr>hs_initial_window_size := v\<rparr>\<rparr>)))
        else if sid = 0x5 then
          (if \<not> (MAX_FRAME_SIZE \<le> v \<and> v \<le> MAX_FRAME_SIZE_UPPER_LIMIT)
           then throw_st (protocol_error ''Invalid MAX_FRAME_SIZE'')
           else
             modify_st (\<lambda>c. c\<lparr>hc_frame_encoder := fe_set_max_frame_size v (hc_frame_encoder c),
                hc_remote_settings := (hc_remote_settings c)\<lparr>hs_max_frame_size := v\<rparr>\<rparr>))
        else if sid = 0x6 then
          modify_st (\<lambda>c. c\<lparr>hc_remote_settings := (hc_remote_settings c)\<lparr>hs_max_header_list_size := v\<rparr>\<rparr>)
        else ret_st ())"

fun apply_settings :: "(u16 \<times> u32) list \<Rightarrow> unit conn_step" where
  "apply_settings [] = ret_st ()"
| "apply_settings (setting # settings) = then_st (apply_setting setting) (apply_settings settings)"

definition handle_settings :: "bool \<Rightarrow> (u16 \<times> u32) list \<Rightarrow> unit conn_step" where
  "handle_settings ack settings =
    (if ack then modify_st (\<lambda>c. c\<lparr>hc_settings_ack_pending := False\<rparr>)
     else
       then_st check_control_frame_rate
       (then_st (apply_settings settings)
       (write_all encode_settings_ack)))"

definition handle_ping :: "bool \<Rightarrow> bytes \<Rightarrow> unit conn_step" where
  "handle_ping ack data =
    (if \<not> ack then then_st check_control_frame_rate (write_all (encode_ping data True)) else ret_st ())"

definition handle_goaway :: "u32 \<Rightarrow> u32 \<Rightarrow> bytes \<Rightarrow> unit conn_step" where
  "handle_goaway last_stream_id code debug_data =
    then_st (modify_st (\<lambda>c. c\<lparr>hc_goaway_received := True, hc_goaway_last_stream_id := Some last_stream_id\<rparr>))
      (update_streams (set_goaway_last_stream_id last_stream_id))"

definition handle_rst_stream :: "u32 \<Rightarrow> u32 \<Rightarrow> unit conn_step" where
  "handle_rst_stream sid code = then_st check_rst_rate (update_stream sid (recv_rst_stream code))"

definition set_priority :: "priority_spec \<Rightarrow> stream \<Rightarrow> stream" where
  "set_priority p s =
    s\<lparr>st_dependency := ps_dependency p, st_weight := ps_weight p, st_exclusive := ps_exclusive p\<rparr>"

definition handle_priority :: "u32 \<Rightarrow> priority_spec \<Rightarrow> unit conn_step" where
  "handle_priority sid p = update_stream sid (set_priority p)"

section \<open>Flow control\<close>

definition handle_window_update :: "u32 \<Rightarrow> u32 \<Rightarrow> unit conn_step" where
  "handle_window_update sid increment =
    (if sid = 0
     then (\<lambda>c.
       case i32_checked_add (hc_conn_send_window c) (sint increment) of
         Some w \<Rightarrow>
           if w \<le> 0x7FFFFFFF then (c\<lparr>hc_conn_send_window := w\<rparr>, Inr ())
           else (c, Inl (connection_error FlowControlError ''Connection window overflow''))
       | None \<Rightarrow> (c, Inl (connection_error FlowControlError ''Connection window overflow'')))
     else on_stream sid (recv_window_update increment))"

text \<open>\<open>x / 2\<close> on \<open>i32\<close> rounds towards zero.\<close>

definition i32_half :: "int \<Rightarrow> int" where
  "i32_half x = (if x < 0 then - ((- x) div 2) else x div 2)"

definition conn_increment :: "h2conn \<Rightarrow> int" where
  "conn_increment c = i32_wrap (sint CONNECTION_WINDOW_SIZE - hc_conn_recv_window c)"

definition stream_increment :: "u32 \<Rightarrow> h2conn \<Rightarrow> int option" where
  "stream_increment sid c =
    (case conn_get c sid of
       Some s \<Rightarrow>
         let increment = i32_wrap (sint (hs_initial_window_size (hc_local_settings c)) - st_recv_window s)
         in if increment > i32_half (sint (hs_initial_window_size (hc_local_settings c)))
            then Some increment else None
     | None \<Rightarrow> None)"

text \<open>
  The two variants of replenishing differ in how the WINDOW_UPDATE frames leave: written at once
  or appended to the coalescing buffer.
\<close>

definition replenish_windows :: "(bytes \<Rightarrow> unit conn_step) \<Rightarrow> u32 \<Rightarrow> unit conn_step" where
  "replenish_windows emit sid =
    then_st
      (bind_st (gets_st conn_increment) (\<lambda>increment.
        if increment > i32_half (sint CONNECTION_WINDOW_SIZE)
        then then_st (emit (encode_window_update 0 (of_int increment)))
          (modify_st (\<lambda>c. c\<lparr>hc_conn_recv_window := i32_wrap (hc_conn_recv_window c + increment)\<rparr>))
        else ret_st ()))
      (bind_st (gets_st (stream_increment sid)) (\<lambda>inc.
        case inc of
          Some increment \<Rightarrow>
            then_st (emit (encode_window_update sid (of_int increment)))
              (update_stream sid (update_recv_window increment))
        | None \<Rightarrow> ret_st ()))"

definition maybe_send_window_update :: "u32 \<Rightarrow> unit conn_step" where
  "maybe_send_window_update sid = replenish_windows write_all sid"

definition replenish_recv_window :: "u32 \<Rightarrow> h2conn \<Rightarrow> h2conn" where
  "replenish_recv_window sid c = fst (replenish_windows queue_frame sid c)"

definition charge_conn_window :: "nat \<Rightarrow> unit conn_step" where
  "charge_conn_window len c =
    (let data_len = i32_of_nat len
     in if data_len > hc_conn_recv_window c
        then (c, Inl (connection_error FlowControlError ''Connection flow control window exceeded''))
        else (c\<lparr>hc_conn_recv_window := i32_wrap (hc_conn_recv_window c - data_len)\<rparr>, Inr ()))"

definition require_stream :: "u32 \<Rightarrow> http2_error \<Rightarrow> unit conn_step" where
  "require_stream sid e c = (if conn_get c sid = None then (c, Inl e) else (c, Inr ()))"

definition handle_data :: "u32 \<Rightarrow> bool \<Rightarrow> bytes \<Rightarrow> processed_request option conn_step" where
  "handle_data sid end_stream data =
    then_st (charge_conn_window (length data))
    (then_st (require_stream sid (stream_error sid StreamClosed ''Stream not found''))
    (bind_st (gets_st conn_now) (\<lambda>now.
    then_st (update_stream sid (update_activity now))
    (then_st (on_stream sid (recv_data data end_stream))
    (then_st (maybe_send_window_update sid)
    (ret_st (if end_stream then Some \<lparr>pr_stream_id = sid, pr_body_pending = False\<rparr> else None)))))))"

definition validate_stream_not_idle :: "u32 \<Rightarrow> string \<Rightarrow> unit conn_step" where
  "validate_stream_not_idle sid frame_type c =
    (if conn_get c sid = None
     then (c, Inl (connection_error ProtocolError (frame_type @ '' frame on idle stream '' @ show_nat (unat sid))))
     else (c, Inr ()))"

definition recv_data_for_streaming :: "u32 \<Rightarrow> bool \<Rightarrow> nat \<Rightarrow> unit conn_step" where
  "recv_data_for_streaming sid end_stream data_len c =
    (if sm_receiving_headers_stream (hc_streams c) \<noteq> None
     then (c, Inl (connection_error ProtocolError ''Expected CONTINUATION frame during header block''))
     else
       then_st (validate_stream_not_idle sid ''DATA'')
       (then_st (charge_conn_window data_len)
       (then_st (require_stream sid (stream_error sid StreamClosed ''Stream not found''))
       (bind_st (gets_st conn_now) (\<lambda>now.
       then_st (update_stream sid (update_activity now))
         (on_stream sid (recv_data_accounting data_len end_stream)))))) c)"

section \<open>Headers\<close>

definition parse_content_length :: "header_field list \<Rightarrow> u64 option" where
  "parse_content_length headers =
    (case find_header (\<lambda>n. n = ascii ''content-length'') headers of
       Some v \<Rightarrow> if is_utf8 v then map_option of_nat (parse_u64 v) else None
     | None \<Rightarrow> None)"

definition set_request_headers :: "header_field list \<Rightarrow> stream \<Rightarrow> stream" where
  "set_request_headers headers s =
    (let s = s\<lparr>st_request_headers := headers\<rparr>
     in case parse_content_length headers of
          Some len \<Rightarrow> s\<lparr>st_content_length := Some len\<rparr>
        | None \<Rightarrow> s)"

definition hpack_decode_block :: "bytes \<Rightarrow> header_field list conn_step" where
  "hpack_decode_block block c =
    (case hpack_decode (hc_hpack_decoder c) block of
       (d, Inr headers) \<Rightarrow> (c\<lparr>hc_hpack_decoder := d\<rparr>, Inr headers)
     | (d, Inl e) \<Rightarrow>
         (c\<lparr>hc_hpack_decoder := d\<rparr>,
          Inl (compression_error (''HPACK decode error: '' @ display_hpack_error e))))"

definition decode_and_set_headers :: "u32 \<Rightarrow> bool \<Rightarrow> unit conn_step" where
  "decode_and_set_headers sid is_trailer c =
    (case conn_get c sid of
       None \<Rightarrow> (c, Inl (stream_error sid StreamClosed ''Stream not found''))
     | Some s \<Rightarrow>
         let header_block = snd (take_header_block s)
         in then_st (update_stream sid (\<lambda>s. fst (take_header_block s)))
            (bind_st (hpack_decode_block header_block) (\<lambda>headers.
             then_st (lift_res (validate_request_headers headers sid is_trailer))
             (if \<not> is_trailer then update_stream sid (set_request_headers headers) else ret_st ()))) c)"

definition headers_result :: "u32 \<Rightarrow> bool \<Rightarrow> bool \<Rightarrow> processed_request option" where
  "headers_result sid end_stream is_trailer =
    (if end_stream then Some \<lparr>pr_stream_id = sid, pr_body_pending = False\<rparr>
     else if \<not> is_trailer then Some \<lparr>pr_stream_id = sid, pr_body_pending = True\<rparr>
     else None)"

definition finish_headers :: "u32 \<Rightarrow> bool \<Rightarrow> bool \<Rightarrow> processed_request option conn_step" where
  "finish_headers sid end_stream is_trailer =
    then_st (update_streams (set_receiving_headers None))
    (then_st (modify_st (\<lambda>c. c\<lparr>hc_continuation_count := 0\<rparr>))
    (then_st (decode_and_set_headers sid is_trailer)
    (ret_st (headers_result sid end_stream is_trailer))))"

text \<open>Obtaining the stream: on a stream error the peer is told at once, then the error is returned.\<close>

definition obtain_stream :: "u32 \<Rightarrow> unit conn_step" where
  "obtain_stream sid c =
    (case get_or_create_client_stream (conn_now c) sid (hc_streams c) of
       (m, Inr _) \<Rightarrow> (c\<lparr>hc_streams := m\<rparr>, Inr ())
     | (m, Inl e) \<Rightarrow>
         (case rst_stream_id e of
            Some rid \<Rightarrow> (fst (conn_send_rst_stream rid (error_code e) (c\<lparr>hc_streams := m\<rparr>)), Inl e)
          | None \<Rightarrow> (c\<lparr>hc_streams := m\<rparr>, Inl e)))"

definition receiving_body :: "stream option \<Rightarrow> bool" where
  "receiving_body s = (case s of Some s \<Rightarrow> st_state s = Open \<or> st_state s = HalfClosedLocal | None \<Rightarrow> False)"

definition handle_headers :: "u32 \<Rightarrow> bool \<Rightarrow> bool \<Rightarrow> priority_spec option \<Rightarrow> bytes \<Rightarrow> processed_request option conn_step" where
  "handle_headers sid end_stream end_headers priority header_block c =
    (if (case sm_receiving_headers_stream (hc_streams c) of Some pending_id \<Rightarrow> pending_id \<noteq> sid | None \<Rightarrow> False)
     then (c, Inl (protocol_error ''Expected CONTINUATION frame''))
     else
       let c = c\<lparr>hc_continuation_count := 0\<rparr>
       in if length header_block > hs_max_header_block_size (hc_local_settings c)
          then (c, Inl (stream_error sid EnhanceYourCalm ''Header block size limit exceeded''))
          else
            let is_trailer = (receiving_body (conn_get c sid) \<and> end_stream)
            in if receiving_body (conn_get c sid) \<and> \<not> end_stream
               then (c, Inl (stream_error sid ProtocolError ''Second HEADERS frame without END_STREAM''))
               else
                 then_st (obtain_stream sid)
                 (then_st (on_stream sid (recv_headers end_stream))
                 (then_st (case priority of Some p \<Rightarrow> update_stream sid (set_priority p) | None \<Rightarrow> ret_st ())
                 (then_st (update_stream sid (append_header_fragment header_block end_headers))
                 (if end_headers then finish_headers sid end_stream is_trailer
                  else then_st (update_streams (set_receiving_headers (Some sid))) (ret_st None))))) c)"

definition handle_continuation :: "u32 \<Rightarrow> bool \<Rightarrow> bytes \<Rightarrow> processed_request option conn_step" where
  "handle_continuation sid end_headers header_block c =
    (case sm_receiving_headers_stream (hc_streams c) of
       None \<Rightarrow> (c, Inl (protocol_error ''Unexpected CONTINUATION''))
     | Some pending_id \<Rightarrow>
         if pending_id \<noteq> sid then (c, Inl (protocol_error ''CONTINUATION for wrong stream''))
         else
           let c = c\<lparr>hc_continuation_count := hc_continuation_count c + 1\<rparr>
           in if hc_continuation_count c > hs_max_continuation_frames (hc_local_settings c)
              then (c, Inl (connection_error EnhanceYourCalm ''CONTINUATION frame limit exceeded''))
              else
                case conn_get c sid of
                  None \<Rightarrow> (c, Inl (protocol_error ''Stream not found during CONTINUATION''))
                | Some s \<Rightarrow>
                    if pending_header_len s + length header_block > hs_max_header_block_size (hc_local_settings c)
                    then (c, Inl (stream_error sid EnhanceYourCalm ''Cumulative header block size limit exceeded''))
                    else
                      let end_stream = (st_state s = HalfClosedRemote \<or> st_state s = Closed);
                          is_trailer = (st_request_headers s \<noteq> [])
                      in then_st (update_stream sid (append_header_fragment header_block end_headers))
                         (if end_headers then finish_headers sid end_stream is_trailer else ret_st None) c)"

section \<open>Dispatch\<close>

definition fits_header_block :: "h2conn \<Rightarrow> frame \<Rightarrow> bool" where
  "fits_header_block c frame =
    (case sm_receiving_headers_stream (hc_streams c) of
       None \<Rightarrow> True
     | Some pending_id \<Rightarrow> (case frame of FContinuation sid _ _ \<Rightarrow> sid = pending_id | _ \<Rightarrow> False))"

definition process_frame :: "frame \<Rightarrow> processed_request option conn_step" where
  "process_frame frame c =
    (if \<not> fits_header_block c frame
     then (c, Inl (connection_error ProtocolError ''Expected CONTINUATION frame during header block''))
     else
       (case frame of
          FSettings ack settings \<Rightarrow> then_st (handle_settings ack settings) (ret_st None)
        | FHeaders sid end_stream end_headers priority header_block \<Rightarrow>
            (if (case priority of Some p \<Rightarrow> ps_dependency p = sid | None \<Rightarrow> False)
             then throw_st (stream_error sid ProtocolError ''Stream cannot depend on itself'')
             else handle_headers sid end_stream end_headers priority header_block)
        | FData sid end_stream data \<Rightarrow>
            then_st (validate_stream_not_idle sid ''DATA'') (handle_data sid end_stream data)
        | FWindowUpdate sid increment \<Rightarrow>
            then_st (if sid \<noteq> 0 then validate_stream_not_idle sid ''WINDOW_UPDATE'' else ret_st ())
              (then_st (handle_window_update sid increment) (ret_st None))
        | FPing ack data \<Rightarrow> then_st (handle_ping ack data) (ret_st None)
        | FGoAway last_stream_id code debug_data \<Rightarrow>
            then_st (handle_goaway last_stream_id code debug_data) (ret_st None)
        | FRstStream sid code \<Rightarrow>
            (if sid = 0 then throw_st (protocol_error ''RST_STREAM with stream ID 0'')
             else if conn_get c sid = None \<and> sid > sm_max_client_stream_id (hc_streams c)
             then throw_st (connection_error ProtocolError (''RST_STREAM on idle stream '' @ show_nat (unat sid)))
             else then_st (handle_rst_stream sid code) (ret_st None))
        | FPriority sid p \<Rightarrow>
            (if ps_dependency p = sid
             then throw_st (stream_error sid ProtocolError ''Stream cannot depend on itself'')
             else then_st (handle_priority sid p) (ret_st None))
        | FContinuation sid end_headers header_block \<Rightarrow> handle_continuation sid end_headers header_block
        | FPushPromise _ _ _ _ \<Rightarrow> throw_st (protocol_error ''Client sent PUSH_PROMISE'')
        | FUnknown _ _ _ _ \<Rightarrow> ret_st None) c)"

end
