(* ===== verification/Rate_Window.thy ===== *)
theory Rate_Window
  imports Prelude
begin

text \<open>
  A counter over windows of one second: a late event starts a new window, an early one is refused
  beyond the limit.  Between two counted events the clock may advance and other frames may be
  processed.  The contract is stated for steps that carry their time; its consequence is a bound
  for every interval shorter than a second, wherever it starts.
\<close>

fun all_alive :: "('f \<Rightarrow> 's \<Rightarrow> 's \<times> ('e + 'a)) \<Rightarrow> ('e \<Rightarrow> bool) \<Rightarrow> 'f list \<Rightarrow> 's \<Rightarrow> bool" where
  "all_alive step fatal [] s \<longleftrightarrow> True"
| "all_alive step fatal (f # fs) s \<longleftrightarrow>
    (case snd (step f s) of Inl e \<Rightarrow> \<not> fatal e | Inr _ \<Rightarrow> True) \<and> all_alive step fatal fs (fst (step f s))"

locale second_window =
  fixes step :: "'f \<Rightarrow> 's \<Rightarrow> 's \<times> ('e + 'a)"
    and fatal :: "'e \<Rightarrow> bool"
    and tm :: "'f \<Rightarrow> nat"
    and counted :: "'f \<Rightarrow> bool"
    and count :: "'s \<Rightarrow> nat"
    and start :: "'s \<Rightarrow> nat"
    and limit :: nat
    and valid :: "'s \<Rightarrow> bool"
  assumes valid_step: "valid s \<Longrightarrow> all_alive step fatal [f] s \<Longrightarrow> valid (fst (step f s))"
    and uncounted: "valid s \<Longrightarrow> \<not> counted f \<Longrightarrow> count (fst (step f s)) = count s \<and> start (fst (step f s)) = start s"
    and late: "valid s \<Longrightarrow> counted f \<Longrightarrow> all_alive step fatal [f] s \<Longrightarrow> start s + 1000000000 \<le> tm f
      \<Longrightarrow> count (fst (step f s)) = 1 \<and> start (fst (step f s)) = tm f"
    and early: "valid s \<Longrightarrow> counted f \<Longrightarrow> all_alive step fatal [f] s \<Longrightarrow> tm f < start s + 1000000000
      \<Longrightarrow> count s < limit \<and> count (fst (step f s)) = Suc (count s) \<and> start (fst (step f s)) = start s"
begin

lemma all_alive_Cons:
  "all_alive step fatal (f # fs) s \<Longrightarrow> all_alive step fatal [f] s \<and> all_alive step fatal fs (fst (step f s))"
  by simp

lemma same_window:
  assumes "valid s" "all_alive step fatal fs s" "\<And>f. f \<in> set fs \<Longrightarrow> tm f < start s + 1000000000"
  shows "count s + length (filter counted fs) \<le> max (count s) limit"
  using assms
proof (induction fs arbitrary: s)
  case (Cons f fs)
  note a = all_alive_Cons [OF Cons.prems(2)]
  show ?case
  proof (cases "counted f")
    case True
    note e = early [OF Cons.prems(1) True a [THEN conjunct1] Cons.prems(3)]
    from Cons.IH [of "fst (step f s)"] e a Cons.prems True valid_step [OF Cons.prems(1)] show ?thesis by fastforce
  next
    case False
    from Cons.IH [of "fst (step f s)"] uncounted [OF Cons.prems(1) False] a Cons.prems False valid_step [OF Cons.prems(1)]
    show ?thesis by fastforce
  qed
qed simp

lemma interval_bound:
  assumes "valid s" "all_alive step fatal fs s"
    and "\<And>f. f \<in> set fs \<Longrightarrow> lo \<le> tm f \<and> tm f < lo + 1000000000"
  shows "count s + length (filter counted fs) \<le> max (count s) limit + max 1 limit"
  using assms
proof (induction fs arbitrary: s)
  case (Cons f fs)
  note a = all_alive_Cons [OF Cons.prems(2)]
  let ?s = "fst (step f s)"
  have v: "valid ?s" using valid_step [OF Cons.prems(1)] a by blast
  have ih: "count ?s + length (filter counted fs) \<le> max (count ?s) limit + max 1 limit"
    using Cons.IH [OF v] a Cons.prems by auto
  show ?case
  proof (cases "counted f")
    case False
    then show ?thesis using ih uncounted [OF Cons.prems(1) False] by simp
  next
    case True
    show ?thesis
    proof (cases "start s + 1000000000 \<le> tm f")
      case False
      then show ?thesis using ih early [OF Cons.prems(1) True a [THEN conjunct1]] True by auto
    next
      case late_f: True
      note l = late [OF Cons.prems(1) True a [THEN conjunct1] late_f]
      have "tm g < start ?s + 1000000000" if "g \<in> set fs" for g
        using Cons.prems(3) [of g] Cons.prems(3) [of f] that l by auto
      from same_window [OF v a [THEN conjunct2] this] l True show ?thesis by auto
    qed
  qed
qed simp

lemma all_alive_append:
  "all_alive step fatal (fs @ gs) s \<longleftrightarrow>
    all_alive step fatal fs s \<and> all_alive step fatal gs (fold (\<lambda>f s. fst (step f s)) fs s)"
  by (induction fs arbitrary: s) auto

lemma valid_fold: "valid s \<Longrightarrow> all_alive step fatal fs s \<Longrightarrow> valid (fold (\<lambda>f s. fst (step f s)) fs s)"
proof (induction fs arbitrary: s)
  case (Cons f fs)
  then show ?case using valid_step [of s f] all_alive_Cons [of f fs s] by simp
qed simp

lemma rate_bound:
  assumes "valid s" "all_alive step fatal (earlier @ fs) s"
    and "\<And>f. f \<in> set fs \<Longrightarrow> lo \<le> tm f \<and> tm f < lo + 1000000000"
  shows "length (filter counted fs) \<le> limit + max 1 limit"
proof -
  have alive: "all_alive step fatal earlier s" "all_alive step fatal fs (fold (\<lambda>f s. fst (step f s)) earlier s)"
    using assms(2) by (simp_all add: all_alive_append)
  show ?thesis using interval_bound [OF valid_fold [OF assms(1) alive(1)] alive(2) assms(3)] by simp
qed

end

end
