(* ===== verification/Connection_Safety.thy ===== *)
theory Connection_Safety
  imports Connection_Recv Rate_Window
begin

text \<open>
  What frame processing keeps: the invariant of the connection, the limits on header blocks and
  the rate limits.  Each handler is a sequence of steps, so most of the work is done by the
  introduction rules for steps.
\<close>

section \<open>The invariant\<close>

definition conn_core :: "h2conn \<Rightarrow> bool" where
  "conn_core c \<longleftrightarrow> sm_inv (hc_streams c)
    \<and> i32_range (hc_conn_send_window c) \<and> i32_range (hc_conn_recv_window c)
    \<and> MAX_FRAME_SIZE \<le> hs_max_frame_size (hc_remote_settings c)
    \<and> hs_max_frame_size (hc_remote_settings c) \<le> MAX_FRAME_SIZE_UPPER_LIMIT
    \<and> decoder_inv (hc_hpack_decoder c)"

text \<open>
  Header fragments wait only on the stream whose header block is open, within the limit; the
  request headers of a stream, once there, passed validation.
\<close>

definition request_ok :: "u32 \<Rightarrow> stream \<Rightarrow> bool" where
  "request_ok k s \<longleftrightarrow> st_request_headers s = [] \<or> validate_request_headers (st_request_headers s) k False = Inr ()"

definition pending_ok :: "h2conn \<Rightarrow> bool" where
  "pending_ok c \<longleftrightarrow> (\<forall>k s. conn_get c k = Some s \<longrightarrow>
     pending_header_len s \<le> hs_max_header_block_size (hc_local_settings c)
     \<and> (st_pending_headers s \<noteq> [] \<longrightarrow> sm_receiving_headers_stream (hc_streams c) = Some k) \<and> request_ok k s)"

definition buffer_ok :: "h2conn \<Rightarrow> bool" where
  "buffer_ok c \<longleftrightarrow> hc_buf_start c \<le> hc_buf_end c \<and> hc_buf_end c \<le> length (hc_read_buf c)"

definition conn_inv :: "h2conn \<Rightarrow> bool" where
  "conn_inv c \<longleftrightarrow> conn_core c \<and> pending_ok c \<and> buffer_ok c"

text \<open>The handlers leave the input side alone.\<close>

definition same_input :: "h2conn \<Rightarrow> h2conn \<Rightarrow> bool" where
  "same_input c0 c \<longleftrightarrow> hc_read_buf c = hc_read_buf c0 \<and> hc_buf_start c = hc_buf_start c0
    \<and> hc_buf_end c = hc_buf_end c0 \<and> tr_reads (hc_stream c) = tr_reads (hc_stream c0)
    \<and> tr_now (hc_stream c) = tr_now (hc_stream c0)
    \<and> hc_local_settings c = hc_local_settings c0 \<and> hc_frame_decoder c = hc_frame_decoder c0"

definition steady :: "h2conn \<Rightarrow> h2conn \<Rightarrow> bool" where
  "steady c0 c \<longleftrightarrow> conn_core c \<and> same_input c0 c"

lemma same_input_refl [simp]: "same_input c c"
  by (simp add: same_input_def)

lemma same_input_trans: "same_input a b \<Longrightarrow> same_input b c \<Longrightarrow> same_input a c"
  by (simp add: same_input_def)

lemma same_input_buffer: "same_input c0 c \<Longrightarrow> buffer_ok c0 \<Longrightarrow> buffer_ok c"
  by (simp add: same_input_def buffer_ok_def)

lemma write_all_result:
  "\<exists>t. fst (write_all_raw buf c) = c\<lparr>hc_stream := t\<rparr> \<and> tr_reads t = tr_reads (hc_stream c) \<and> tr_now t = tr_now (hc_stream c)"
proof -
  obtain t r where w: "tr_write_all buf (hc_stream c) = (t, r)" by fastforce
  have "fst (write_all_raw buf c) = c\<lparr>hc_stream := t\<rparr>"
    using tr_write_all_no_block [OF w]
    by (subst write_all_raw.simps) (auto simp: w split: sum.splits io_error.splits)
  then show ?thesis using tr_write_all_frame [OF w] by blast
qed

text \<open>A predicate that does not look at what was sent survives writing.\<close>

lemma preserves_write [inv_intros]:
  assumes "\<And>c t. P c \<Longrightarrow> tr_reads t = tr_reads (hc_stream c) \<Longrightarrow> tr_now t = tr_now (hc_stream c) \<Longrightarrow> P (c\<lparr>hc_stream := t\<rparr>)"
  shows "preserves P (write_all buf)"
proof
  fix c
  assume "P c"
  then show "P (fst (write_all buf c))"
    using write_all_result [of buf c] assms by (auto simp: write_all_def)
qed

lemma steady_stream [intro]:
  "steady c0 c \<Longrightarrow> tr_reads t = tr_reads (hc_stream c) \<Longrightarrow> tr_now t = tr_now (hc_stream c) \<Longrightarrow> steady c0 (c\<lparr>hc_stream := t\<rparr>)"
  by (simp add: steady_def conn_core_def same_input_def)

lemma pending_stream [simp]: "pending_ok (c\<lparr>hc_stream := t\<rparr>) = pending_ok c"
  by (simp add: pending_ok_def conn_get_def)

section \<open>Steps on streams\<close>

lemma steady_streams: "steady c0 c \<Longrightarrow> sm_inv m \<Longrightarrow> steady c0 (c\<lparr>hc_streams := m\<rparr>)"
  by (simp add: steady_def conn_core_def same_input_def)

lemma steady_sm: "steady c0 c \<Longrightarrow> sm_inv (hc_streams c)"
  by (simp add: steady_def conn_core_def)

lemma steady_update_stream [inv_intros]: "keeps_entry f \<Longrightarrow> preserves (steady c0) (update_stream sid f)"
  unfolding update_stream_def
  by (rule preserves_modify) (blast intro: steady_streams sm_inv_modify_stream steady_sm)

lemma steady_on_stream [inv_intros]:
  assumes "keeps_entry (\<lambda>s. fst (f s))"
  shows "preserves (steady c0) (on_stream sid f)"
proof
  fix c
  assume s: "steady c0 c"
  have "steady c0 (c\<lparr>hc_streams := fst (with_stream sid f (hc_streams c))\<rparr>)"
    by (intro steady_streams s sm_inv_with_stream steady_sm [OF s] assms)
  then show "steady c0 (fst (on_stream sid f c))"
    by (auto simp: on_stream_def on_streams_def then_st_apply split: prod.splits sum.splits)
qed

lemma steady_update_streams [inv_intros]:
  "(\<And>m. sm_inv m \<Longrightarrow> sm_inv (f m)) \<Longrightarrow> preserves (steady c0) (update_streams f)"
  unfolding update_streams_def by (rule preserves_modify) (blast intro: steady_streams steady_sm)

lemma keeps_entry_ops [inv_intros]:
  "keeps_entry send_rst_stream" "keeps_entry (recv_rst_stream code)" "keeps_entry (update_activity now)"
  "keeps_entry (set_priority p)" "keeps_entry (append_header_fragment frag eh)"
  "keeps_entry (\<lambda>s. fst (take_header_block s))" "keeps_entry (set_request_headers hs)"
  "keeps_entry (update_recv_window i)"
  by (auto simp: keeps_entry_def windows_ok_def send_rst_stream_def recv_rst_stream_def update_activity_def
      set_priority_def append_header_fragment_def take_header_block_def set_request_headers_def
      update_recv_window_def Let_def split: option.splits)

lemma keeps_entry_steps [inv_intros]:
  "keeps_entry (\<lambda>s. fst (recv_headers es s))" "keeps_entry (\<lambda>s. fst (send_headers es s))"
  "keeps_entry (\<lambda>s. fst (recv_data d es s))" "keeps_entry (\<lambda>s. fst (send_end_stream s))"
  "keeps_entry (\<lambda>s. fst (recv_window_update i s))"
  using stream_apply_keeps_entry [of "OpRecvHeaders es"] stream_apply_keeps_entry [of "OpSendHeaders es"]
    stream_apply_keeps_entry [of "OpRecvData d es"] stream_apply_keeps_entry [of OpSendEnd]
    stream_apply_keeps_entry [of "OpWindowUpdate i"]
  by simp_all

section \<open>Composite handlers\<close>

lemma preserves_case_option [inv_intros]:
  "preserves P m \<Longrightarrow> (\<And>x. preserves P (n x)) \<Longrightarrow> preserves P (case v of None \<Rightarrow> m | Some x \<Rightarrow> n x)"
  by (cases v) simp_all

text \<open>What the pieces of a composite handler keep, the handler keeps.\<close>

lemma preserves_decode_headers:
  assumes "preserves P (update_stream sid (\<lambda>s. fst (take_header_block s)))"
    and "\<And>block. preserves P (hpack_decode_block block)"
    and "\<And>hs. preserves P (update_stream sid (set_request_headers hs))"
  shows "preserves P (decode_and_set_headers sid tr)"
proof
  fix c
  assume p: "P c"
  have "preserves P
    (then_st (update_stream sid (\<lambda>s. fst (take_header_block s)))
            (bind_st (hpack_decode_block block) (\<lambda>headers.
             then_st (lift_res (validate_request_headers headers sid tr))
             (if \<not> tr then update_stream sid (set_request_headers headers) else ret_st ()))))" for block
    by (intro preserves_then preserves_bind preserves_if preserves_basic assms)
  from preservesD [OF this p] p show "P (fst (decode_and_set_headers sid tr c))"
    by (auto simp: decode_and_set_headers_def Let_def split: option.splits)
qed

lemma preserves_obtain_stream:
  assumes "\<And>c m r. P c \<Longrightarrow> get_or_create_client_stream (conn_now c) sid (hc_streams c) = (m, r) \<Longrightarrow> P (c\<lparr>hc_streams := m\<rparr>)"
    and "\<And>rid code. preserves P (conn_send_rst_stream rid code)"
  shows "preserves P (obtain_stream sid)"
proof
  fix c
  assume p: "P c"
  obtain m r where g: "get_or_create_client_stream (conn_now c) sid (hc_streams c) = (m, r)" by fastforce
  note m = assms(1) [OF p g]
  show "P (fst (obtain_stream sid c))"
    using m preservesD [OF assms(2) m] by (auto simp: obtain_stream_def g split: sum.splits option.splits)
qed

lemma preserves_handle_headers:
  assumes count: "\<And>c n. P c \<Longrightarrow> P (c\<lparr>hc_continuation_count := n\<rparr>)"
    and pieces: "preserves P (obtain_stream sid)" "preserves P (on_stream sid (recv_headers es))"
      "\<And>p. preserves P (update_stream sid (set_priority p))"
      "preserves P (update_stream sid (append_header_fragment block eh))"
      "\<And>tr. preserves P (finish_headers sid es tr)"
      "preserves P (update_streams (set_receiving_headers (Some sid)))"
  shows "preserves P (handle_headers sid es eh prio block)"
proof
  fix c
  assume p: "P c"
  have "preserves P
     (then_st (obtain_stream sid)
       (then_st (on_stream sid (recv_headers es))
       (then_st (case prio of Some p \<Rightarrow> update_stream sid (set_priority p) | None \<Rightarrow> ret_st ())
       (then_st (update_stream sid (append_header_fragment block eh))
       (if eh then finish_headers sid es tr
        else then_st (update_streams (set_receiving_headers (Some sid))) (ret_st None))))))" for tr
    by (intro preserves_then preserves_if preserves_case_option preserves_basic pieces)
  from preservesD [OF this count [OF p]] p count [OF p] show "P (fst (handle_headers sid es eh prio block c))"
    by (auto simp: handle_headers_def Let_def)
qed

lemma preserves_handle_continuation:
  assumes count: "\<And>c n. P c \<Longrightarrow> P (c\<lparr>hc_continuation_count := n\<rparr>)"
    and pieces: "preserves P (update_stream sid (append_header_fragment block eh))"
      "\<And>es tr. preserves P (finish_headers sid es tr)"
  shows "preserves P (handle_continuation sid eh block)"
proof
  fix c
  assume p: "P c"
  have "preserves P
     (then_st (update_stream sid (append_header_fragment block eh))
       (if eh then finish_headers sid es tr else ret_st None))" for es tr
    by (intro preserves_then preserves_if preserves_basic pieces)
  from preservesD [OF this count [OF p]] p count [OF p] show "P (fst (handle_continuation sid eh block c))"
    by (auto simp: handle_continuation_def Let_def split: option.splits)
qed

section \<open>The handlers are steady\<close>

lemma steady_fieldI [inv_intros]:
  "(\<And>c. steady c0 c \<Longrightarrow> conn_core c \<Longrightarrow> conn_core (f c) \<and> same_input c (f c)) \<Longrightarrow> preserves (steady c0) (modify_st f)"
  by (rule preserves_modify) (auto simp: steady_def intro: same_input_trans)

lemma steady_flags [inv_intros]:
  "preserves (steady c0) (modify_st (\<lambda>c. c\<lparr>hc_goaway_sent := b\<rparr>))"
  "preserves (steady c0) (modify_st (\<lambda>c. c\<lparr>hc_settings_ack_pending := b\<rparr>))"
  "preserves (steady c0) (modify_st (\<lambda>c. c\<lparr>hc_continuation_count := n\<rparr>))"
  "preserves (steady c0) (modify_st (\<lambda>c. c\<lparr>hc_goaway_received := b, hc_goaway_last_stream_id := g\<rparr>))"
  by (auto intro!: preserves_modify simp: steady_def conn_core_def same_input_def)

lemma steady_rst [inv_intros]: "preserves (steady c0) (conn_send_rst_stream sid code)"
  unfolding conn_send_rst_stream_def by (intro inv_intros steady_stream)

lemma steady_goaway_out [inv_intros]: "preserves (steady c0) (send_goaway code dbg)"
proof
  fix c
  assume "steady c0 c"
  moreover have "preserves (steady c0) (then_st (write_all buf) (modify_st (\<lambda>c. c\<lparr>hc_goaway_sent := True\<rparr>)))" for buf
    by (intro inv_intros steady_stream)
  ultimately show "steady c0 (fst (send_goaway code dbg c))"
    by (auto simp: send_goaway_def dest: preservesD)
qed

lemma steady_control_rate [inv_intros]: "preserves (steady c0) check_control_frame_rate"
  by (auto intro!: preservesI simp: check_control_frame_rate_def Let_def steady_def conn_core_def same_input_def)

lemma steady_rst_rate [inv_intros]: "preserves (steady c0) check_rst_rate"
  by (auto intro!: preservesI simp: check_rst_rate_def Let_def steady_def conn_core_def same_input_def)

lemma steady_window_setting [inv_intros]: "preserves (steady c0) (on_streams (update_initial_window_size (sint (v :: u32))))"
proof
  fix c
  assume s: "steady c0 c"
  have "i32_range (sint v)"
    using sint_ge [of v] sint_lt [of v] by (simp add: i32_range_def)
  then have "steady c0 (c\<lparr>hc_streams := fst (update_initial_window_size (sint v) (hc_streams c))\<rparr>)"
    by (intro steady_streams s sm_inv_update_window steady_sm [OF s])
  then show "steady c0 (fst (on_streams (update_initial_window_size (sint v)) c))"
    by (auto simp: on_streams_def split: prod.splits)
qed

lemma steady_setting [inv_intros]: "preserves (steady c0) (apply_setting setting)"
proof -
  have frame_size: "preserves (steady c0) (modify_st (\<lambda>c. c\<lparr>hc_frame_encoder := fe_set_max_frame_size v (hc_frame_encoder c),
      hc_remote_settings := (hc_remote_settings c)\<lparr>hs_max_frame_size := v\<rparr>\<rparr>))"
    if "MAX_FRAME_SIZE \<le> v \<and> v \<le> MAX_FRAME_SIZE_UPPER_LIMIT" for v
    using that by (auto intro!: preserves_modify simp: steady_def conn_core_def same_input_def)
  have other: "preserves (steady c0) (modify_st (\<lambda>c. c\<lparr>hc_hpack_encoder := f c\<rparr>))"
    "preserves (steady c0) (modify_st (\<lambda>c. c\<lparr>hc_remote_settings := (hc_remote_settings c)\<lparr>hs_initial_window_size := v\<rparr>\<rparr>))"
    "preserves (steady c0) (modify_st (\<lambda>c. c\<lparr>hc_remote_settings := (hc_remote_settings c)\<lparr>hs_max_header_list_size := v\<rparr>\<rparr>))" for f v
    by (auto intro!: preserves_modify simp: steady_def conn_core_def same_input_def)
  show ?thesis
    unfolding apply_setting_def Let_def
    by (intro preserves_if preserves_then preserves_basic steady_window_setting other frame_size) simp_all
qed

lemma steady_settings [inv_intros]: "preserves (steady c0) (apply_settings settings)"
  by (induction settings) (simp_all only: apply_settings.simps inv_intros)

lemma steady_handle_settings [inv_intros]: "preserves (steady c0) (handle_settings ack settings)"
  unfolding handle_settings_def by (intro inv_intros steady_stream)

lemma steady_handle_ping [inv_intros]: "preserves (steady c0) (handle_ping ack d)"
  unfolding handle_ping_def by (intro inv_intros steady_stream)

lemma steady_handle_goaway [inv_intros]: "preserves (steady c0) (handle_goaway last_id code dbg)"
  unfolding handle_goaway_def by (intro inv_intros) simp

lemma steady_handle_rst [inv_intros]: "preserves (steady c0) (handle_rst_stream sid code)"
  unfolding handle_rst_stream_def by (intro inv_intros)

lemma steady_handle_priority [inv_intros]: "preserves (steady c0) (handle_priority sid p)"
  unfolding handle_priority_def by (intro inv_intros)

lemma steady_handle_window_update [inv_intros]: "preserves (steady c0) (handle_window_update sid i)"
proof -
  have "preserves (steady c0) (\<lambda>c.
       case i32_checked_add (hc_conn_send_window c) (sint i) of
         Some w \<Rightarrow>
           if w \<le> 0x7FFFFFFF then (c\<lparr>hc_conn_send_window := w\<rparr>, Inr ())
           else (c, Inl (connection_error FlowControlError ''Connection window overflow''))
       | None \<Rightarrow> (c, Inl (connection_error FlowControlError ''Connection window overflow'')))"
    by (auto intro!: preservesI simp: i32_checked_add_def steady_def conn_core_def same_input_def split: option.splits if_splits)
  then show ?thesis unfolding handle_window_update_def by (intro preserves_if steady_on_stream keeps_entry_steps)
qed

lemma steady_charge [inv_intros]: "preserves (steady c0) (charge_conn_window n)"
  by (auto intro!: preservesI simp: charge_conn_window_def Let_def steady_def conn_core_def same_input_def)

lemma steady_require [inv_intros]: "preserves (steady c0) (require_stream sid e)"
  by (auto intro!: preservesI simp: require_stream_def)

lemma steady_not_idle [inv_intros]: "preserves (steady c0) (validate_stream_not_idle sid ft)"
  by (auto intro!: preservesI simp: validate_stream_not_idle_def)

lemma steady_replenish [inv_intros]:
  assumes "\<And>buf. preserves (steady c0) (emit buf)"
  shows "preserves (steady c0) (replenish_windows emit sid)"
proof -
  have "preserves (steady c0) (modify_st (\<lambda>c. c\<lparr>hc_conn_recv_window := i32_wrap (hc_conn_recv_window c + i)\<rparr>))" for i
    by (auto intro!: preserves_modify simp: steady_def conn_core_def same_input_def)
  then show ?thesis
    unfolding replenish_windows_def
    by (intro preserves_then preserves_bind preserves_if preserves_case_option preserves_basic assms
        steady_update_stream keeps_entry_ops)
qed

lemma steady_write [inv_intros]: "preserves (steady c0) (write_all buf)"
  by (rule preserves_write) (rule steady_stream)

lemma steady_queue [inv_intros]: "preserves (steady c0) (queue_frame buf)"
  unfolding queue_frame_def by (auto intro!: preserves_modify simp: steady_def conn_core_def same_input_def)

lemma steady_handle_data [inv_intros]: "preserves (steady c0) (handle_data sid es d)"
  unfolding handle_data_def maybe_send_window_update_def by (intro inv_intros)

lemma steady_hpack [inv_intros]: "preserves (steady c0) (hpack_decode_block block)"
proof
  fix c
  assume s: "steady c0 c"
  obtain d r where h: "hpack_decode (hc_hpack_decoder c) block = (d, r)" by fastforce
  have "decoder_inv d"
    using hpack_decode_loop_inv [of "hc_hpack_decoder c" False 0 "[]" block d r] h s
    by (simp add: hpack_decode_def steady_def conn_core_def)
  then show "steady c0 (fst (hpack_decode_block block c))"
    using s by (cases r) (auto simp: hpack_decode_block_def h steady_def conn_core_def same_input_def)
qed

lemma steady_decode_headers [inv_intros]: "preserves (steady c0) (decode_and_set_headers sid tr)"
  by (intro preserves_decode_headers inv_intros)

lemma steady_finish [inv_intros]: "preserves (steady c0) (finish_headers sid es tr)"
  unfolding finish_headers_def by (intro inv_intros) simp

lemma steady_obtain [inv_intros]: "preserves (steady c0) (obtain_stream sid)"
proof (intro preserves_obtain_stream inv_intros)
  fix c m r
  assume s: "steady c0 c" and g: "get_or_create_client_stream (conn_now c) sid (hc_streams c) = (m, r)"
  show "steady c0 (c\<lparr>hc_streams := m\<rparr>)"
    using sm_inv_create [OF steady_sm [OF s], of "conn_now c" sid] g by (intro steady_streams s) simp
qed

lemma steady_handle_headers [inv_intros]: "preserves (steady c0) (handle_headers sid es eh prio block)"
  by (intro preserves_handle_headers inv_intros) (simp_all add: steady_def conn_core_def same_input_def)

lemma steady_handle_continuation [inv_intros]: "preserves (steady c0) (handle_continuation sid eh block)"
  by (intro preserves_handle_continuation inv_intros) (simp_all add: steady_def conn_core_def same_input_def)

lemma steady_process_frame: "preserves (steady c0) (process_frame frame)"
proof
  fix c
  assume s: "steady c0 c"
  have run: "steady c0 (fst (m c))" if "preserves (steady c0) m" for m :: "processed_request option conn_step"
    using preservesD that s .
  show "steady c0 (fst (process_frame frame c))"
    using s unfolding process_frame_def
    by (cases frame) (auto intro!: run inv_intros)
qed

section \<open>Header fragments\<close>

text \<open>Fragments only on the streams of a set, with the open block and the settings fixed.\<close>

definition fragments_in :: "u32 set \<Rightarrow> u32 option \<Rightarrow> http2_settings \<Rightarrow> h2conn \<Rightarrow> bool" where
  "fragments_in R r L c \<longleftrightarrow> sm_receiving_headers_stream (hc_streams c) = r \<and> hc_local_settings c = L
    \<and> (\<forall>k s. conn_get c k = Some s \<longrightarrow>
         pending_header_len s \<le> hs_max_header_block_size L \<and> (st_pending_headers s \<noteq> [] \<longrightarrow> k \<in> R)
         \<and> request_ok k s)"

lemma pending_ok_fragments:
  "pending_ok c \<longleftrightarrow> fragments_in (set_option (sm_receiving_headers_stream (hc_streams c)))
     (sm_receiving_headers_stream (hc_streams c)) (hc_local_settings c) c"
  by (auto simp: pending_ok_def fragments_in_def)

lemma fragments_pending_ok: "fragments_in R r L c \<Longrightarrow> R \<subseteq> set_option r \<Longrightarrow> pending_ok c"
  by (fastforce simp: pending_ok_def fragments_in_def)

definition keeps_fragments :: "(stream \<Rightarrow> stream) \<Rightarrow> bool" where
  "keeps_fragments f \<longleftrightarrow> (\<forall>s. st_pending_headers (f s) = st_pending_headers s \<and> st_request_headers (f s) = st_request_headers s)"

lemma request_ok_pending [simp]:
  "request_ok k (s\<lparr>st_pending_headers := p\<rparr>) = request_ok k s"
  "request_ok k (s\<lparr>st_pending_headers := p, st_receiving_headers := b\<rparr>) = request_ok k s"
  by (simp_all add: request_ok_def)

lemma keeps_fragments_request: "keeps_fragments f \<Longrightarrow> request_ok k (f s) = request_ok k s"
  by (simp add: keeps_fragments_def request_ok_def)

lemma fragments_field [inv_intros]:
  "(\<And>c. hc_streams (f c) = hc_streams c \<and> hc_local_settings (f c) = hc_local_settings c)
    \<Longrightarrow> preserves (fragments_in R r L) (modify_st f)"
  by (rule preserves_modify) (simp add: fragments_in_def conn_get_def)

lemma fragments_write [inv_intros]: "preserves (fragments_in R r L) (write_all buf)"
  by (rule preserves_write) (simp add: fragments_in_def conn_get_def)

lemma receiving_modify_stream [simp]: "sm_receiving_headers_stream (modify_stream sid f m) = sm_receiving_headers_stream m"
  by (simp add: modify_stream_def)

lemma fragments_update_stream [inv_intros]:
  "keeps_fragments f \<Longrightarrow> preserves (fragments_in R r L) (update_stream sid f)"
  unfolding update_stream_def
  by (rule preserves_modify)
    (auto simp: fragments_in_def conn_get_def sm_get_modify_stream pending_header_len_def keeps_fragments_request
      keeps_fragments_def [THEN iffD1] split: if_splits)

lemma fragments_on_stream [inv_intros]:
  assumes "keeps_fragments (\<lambda>s. fst (f s))"
  shows "preserves (fragments_in R r L) (on_stream sid f)"
proof
  fix c
  assume p: "fragments_in R r L c"
  have "sm_receiving_headers_stream (fst (with_stream sid f (hc_streams c))) = sm_receiving_headers_stream (hc_streams c)"
    by (auto simp: with_stream_def split: option.splits)
  then have "fragments_in R r L (c\<lparr>hc_streams := fst (with_stream sid f (hc_streams c))\<rparr>)"
    using p keeps_fragments_request [OF assms] assms [unfolded keeps_fragments_def]
    by (auto simp: fragments_in_def conn_get_def sm_get_with_stream pending_header_len_def split: if_splits)
  then show "fragments_in R r L (fst (on_stream sid f c))"
    by (auto simp: on_stream_def on_streams_def then_st_apply split: prod.splits sum.splits)
qed

lemma keeps_fragments_ops [inv_intros]:
  "keeps_fragments send_rst_stream" "keeps_fragments (recv_rst_stream code)" "keeps_fragments (update_activity now)"
  "keeps_fragments (set_priority p)" "keeps_fragments (update_recv_window i)"
  by (auto simp: keeps_fragments_def send_rst_stream_def recv_rst_stream_def update_activity_def
      set_priority_def update_recv_window_def)

lemma recv_accounting_fragments:
  "st_pending_headers (fst (recv_data_accounting n es s)) = st_pending_headers s"
  "st_request_headers (fst (recv_data_accounting n es s)) = st_request_headers s"
  by (rule recv_data_accounting_cases [of s n es]; simp)+

lemma recv_data_fragments:
  "st_pending_headers (fst (recv_data d es s)) = st_pending_headers s
    \<and> st_request_headers (fst (recv_data d es s)) = st_request_headers s"
proof (cases "recv_data_accounting (length d) es s")
  case (Pair s' r)
  then show ?thesis
    using recv_accounting_fragments [of "length d" es s] by (cases r) (simp_all add: recv_data_def then_st_apply)
qed

lemma keeps_fragments_steps [inv_intros]:
  "keeps_fragments (\<lambda>s. fst (recv_headers es s))" "keeps_fragments (\<lambda>s. fst (send_headers es s))"
  "keeps_fragments (\<lambda>s. fst (recv_data d es s))" "keeps_fragments (\<lambda>s. fst (send_end_stream s))"
  "keeps_fragments (\<lambda>s. fst (recv_window_update i s))"
  by (auto simp: keeps_fragments_def recv_headers_def send_headers_def send_end_stream_def recv_window_update_def
      recv_data_fragments split: stream_state.splits option.splits)

lemma fragments_window_setting [inv_intros]: "preserves (fragments_in R r L) (on_streams (update_initial_window_size w))"
proof
  fix c
  assume p: "fragments_in R r L c"
  let ?m = "fst (update_initial_window_size w (hc_streams c))"
  have "\<exists>s. conn_get c k = Some s \<and> st_pending_headers s' = st_pending_headers s
      \<and> st_request_headers s' = st_request_headers s" if "sm_get ?m k = Some s'" for k s'
    using that by (auto simp: update_initial_window_size_def Let_def sm_get_def conn_get_def dest!: shift_windows_get)
  then have "fragments_in R r L (c\<lparr>hc_streams := ?m\<rparr>)"
    using p by (fastforce simp: fragments_in_def conn_get_def pending_header_len_def request_ok_def
        update_initial_window_size_def Let_def)
  then show "fragments_in R r L (fst (on_streams (update_initial_window_size w) c))"
    by (auto simp: on_streams_def split: prod.splits)
qed

lemma fragments_rates [inv_intros]:
  "preserves (fragments_in R r L) check_control_frame_rate" "preserves (fragments_in R r L) check_rst_rate"
  by (auto intro!: preservesI simp: check_control_frame_rate_def check_rst_rate_def Let_def fragments_in_def conn_get_def)

lemma fragments_guards [inv_intros]:
  "preserves (fragments_in R r L) (charge_conn_window n)" "preserves (fragments_in R r L) (require_stream sid e)"
  "preserves (fragments_in R r L) (validate_stream_not_idle sid ft)"
  by (auto intro!: preservesI simp: charge_conn_window_def require_stream_def validate_stream_not_idle_def Let_def
      fragments_in_def conn_get_def)

lemma fragments_hpack [inv_intros]: "preserves (fragments_in R r L) (hpack_decode_block block)"
  by (auto intro!: preservesI simp: hpack_decode_block_def fragments_in_def conn_get_def split: prod.splits sum.splits)

lemma fragments_goaway_id [inv_intros]: "preserves (fragments_in R r L) (update_streams (set_goaway_last_stream_id g))"
  unfolding update_streams_def
  by (rule preserves_modify) (simp add: fragments_in_def conn_get_def sm_get_def set_goaway_last_stream_id_def)

lemma fragments_settings [inv_intros]: "preserves (fragments_in R r L) (apply_settings settings)"
proof (induction settings)
  case (Cons setting settings)
  have "preserves (fragments_in R r L) (apply_setting setting)"
    unfolding apply_setting_def Let_def by (intro inv_intros) simp_all
  then show ?case unfolding apply_settings.simps by (intro preserves_then Cons.IH)
qed (simp only: apply_settings.simps inv_intros)

lemma fragments_rst [inv_intros]: "preserves (fragments_in R r L) (conn_send_rst_stream sid code)"
  unfolding conn_send_rst_stream_def by (intro inv_intros)

lemma fragments_window_update [inv_intros]: "preserves (fragments_in R r L) (handle_window_update sid i)"
proof -
  have "preserves (fragments_in R r L) (\<lambda>c.
       case i32_checked_add (hc_conn_send_window c) (sint i) of
         Some w \<Rightarrow>
           if w \<le> 0x7FFFFFFF then (c\<lparr>hc_conn_send_window := w\<rparr>, Inr ())
           else (c, Inl (connection_error FlowControlError ''Connection window overflow''))
       | None \<Rightarrow> (c, Inl (connection_error FlowControlError ''Connection window overflow'')))"
    by (auto intro!: preservesI simp: fragments_in_def conn_get_def split: option.splits)
  then show ?thesis unfolding handle_window_update_def by (intro preserves_if fragments_on_stream keeps_fragments_steps)
qed

lemma fragments_handlers [inv_intros]:
  "preserves (fragments_in R r L) (handle_settings ack settings)" "preserves (fragments_in R r L) (handle_ping ack d8)"
  "preserves (fragments_in R r L) (handle_goaway last_id code dbg)" "preserves (fragments_in R r L) (handle_rst_stream sid code)"
  "preserves (fragments_in R r L) (handle_priority sid p)" "preserves (fragments_in R r L) (handle_data sid es d)"
  unfolding handle_settings_def handle_ping_def handle_goaway_def handle_rst_stream_def handle_priority_def
    handle_data_def maybe_send_window_update_def replenish_windows_def
  by (intro inv_intros; simp)+

lemma fragments_obtain [inv_intros]: "preserves (fragments_in R r L) (obtain_stream sid)"
proof (intro preserves_obtain_stream inv_intros)
  fix c m res
  assume p: "fragments_in R r L c" and g: "get_or_create_client_stream (conn_now c) sid (hc_streams c) = (m, res)"
  have "sm_receiving_headers_stream m = sm_receiving_headers_stream (hc_streams c)"
    using g by (auto simp: get_or_create_client_stream_def split: if_splits option.splits)
  moreover have "sm_get m k = sm_get (hc_streams c) k \<or> (\<exists>s. sm_get m k = Some s \<and> st_pending_headers s = []
      \<and> st_request_headers s = [])" for k
    using g by (auto simp: get_or_create_client_stream_def sm_get_def hashmap.get_put stream_new_def split: if_splits option.splits)
  ultimately show "fragments_in R r L (c\<lparr>hc_streams := m\<rparr>)"
    using p by (simp add: fragments_in_def conn_get_def pending_header_len_def request_ok_def)
      (metis list.size(3) le0 option.inject)
qed

text \<open>At the end of a block its fragments are taken off the stream before anything can fail.\<close>

lemma fragments_decode:
  assumes "fragments_in {sid} r L c"
  shows "fragments_in {} r L (fst (decode_and_set_headers sid tr c))"
proof (cases "conn_get c sid")
  case None
  then show ?thesis using assms by (fastforce simp: decode_and_set_headers_def fragments_in_def)
next
  case (Some s)
  let ?c = "c\<lparr>hc_streams := modify_stream sid (\<lambda>s. fst (take_header_block s)) (hc_streams c)\<rparr>"
  have c: "fragments_in {} r L ?c"
    using assms
    by (auto simp: fragments_in_def conn_get_def sm_get_modify_stream take_header_block_def pending_header_len_def
        split: if_splits)
  have stored: "fragments_in {} r L (fst (update_stream sid (set_request_headers hs) c'))"
    if "fragments_in {} r L c'" "validate_request_headers hs sid False = Inr ()" for c' hs
    using that by (auto simp: fragments_in_def update_stream_def conn_get_def sm_get_modify_stream
        set_request_headers_def pending_header_len_def request_ok_def Let_def split: if_splits option.splits)
  have "preserves (fragments_in {} r L)
     (bind_st (hpack_decode_block block) (\<lambda>headers.
        then_st (lift_res (validate_request_headers headers sid tr))
          (if \<not> tr then update_stream sid (set_request_headers headers) else ret_st ())))" for block
  proof (rule preserves_bind [OF fragments_hpack], rule preservesI)
    fix hs c'
    assume "fragments_in {} r L c'"
    then show "fragments_in {} r L (fst (then_st (lift_res (validate_request_headers hs sid tr))
          (if \<not> tr then update_stream sid (set_request_headers hs) else ret_st ()) c'))"
      using stored by (auto simp: then_st_apply split: sum.splits)
  qed
  from preservesD [OF this c] show ?thesis
    by (simp add: decode_and_set_headers_def Some Let_def update_stream_def)
qed

lemma fragments_finish:
  assumes "fragments_in {sid} r L c"
  shows "fragments_in {} None L (fst (finish_headers sid es tr c))"
proof -
  let ?c = "c\<lparr>hc_streams := set_receiving_headers None (hc_streams c), hc_continuation_count := 0\<rparr>"
  have "fragments_in {sid} None L ?c"
    using assms by (simp add: fragments_in_def conn_get_def sm_get_def set_receiving_headers_def)
  from fragments_decode [OF this, of tr] show ?thesis
    by (auto simp: finish_headers_def update_streams_def then_st_apply split: prod.splits sum.splits)
qed

lemma fragments_append:
  assumes "fragments_in R r L c"
    and "\<And>s. conn_get c sid = Some s \<Longrightarrow> pending_header_len s + length block \<le> hs_max_header_block_size L"
  shows "fragments_in (insert sid R) r L (fst (update_stream sid (append_header_fragment block eh) c))"
  using assms
  by (auto simp: fragments_in_def update_stream_def conn_get_def sm_get_modify_stream append_header_fragment_def
      pending_header_len_def split: if_splits)

lemma fragments_open_block:
  assumes "fragments_in {} None L c" "length block \<le> hs_max_header_block_size L"
  shows "pending_ok (fst (then_st (update_stream sid (append_header_fragment block eh))
       (if eh then finish_headers sid es tr
        else then_st (update_streams (set_receiving_headers (Some sid))) (ret_st None)) c))"
proof -
  let ?c = "fst (update_stream sid (append_header_fragment block eh) c)"
  have "fragments_in {sid} None L ?c"
    using fragments_append [OF assms(1)] assms by (fastforce simp: fragments_in_def pending_header_len_def)
  moreover from this have "fragments_in {sid} (Some sid) L (?c\<lparr>hc_streams := set_receiving_headers (Some sid) (hc_streams ?c)\<rparr>)"
    by (simp add: fragments_in_def conn_get_def sm_get_def set_receiving_headers_def)
  ultimately show ?thesis
    using fragments_finish [of sid None L ?c es tr]
    by (auto simp: update_stream_def update_streams_def intro: fragments_pending_ok)
qed

lemma then_st_reach:
  assumes "preserves P m" "P c" "\<And>c'. P c' \<Longrightarrow> Q c'" "\<And>c'. P c' \<Longrightarrow> Q (fst (n c'))"
  shows "Q (fst (then_st m n c))"
  using preservesD [OF assms(1,2)] assms(3,4) by (auto simp: then_st_apply split: prod.splits sum.splits)

lemma pending_headers:
  assumes "pending_ok c" "sm_receiving_headers_stream (hc_streams c) = None"
  shows "pending_ok (fst (handle_headers sid es eh prio block c))"
proof -
  let ?c = "c\<lparr>hc_continuation_count := 0\<rparr>" and ?L = "hc_local_settings c"
  have c: "fragments_in {} None ?L ?c"
    using assms by (simp add: pending_ok_fragments fragments_in_def conn_get_def)
  have ok: "pending_ok c'" if "fragments_in {} None ?L c'" for c'
    using that by (rule fragments_pending_ok) simp
  have reach: "pending_ok (fst (then_st m n c'))"
    if "fragments_in {} None ?L c'" "preserves (fragments_in {} None ?L) m"
      "\<And>c''. fragments_in {} None ?L c'' \<Longrightarrow> pending_ok (fst (n c''))"
    for c' and m :: "unit conn_step" and n :: "processed_request option conn_step"
    using then_st_reach [where P = "fragments_in {} None ?L" and Q = pending_ok] that ok by blast
  show ?thesis
  proof (cases "length block \<le> hs_max_header_block_size ?L")
    case True
    have "pending_ok (fst (then_st (obtain_stream sid)
                 (then_st (on_stream sid (recv_headers es))
                 (then_st (case prio of Some p \<Rightarrow> update_stream sid (set_priority p) | None \<Rightarrow> ret_st ())
                 (then_st (update_stream sid (append_header_fragment block eh))
                 (if eh then finish_headers sid es tr
                  else then_st (update_streams (set_receiving_headers (Some sid))) (ret_st None))))) ?c))" for tr
      by (rule reach [OF c], (intro inv_intros)[1], rule reach, assumption, (intro inv_intros)[1],
          rule reach, assumption, (intro inv_intros)[1], rule fragments_open_block, assumption, rule True)
    then show ?thesis using assms ok [OF c] by (auto simp: handle_headers_def Let_def)
  qed (use assms ok [OF c] in \<open>auto simp: handle_headers_def Let_def\<close>)
qed

lemma pending_continuation:
  assumes "pending_ok c"
  shows "pending_ok (fst (handle_continuation sid eh block c))"
proof (cases "sm_receiving_headers_stream (hc_streams c) = Some sid")
  case True
  let ?c = "c\<lparr>hc_continuation_count := hc_continuation_count c + 1\<rparr>" and ?L = "hc_local_settings c"
  have c: "fragments_in {sid} (Some sid) ?L ?c"
    using assms True by (simp add: pending_ok_fragments fragments_in_def conn_get_def)
  have "pending_ok (fst (then_st (update_stream sid (append_header_fragment block eh))
      (if eh then finish_headers sid es tr else ret_st None) ?c))"
    if s: "conn_get ?c sid = Some s" "pending_header_len s + length block \<le> hs_max_header_block_size ?L" for s es tr
  proof -
    let ?c' = "fst (update_stream sid (append_header_fragment block eh) ?c)"
    have "fragments_in {sid} (Some sid) ?L ?c'" using fragments_append [OF c, of sid block eh] s by auto
    then show ?thesis
      using fragments_finish [of sid "Some sid" ?L ?c' es tr]
      by (auto simp: update_stream_def intro: fragments_pending_ok)
  qed
  moreover have "pending_ok ?c" using c by (rule fragments_pending_ok) simp
  ultimately show ?thesis
    using True by (auto simp: handle_continuation_def Let_def split: option.splits)
qed (use assms in \<open>auto simp: handle_continuation_def split: option.splits\<close>)

lemma pending_process_frame:
  assumes "pending_ok c"
  shows "pending_ok (fst (process_frame frame c))"
proof -
  let ?r = "sm_receiving_headers_stream (hc_streams c)"
  let ?P = "fragments_in (set_option ?r) ?r (hc_local_settings c)"
  have P: "?P c" using assms by (simp add: pending_ok_fragments)
  have run: "pending_ok (fst (m c))" if "preserves ?P m" for m :: "processed_request option conn_step"
    using preservesD [OF that P] by (rule fragments_pending_ok) simp
  show ?thesis
  proof (cases frame)
    case (FHeaders sid es eh prio block)
    then show ?thesis
      using assms by (auto intro!: pending_headers simp: process_frame_def fits_header_block_def split: option.splits)
  next
    case (FContinuation sid eh block)
    then show ?thesis
      using assms by (auto intro!: pending_continuation simp: process_frame_def)
  qed (use assms in \<open>auto intro!: run inv_intros simp: process_frame_def\<close>)
qed

lemma process_frame_keeps:
  assumes "conn_inv c"
  shows "conn_inv (fst (process_frame frame c)) \<and> same_input c (fst (process_frame frame c))"
proof -
  have "steady c c" using assms by (simp add: conn_inv_def steady_def)
  from preservesD [OF steady_process_frame this] assms show ?thesis
    using pending_process_frame [of c frame]
    by (auto simp: conn_inv_def steady_def intro: same_input_buffer)
qed

section \<open>Rate limits\<close>

text \<open>Only the two checks touch the counters.\<close>

definition counters :: "h2conn \<Rightarrow> (u32 \<times> nat) \<times> (u32 \<times> nat)" where
  "counters c = ((hc_control_frame_count c, hc_control_frame_window_start c),
                 (hc_rst_stream_count c, hc_rst_stream_window_start c))"

definition counters_are :: "(u32 \<times> nat) \<times> (u32 \<times> nat) \<Rightarrow> h2conn \<Rightarrow> bool" where
  "counters_are k c \<longleftrightarrow> counters c = k"

lemma counters_field [inv_intros]:
  "(\<And>c. counters (f c) = counters c) \<Longrightarrow> preserves (counters_are k) (modify_st f)"
  by (rule preserves_modify) (simp add: counters_are_def)

lemma counters_write [inv_intros]: "preserves (counters_are k) (write_all buf)"
  by (rule preserves_write) (simp add: counters_are_def counters_def)

lemma counters_streams [inv_intros]:
  "preserves (counters_are k) (update_stream sid f)" "preserves (counters_are k) (on_streams g)"
  "preserves (counters_are k) (on_stream sid h)" "preserves (counters_are k) (update_streams u)"
  by (auto intro!: preservesI simp: update_stream_def on_streams_def on_stream_def update_streams_def then_st_apply
      counters_are_def counters_def split: prod.splits sum.splits)

lemma counters_guards [inv_intros]:
  "preserves (counters_are k) (charge_conn_window n)" "preserves (counters_are k) (require_stream sid e)"
  "preserves (counters_are k) (validate_stream_not_idle sid ft)" "preserves (counters_are k) (hpack_decode_block block)"
  by (auto intro!: preservesI simp: charge_conn_window_def require_stream_def validate_stream_not_idle_def
      hpack_decode_block_def Let_def counters_are_def counters_def split: prod.splits sum.splits)

lemma counters_settings [inv_intros]: "preserves (counters_are k) (apply_settings settings)"
proof (induction settings)
  case (Cons setting settings)
  have "preserves (counters_are k) (apply_setting setting)"
    unfolding apply_setting_def Let_def by (intro inv_intros) (simp_all add: counters_def)
  then show ?case unfolding apply_settings.simps by (intro preserves_then Cons.IH)
qed (simp only: apply_settings.simps inv_intros)

lemma counters_rst [inv_intros]: "preserves (counters_are k) (conn_send_rst_stream sid code)"
  unfolding conn_send_rst_stream_def by (intro inv_intros)

lemma counters_handlers [inv_intros]:
  "preserves (counters_are k) (handle_goaway last_id code dbg)" "preserves (counters_are k) (handle_priority sid p)"
  "preserves (counters_are k) (handle_data sid es d)"
  unfolding handle_goaway_def handle_priority_def handle_data_def maybe_send_window_update_def replenish_windows_def
  by (intro inv_intros; simp add: counters_def)+

lemma counters_window_update [inv_intros]: "preserves (counters_are k) (handle_window_update sid i)"
proof -
  have "preserves (counters_are k) (\<lambda>c.
       case i32_checked_add (hc_conn_send_window c) (sint i) of
         Some w \<Rightarrow>
           if w \<le> 0x7FFFFFFF then (c\<lparr>hc_conn_send_window := w\<rparr>, Inr ())
           else (c, Inl (connection_error FlowControlError ''Connection window overflow''))
       | None \<Rightarrow> (c, Inl (connection_error FlowControlError ''Connection window overflow'')))"
    by (auto intro!: preservesI simp: counters_are_def counters_def split: option.splits)
  then show ?thesis unfolding handle_window_update_def by (intro preserves_if counters_streams)
qed

lemma counters_decode [inv_intros]: "preserves (counters_are k) (decode_and_set_headers sid tr)"
  by (intro preserves_decode_headers inv_intros)

lemma counters_finish [inv_intros]: "preserves (counters_are k) (finish_headers sid es tr)"
  unfolding finish_headers_def by (intro inv_intros) (simp add: counters_def)

lemma counters_obtain [inv_intros]: "preserves (counters_are k) (obtain_stream sid)"
  by (intro preserves_obtain_stream inv_intros) (simp add: counters_are_def counters_def)

lemma counters_handle_headers [inv_intros]: "preserves (counters_are k) (handle_headers sid es eh prio block)"
  by (intro preserves_handle_headers inv_intros) (simp_all add: counters_are_def counters_def)

lemma counters_handle_continuation [inv_intros]: "preserves (counters_are k) (handle_continuation sid eh block)"
  by (intro preserves_handle_continuation inv_intros) (simp_all add: counters_are_def counters_def)

text \<open>A frame together with the time at which it is processed.\<close>

definition timed_step :: "nat \<times> frame \<Rightarrow> h2conn \<Rightarrow> h2conn \<times> (http2_error + processed_request option)" where
  "timed_step tf c = process_frame (snd tf) (c\<lparr>hc_stream := (hc_stream c)\<lparr>tr_now := fst tf\<rparr>\<rparr>)"

definition is_control_frame :: "frame \<Rightarrow> bool" where
  "is_control_frame f = (case f of FPing ack _ \<Rightarrow> \<not> ack | FSettings ack _ \<Rightarrow> \<not> ack | _ \<Rightarrow> False)"

definition is_rst_frame :: "frame \<Rightarrow> bool" where
  "is_rst_frame f = (case f of FRstStream _ _ \<Rightarrow> True | _ \<Rightarrow> False)"

lemma counters_step: "preserves (counters_are (counters c)) m \<Longrightarrow> counters (fst (m c)) = counters c"
  using preservesD [of "counters_are (counters c)" m c] by (simp add: counters_are_def)

lemma counters_other_frame:
  assumes "\<not> is_control_frame f" "\<not> is_rst_frame f"
  shows "counters (fst (process_frame f c)) = counters c"
  using assms
  by (cases f)
    (auto simp: process_frame_def is_control_frame_def is_rst_frame_def handle_settings_def handle_ping_def
      intro!: counters_step inv_intros, simp_all add: counters_def)

lemma then_check:
  assumes "\<And>k. preserves (counters_are k) n"
  shows "counters (fst (then_st m n c)) = counters (fst (m c))"
proof (cases "m c")
  case (Pair c' r)
  then show ?thesis
    using counters_step [OF assms, of c'] by (cases r) (simp_all add: then_st_apply)
qed

lemma then_check_result: "snd (then_st m n c) = r \<Longrightarrow> snd (m c) = Inl e \<Longrightarrow> r = Inl e"
  by (auto simp: then_st_apply split: prod.splits)

lemma control_frame_step:
  assumes "is_control_frame f" "fits_header_block c f"
  shows "counters (fst (process_frame f c)) = counters (fst (check_control_frame_rate c))
    \<and> (snd (check_control_frame_rate c) = Inl e \<longrightarrow> snd (process_frame f c) = Inl e)"
proof -
  have "\<exists>n. process_frame f c = then_st check_control_frame_rate n c \<and> (\<forall>k. preserves (counters_are k) n)"
  proof (cases f)
    case (FPing ack d)
    have "process_frame f c = then_st check_control_frame_rate (then_st (write_all (encode_ping d True)) (ret_st None)) c"
      using assms FPing
      by (auto simp: process_frame_def handle_ping_def is_control_frame_def then_st_apply split: prod.splits sum.splits)
    moreover have "preserves (counters_are k) (then_st (write_all (encode_ping d True)) (ret_st None))" for k
      by (intro inv_intros)
    ultimately show ?thesis by blast
  next
    case (FSettings ack settings)
    have "process_frame f c = then_st check_control_frame_rate
        (then_st (apply_settings settings) (then_st (write_all encode_settings_ack) (ret_st None))) c"
      using assms FSettings
      by (auto simp: process_frame_def handle_settings_def is_control_frame_def then_st_apply split: prod.splits sum.splits)
    moreover have "preserves (counters_are k)
        (then_st (apply_settings settings) (then_st (write_all encode_settings_ack) (ret_st None)))" for k
      by (intro inv_intros)
    ultimately show ?thesis by blast
  qed (use assms in \<open>simp_all add: is_control_frame_def\<close>)
  then obtain n where n: "process_frame f c = then_st check_control_frame_rate n c" "\<And>k. preserves (counters_are k) n"
    by blast
  show ?thesis using then_check [OF n(2), of _ c] then_check_result [of check_control_frame_rate n c] by (simp add: n(1))
qed

lemma rst_frame_step:
  assumes "is_rst_frame f"
  shows "(\<exists>e. process_frame f c = (c, Inl e) \<and> should_goaway e)
    \<or> counters (fst (process_frame f c)) = counters (fst (check_rst_rate c))
      \<and> (\<forall>e. snd (check_rst_rate c) = Inl e \<longrightarrow> snd (process_frame f c) = Inl e)"
proof (cases f)
  case (FRstStream sid code)
  have "preserves (counters_are k) (then_st (update_stream sid (recv_rst_stream code)) (ret_st None))" for k
    by (intro inv_intros)
  note t = then_check [OF this, of check_rst_rate c] then_check_result [OF refl, of check_rst_rate c]
  have "(\<exists>e. process_frame f c = (c, Inl e) \<and> should_goaway e)
    \<or> process_frame f c = then_st check_rst_rate (then_st (update_stream sid (recv_rst_stream code)) (ret_st None)) c"
    using FRstStream
    by (auto simp: process_frame_def handle_rst_stream_def then_st_apply connection_error_def protocol_error_def
        split: prod.splits sum.splits)
  then show ?thesis
  proof
    assume "process_frame f c = then_st check_rst_rate (then_st (update_stream sid (recv_rst_stream code)) (ret_st None)) c"
    then show ?thesis by (intro disjI2) (simp add: t)
  qed blast
qed (use assms in \<open>simp_all add: is_rst_frame_def\<close>)

lemma rate_checks:
  "check_control_frame_rate c =
    (if hc_control_frame_window_start c + 1000000000 \<le> conn_now c
     then (c\<lparr>hc_control_frame_count := 1, hc_control_frame_window_start := conn_now c\<rparr>, Inr ())
     else if hc_control_frame_count c + 1 > hs_max_control_frames_per_second (hc_local_settings c)
     then (c\<lparr>hc_control_frame_count := hc_control_frame_count c + 1\<rparr>,
       Inl (connection_error EnhanceYourCalm ''Control frame rate limit exceeded''))
     else (c\<lparr>hc_control_frame_count := hc_control_frame_count c + 1\<rparr>, Inr ()))"
  "check_rst_rate c =
    (if hc_rst_stream_window_start c + 1000000000 \<le> conn_now c
     then (c\<lparr>hc_rst_stream_count := 1, hc_rst_stream_window_start := conn_now c\<rparr>, Inr ())
     else if hc_rst_stream_count c + 1 > hs_max_rst_stream_per_second (hc_local_settings c)
     then (c\<lparr>hc_rst_stream_count := hc_rst_stream_count c + 1\<rparr>,
       Inl (connection_error EnhanceYourCalm ''RST_STREAM rate limit exceeded''))
     else (c\<lparr>hc_rst_stream_count := hc_rst_stream_count c + 1\<rparr>, Inr ()))"
  by (auto simp: check_control_frame_rate_def check_rst_rate_def Let_def div_greater_zero_iff)

definition rate_valid :: "(http2_settings \<Rightarrow> u32) \<Rightarrow> (h2conn \<Rightarrow> u32) \<Rightarrow> u32 \<Rightarrow> h2conn \<Rightarrow> bool" where
  "rate_valid lim cnt L c \<longleftrightarrow> conn_core c \<and> lim (hc_local_settings c) = L \<and> L < 0xFFFFFFFF \<and> unat (cnt c) \<le> max 1 (unat L)"

lemma u32_count:
  assumes "unat (n :: u32) \<le> max 1 (unat L)" "L < 0xFFFFFFFF"
  shows "unat (n + 1) = Suc (unat n)" "(L < n + 1) = (unat L < Suc (unat n))"
proof -
  have "unat L < 4294967295" using assms(2) by (simp add: word_less_nat_alt)
  then have "unat n + unat (1 :: u32) < 2 ^ LENGTH(32)" using assms(1) by simp
  then show s: "unat (n + 1) = Suc (unat n)" by (simp add: unat_plus_simple [THEN iffD1] no_olen_add_nat [THEN iffD2])
  show "(L < n + 1) = (unat L < Suc (unat n))" by (simp only: word_less_nat_alt s)
qed

lemma timed_settings: "conn_core c \<Longrightarrow> conn_core (fst (timed_step tf c)) \<and> hc_local_settings (fst (timed_step tf c)) = hc_local_settings c"
proof -
  assume c: "conn_core c"
  let ?c = "c\<lparr>hc_stream := (hc_stream c)\<lparr>tr_now := fst tf\<rparr>\<rparr>"
  have "steady ?c ?c" using c by (simp add: steady_def conn_core_def)
  from preservesD [OF steady_process_frame this, of "snd tf"] show ?thesis
    by (simp add: timed_step_def steady_def same_input_def)
qed

lemma counters_now [simp]: "counters (c\<lparr>hc_stream := t\<rparr>) = counters c"
  by (simp add: counters_def)

lemma check_counters:
  "snd (counters (fst (check_control_frame_rate c))) = snd (counters c)"
  "fst (counters (fst (check_rst_rate c))) = fst (counters c)"
  by (auto simp: rate_checks counters_def)

lemma timed_other:
  "\<not> is_control_frame (snd tf) \<Longrightarrow> fst (counters (fst (timed_step tf c))) = fst (counters c)"
  "\<not> is_rst_frame (snd tf) \<Longrightarrow> snd (counters (fst (timed_step tf c))) = snd (counters c)"
proof -
  let ?c = "c\<lparr>hc_stream := (hc_stream c)\<lparr>tr_now := fst tf\<rparr>\<rparr>"
  show "fst (counters (fst (timed_step tf c))) = fst (counters c)" if "\<not> is_control_frame (snd tf)"
    using counters_other_frame [OF that, of ?c] rst_frame_step [of "snd tf" ?c]
    by (cases "is_rst_frame (snd tf)") (auto simp: timed_step_def check_counters)
  show "snd (counters (fst (timed_step tf c))) = snd (counters c)" if "\<not> is_rst_frame (snd tf)"
    using counters_other_frame [OF _ that, of ?c] control_frame_step [of "snd tf" ?c]
    by (cases "is_control_frame (snd tf)"; cases "fits_header_block ?c (snd tf)")
      (auto simp: timed_step_def check_counters process_frame_def)
qed

lemma rate_check_error:
  "snd (check_control_frame_rate c) = Inl e \<Longrightarrow> should_goaway e" "snd (check_rst_rate c) = Inl e \<Longrightarrow> should_goaway e"
  by (auto simp: rate_checks connection_error_def split: if_splits)

lemma process_frame_blocked:
  "\<not> fits_header_block c f \<Longrightarrow>
    process_frame f c = (c, Inl (connection_error ProtocolError ''Expected CONTINUATION frame during header block''))"
  by (simp add: process_frame_def)

lemma timed_control:
  assumes "is_control_frame (snd tf)" "all_alive timed_step should_goaway [tf] c"
  defines "c1 \<equiv> c\<lparr>hc_stream := (hc_stream c)\<lparr>tr_now := fst tf\<rparr>\<rparr>"
  shows "counters (fst (timed_step tf c)) = counters (fst (check_control_frame_rate c1)) \<and> snd (check_control_frame_rate c1) = Inr ()"
proof -
  have p: "timed_step tf c = process_frame (snd tf) c1" by (simp add: timed_step_def c1_def)
  have fits: "fits_header_block c1 (snd tf)"
  proof (rule ccontr)
    assume "\<not> ?thesis"
    then show False using assms(2) by (simp add: p process_frame_blocked connection_error_def)
  qed
  note s = control_frame_step [OF assms(1) fits]
  have "snd (check_control_frame_rate c1) = Inr ()"
    using s assms(2) rate_check_error(1) [of c1] by (cases "snd (check_control_frame_rate c1)") (auto simp: p)
  with s show ?thesis by (simp add: p)
qed

lemma timed_rst:
  assumes "is_rst_frame (snd tf)" "all_alive timed_step should_goaway [tf] c"
  defines "c1 \<equiv> c\<lparr>hc_stream := (hc_stream c)\<lparr>tr_now := fst tf\<rparr>\<rparr>"
  shows "counters (fst (timed_step tf c)) = counters (fst (check_rst_rate c1)) \<and> snd (check_rst_rate c1) = Inr ()"
proof -
  have p: "timed_step tf c = process_frame (snd tf) c1" by (simp add: timed_step_def c1_def)
  have s: "counters (fst (process_frame (snd tf) c1)) = counters (fst (check_rst_rate c1))
      \<and> (\<forall>e. snd (check_rst_rate c1) = Inl e \<longrightarrow> snd (process_frame (snd tf) c1) = Inl e)"
    using rst_frame_step [OF assms(1), of c1] assms(2) by (auto simp: p)
  then have "snd (check_rst_rate c1) = Inr ()"
    using assms(2) rate_check_error(2) [of c1] by (cases "snd (check_rst_rate c1)") (auto simp: p)
  with s show ?thesis by (simp add: p)
qed

text \<open>Both counters meet the contract.\<close>

lemma second_window_u32:
  fixes cnt :: "h2conn \<Rightarrow> u32"
  assumes other: "\<And>tf c. \<not> counted tf \<Longrightarrow> cnt (fst (timed_step tf c)) = cnt c \<and> start (fst (timed_step tf c)) = start c"
    and late: "\<And>tf c. counted tf \<Longrightarrow> all_alive timed_step should_goaway [tf] c \<Longrightarrow> start c + 1000000000 \<le> fst tf
      \<Longrightarrow> cnt (fst (timed_step tf c)) = 1 \<and> start (fst (timed_step tf c)) = fst tf"
    and early: "\<And>tf c. counted tf \<Longrightarrow> all_alive timed_step should_goaway [tf] c \<Longrightarrow> fst tf < start c + 1000000000
      \<Longrightarrow> \<not> lim (hc_local_settings c) < cnt c + 1 \<and> cnt (fst (timed_step tf c)) = cnt c + 1 \<and> start (fst (timed_step tf c)) = start c"
  shows "second_window timed_step should_goaway fst counted (\<lambda>c. unat (cnt c)) start (unat L) (rate_valid lim cnt L)"
proof
  fix c tf
  assume v: "rate_valid lim cnt L c"
  then have L: "lim (hc_local_settings c) = L" "L < 0xFFFFFFFF" "unat (cnt c) \<le> max 1 (unat L)"
    by (simp_all add: rate_valid_def)
  note n = u32_count [OF L(3,2)]
  show "unat (cnt (fst (timed_step tf c))) = unat (cnt c) \<and> start (fst (timed_step tf c)) = start c" if "\<not> counted tf"
    using other [OF that] by simp
  assume alive: "all_alive timed_step should_goaway [tf] c"
  show l: "unat (cnt (fst (timed_step tf c))) = 1 \<and> start (fst (timed_step tf c)) = fst tf"
    if "counted tf" "start c + 1000000000 \<le> fst tf"
    using late [OF that(1) alive that(2)] by simp
  show e: "unat (cnt c) < unat L \<and> unat (cnt (fst (timed_step tf c))) = Suc (unat (cnt c)) \<and> start (fst (timed_step tf c)) = start c"
    if "counted tf" "fst tf < start c + 1000000000"
    using early [OF that(1) alive that(2)] n by (auto simp: L(1))
  have "unat (cnt (fst (timed_step tf c))) \<le> max 1 (unat L)"
    using other [of tf c] l e L(3) by (cases "counted tf"; cases "start c + 1000000000 \<le> fst tf") auto
  then show "rate_valid lim cnt L (fst (timed_step tf c))"
    using timed_settings [of c tf] v by (simp add: rate_valid_def)
qed

interpretation control_rate: second_window timed_step should_goaway fst "\<lambda>tf. is_control_frame (snd tf)"
    "\<lambda>c. unat (hc_control_frame_count c)" hc_control_frame_window_start "unat L"
    "rate_valid hs_max_control_frames_per_second hc_control_frame_count L" for L
proof (rule second_window_u32)
  fix tf c
  show "\<not> is_control_frame (snd tf) \<Longrightarrow> hc_control_frame_count (fst (timed_step tf c)) = hc_control_frame_count c
      \<and> hc_control_frame_window_start (fst (timed_step tf c)) = hc_control_frame_window_start c"
    using timed_other(1) [of tf c] by (simp add: counters_def)
qed (use timed_control in \<open>fastforce simp: rate_checks counters_def conn_now_def split: if_splits\<close>)+

interpretation rst_rate: second_window timed_step should_goaway fst "\<lambda>tf. is_rst_frame (snd tf)"
    "\<lambda>c. unat (hc_rst_stream_count c)" hc_rst_stream_window_start "unat L"
    "rate_valid hs_max_rst_stream_per_second hc_rst_stream_count L" for L
proof (rule second_window_u32)
  fix tf c
  show "\<not> is_rst_frame (snd tf) \<Longrightarrow> hc_rst_stream_count (fst (timed_step tf c)) = hc_rst_stream_count c
      \<and> hc_rst_stream_window_start (fst (timed_step tf c)) = hc_rst_stream_window_start c"
    using timed_other(2) [of tf c] by (simp add: counters_def)
qed (use timed_rst in \<open>fastforce simp: rate_checks counters_def conn_now_def split: if_splits\<close>)+

section \<open>A fresh connection\<close>

lemma write_all_idle:
  "tr_writes (hc_stream c) = [] \<Longrightarrow>
    write_all_raw buf c = (c\<lparr>hc_stream := (hc_stream c)\<lparr>tr_writes := [], tr_sent := tr_sent (hc_stream c) @ buf\<rparr>\<rparr>, Inr ())"
  by (subst write_all_raw.simps, cases buf) (simp_all add: tr_write_all_def)

lemma sint_i32_range: "i32_range (sint (w :: u32))"
  using sint_ge [of w] sint_lt [of w] by (simp add: i32_range_def)

lemma conn_inv_new: "conn_inv (conn_new_with_initial_buffer t settings d)"
proof -
  have "sm_inv (stream_manager_new n (sint (w :: u32)))" for n w
    by (rule sm_inv_new) (rule sint_i32_range)
  moreover have "decoder_inv (hpack_decoder_new n)" for n
    by (simp add: decoder_inv_def hpack_decoder_new_def table_inv_new)
  ultimately show ?thesis
    by (simp add: conn_inv_def conn_core_def pending_ok_def buffer_ok_def conn_new_with_initial_buffer_def Let_def
        conn_get_def sm_get_def stream_manager_new_def store_get_def sint_i32_range settings_default_def
        MAX_FRAME_SIZE_def MAX_FRAME_SIZE_UPPER_LIMIT_def acquire_h2_read_buf_def H2_READ_BUF_SIZE_def)
      (simp add: i32_range_def)
qed

text \<open>The bytes held for unfinished header blocks, over all streams.\<close>

definition header_bytes :: "h2conn \<Rightarrow> nat" where
  "header_bytes c = sum_list (map (\<lambda>e. pending_header_len (snd e)) (sm_streams (hc_streams c)))"

lemma sum_list_single:
  assumes "distinct (map fst xs)" "\<And>e. e \<in> set xs \<Longrightarrow> f e \<le> (B :: nat)" "\<And>e. e \<in> set xs \<Longrightarrow> f e \<noteq> 0 \<Longrightarrow> fst e = k"
  shows "sum_list (map f xs) \<le> B"
  using assms
proof (induction xs)
  case (Cons e xs)
  show ?case
  proof (cases "f e = 0")
    case False
    then have "fst e = k" using Cons.prems(3) by simp
    then have "f x = 0" if "x \<in> set xs" for x
      using Cons.prems(1,3) that by (metis distinct.simps(2) image_eqI list.set_map list.simps(9) list.set_intros(2))
    then have z: "sum_list (map f xs) = 0" by (simp add: sum_list_eq_0_iff)
    show ?thesis using Cons.prems(2) [of e] by (simp add: z)
  qed (use Cons in auto)
qed simp

lemma header_bytes_bound:
  assumes "conn_inv c"
  shows "header_bytes c \<le> hs_max_header_block_size (hc_local_settings c)"
proof -
  have wf: "store_wf (sm_streams (hc_streams c))" using assms by (simp add: conn_inv_def conn_core_def sm_inv_def)
  have e: "pending_header_len (snd e) \<le> hs_max_header_block_size (hc_local_settings c)
      \<and> (pending_header_len (snd e) \<noteq> 0 \<longrightarrow> sm_receiving_headers_stream (hc_streams c) = Some (fst e))"
    if "e \<in> set (sm_streams (hc_streams c))" for e
  proof -
    have "conn_get c (fst e) = Some (snd e)" using store_get_set [OF wf] that by (simp add: conn_get_def sm_get_def)
    then show ?thesis using assms by (auto simp: conn_inv_def pending_ok_def pending_header_len_def)
  qed
  show ?thesis
    unfolding header_bytes_def
    by (rule sum_list_single [where k = "the (sm_receiving_headers_stream (hc_streams c))"])
      (use wf e in \<open>auto simp: store_wf_def\<close>)
qed

definition conn_run :: "(nat \<times> frame) list \<Rightarrow> h2conn \<Rightarrow> h2conn" where
  "conn_run tfs c = fold (\<lambda>tf c. fst (timed_step tf c)) tfs c"

lemma conn_inv_run:
  "conn_inv c \<Longrightarrow> conn_inv (conn_run tfs c) \<and> hc_local_settings (conn_run tfs c) = hc_local_settings c"
  unfolding conn_run_def
proof (induction tfs arbitrary: c)
  case (Cons tf tfs)
  have "conn_inv (c\<lparr>hc_stream := (hc_stream c)\<lparr>tr_now := fst tf\<rparr>\<rparr>)"
    using Cons.prems by (simp add: conn_inv_def conn_core_def buffer_ok_def)
  from process_frame_keeps [OF this, of "snd tf"] Cons.IH [of "fst (timed_step tf c)"] show ?case
    by (simp add: timed_step_def same_input_def)
qed simp

section \<open>Open header blocks\<close>

lemma continuation_step:
  assumes "sm_receiving_headers_stream (hc_streams c) = Some sid"
    and "process_frame (FContinuation sid False block) c = (c', Inr r)"
  shows "\<exists>s. conn_get c sid = Some s
      \<and> pending_header_len s + length block \<le> hs_max_header_block_size (hc_local_settings c)
      \<and> hc_continuation_count c + 1 \<le> hs_max_continuation_frames (hc_local_settings c)
      \<and> c' = c\<lparr>hc_continuation_count := hc_continuation_count c + 1,
               hc_streams := modify_stream sid (append_header_fragment block False) (hc_streams c)\<rparr>"
  using assms
  by (auto simp: process_frame_def fits_header_block_def handle_continuation_def Let_def update_stream_def conn_get_def
      split: option.splits if_splits)

lemma continuation_run:
  assumes "sm_receiving_headers_stream (hc_streams c) = Some sid"
    and "hc_continuation_count c \<le> hs_max_continuation_frames (hc_local_settings c)"
    and "hs_max_continuation_frames (hc_local_settings c) < 0xFFFFFFFF"
    and "all_alive process_frame (\<lambda>e. True) (map (FContinuation sid False) blocks) c"
  shows "length blocks \<le> unat (hs_max_continuation_frames (hc_local_settings c)) - unat (hc_continuation_count c)
    \<and> sum_list (map length blocks) \<le> hs_max_header_block_size (hc_local_settings c)
        - (case conn_get c sid of Some s \<Rightarrow> pending_header_len s | None \<Rightarrow> 0)"
  using assms
proof (induction blocks arbitrary: c)
  case (Cons block blocks)
  let ?L = "hc_local_settings c"
  obtain c' r where p: "process_frame (FContinuation sid False block) c = (c', r)" by fastforce
  with Cons.prems(4) obtain r' where r: "r = Inr r'" by (cases r) auto
  from continuation_step [OF Cons.prems(1) p [unfolded r]] obtain s where s: "conn_get c sid = Some s"
    "pending_header_len s + length block \<le> hs_max_header_block_size ?L"
    "hc_continuation_count c + 1 \<le> hs_max_continuation_frames ?L"
    and c': "c' = c\<lparr>hc_continuation_count := hc_continuation_count c + 1,
               hc_streams := modify_stream sid (append_header_fragment block False) (hc_streams c)\<rparr>" by blast
  have s': "conn_get c' sid = Some (append_header_fragment block False s)"
    using s(1) by (simp add: c' conn_get_def sm_get_modify_stream)
  have n: "unat (hc_continuation_count c + 1) = Suc (unat (hc_continuation_count c))"
    by (rule u32_count(1) [where L = "hs_max_continuation_frames ?L"])
      (use Cons.prems(2,3) in \<open>simp_all add: word_le_nat_alt\<close>)
  have ih: "length blocks \<le> unat (hs_max_continuation_frames ?L) - Suc (unat (hc_continuation_count c))"
    "sum_list (map length blocks) \<le> hs_max_header_block_size ?L - (pending_header_len s + length block)"
    using Cons.IH [of c'] Cons.prems s(3) p r s'
    by (simp_all add: c' n) (simp_all add: append_header_fragment_def pending_header_len_def)
  have "Suc (unat (hc_continuation_count c)) \<le> unat (hs_max_continuation_frames ?L)"
    using s(3) by (simp only: word_le_nat_alt n)
  then show ?case using ih s(2) by (simp add: s(1)) (intro conjI; linarith)
qed simp

section \<open>Properties\<close>

text \<open>C26: Whatever frames arrive at whatever times, a connection keeps its invariant: the stream
  table is well formed, both flow-control windows stay in the range of i32, the peer's frame size
  stays within what RFC 7540 allows, the HPACK table within its limit; only the stream whose header
  block is open holds header fragments, so that a peer makes the server buffer at most the
  configured header block size over all streams together; and every stream's request headers,
  once set, passed validation.\<close>

theorem connection_invariant:
  "let c = conn_run frames (conn_new_with_initial_buffer t settings d)
   in conn_inv c \<and> header_bytes c \<le> hs_max_header_block_size settings
    \<and> (case conn_get c sid of
         Some s \<Rightarrow> st_request_headers s = [] \<or> validate_request_headers (st_request_headers s) sid False = Inr ()
       | None \<Rightarrow> True)"
proof -
  define c where "c = conn_run frames (conn_new_with_initial_buffer t settings d)"
  have c: "conn_inv c" "hc_local_settings c = settings"
    using conn_inv_run [OF conn_inv_new, of frames t settings d]
    by (simp_all add: c_def) (simp add: conn_new_with_initial_buffer_def Let_def)
  moreover have "request_ok sid s" if "conn_get c sid = Some s" for s
    using c(1) that by (simp add: conn_inv_def pending_ok_def)
  ultimately show ?thesis using header_bytes_bound [OF c(1)] 
    by (auto simp: request_ok_def Let_def c_def [symmetric] split: option.splits)
qed

text \<open>C27: Floods are bounded, wherever an interval of less than a second starts: as long as the
  connection is not torn down, at most \<open>limit + max 1 limit\<close> SETTINGS and PING frames that are not
  acknowledgements are processed in it, and at most the same number of RST_STREAM frames for their
  limit, whatever other frames come in between.\<close>

theorem flood_bounded:
  assumes "all_alive timed_step should_goaway (earlier @ frames) (conn_new_with_initial_buffer t settings d)"
    and "\<forall>tf \<in> set frames. lo \<le> fst tf \<and> fst tf < lo + 1000000000"
    and "hs_max_control_frames_per_second settings < 0xFFFFFFFF" "hs_max_rst_stream_per_second settings < 0xFFFFFFFF"
  shows "length (filter (\<lambda>tf. is_control_frame (snd tf)) frames)
      \<le> unat (hs_max_control_frames_per_second settings) + max 1 (unat (hs_max_control_frames_per_second settings))
    \<and> length (filter (\<lambda>tf. is_rst_frame (snd tf)) frames)
      \<le> unat (hs_max_rst_stream_per_second settings) + max 1 (unat (hs_max_rst_stream_per_second settings))"
proof -
  let ?c = "conn_new_with_initial_buffer t settings d"
  have "conn_core ?c" using conn_inv_new by (simp add: conn_inv_def)
  then have "rate_valid hs_max_control_frames_per_second hc_control_frame_count (hs_max_control_frames_per_second settings) ?c"
    "rate_valid hs_max_rst_stream_per_second hc_rst_stream_count (hs_max_rst_stream_per_second settings) ?c"
    using assms(3,4) by (simp_all add: rate_valid_def conn_new_with_initial_buffer_def Let_def)
  from control_rate.rate_bound [OF this(1) assms(1)] rst_rate.rate_bound [OF this(2) assms(1)] assms(2)
  show ?thesis by blast
qed

theorem flood_bounded_witness:
  "length (filter (\<lambda>tf. is_control_frame (snd tf)) [(5 :: nat, FPing False [1, 2, 3, 4, 5, 6, 7, 8])])
    \<le> unat (hs_max_control_frames_per_second settings_default) + max 1 (unat (hs_max_control_frames_per_second settings_default))"
proof -
  let ?c = "conn_new_with_initial_buffer \<lparr>tr_reads = [], tr_writes = [], tr_sent = [], tr_now = 0\<rparr> settings_default []"
  have c: "sm_receiving_headers_stream (hc_streams ?c) = None" "hc_control_frame_window_start ?c = 0"
    "hc_control_frame_count ?c = 0" "tr_writes (hc_stream ?c) = []" "hc_local_settings ?c = settings_default"
    by (simp_all add: conn_new_with_initial_buffer_def Let_def stream_manager_new_def)
  have lim: "hs_max_control_frames_per_second settings_default = 500" "hs_max_rst_stream_per_second settings_default = 100"
    by (simp_all add: settings_default_def MAX_CONTROL_FRAMES_PER_SECOND_def MAX_RST_STREAM_PER_SECOND_def)
  have "all_alive timed_step should_goaway ([] @ [(5, FPing False [1, 2, 3, 4, 5, 6, 7, 8])]) ?c"
    by (simp add: timed_step_def process_frame_def fits_header_block_def handle_ping_def rate_checks then_st_apply
        conn_now_def c lim write_all_def write_all_idle)
  from flood_bounded [OF this, of 0] show ?thesis by (simp add: lim)
qed



end
