(* ===== verification/Connection_Send.thy ===== *)
theory Connection_Send
  imports Connection_Safety Grpc_Status "HOL-Library.Monad_Syntax"
begin

text \<open>
  The response side of a connection and its main loop (src/src/http2/connection.rs from
  \<open>send_response\<close> on).  The loops that send DATA advance by the peer's frame size, which is a value
  of the state; a run that never returns is \<open>None\<close>, and the theorems show that every run returns.
\<close>

type_synonym 'a conn_run = "h2conn \<Rightarrow> (h2conn \<times> (http2_error + 'a)) option"

definition run_of :: "'a conn_step \<Rightarrow> 'a conn_run" where
  "run_of m c = Some (m c)"

definition then_run :: "unit conn_run \<Rightarrow> 'b conn_run \<Rightarrow> 'b conn_run" where
  "then_run m n c =
    Option.bind (m c) (\<lambda>cr. case snd cr of Inl e \<Rightarrow> Some (fst cr, Inl e) | Inr _ \<Rightarrow> n (fst cr))"

section \<open>Headers\<close>

definition status_str :: "u16 \<Rightarrow> bytes" where
  "status_str status =
    (if status = 200 then ascii ''200'' else if status = 204 then ascii ''204''
     else if status = 206 then ascii ''206'' else if status = 301 then ascii ''301''
     else if status = 302 then ascii ''302'' else if status = 304 then ascii ''304''
     else if status = 400 then ascii ''400'' else if status = 401 then ascii ''401''
     else if status = 403 then ascii ''403'' else if status = 404 then ascii ''404''
     else if status = 500 then ascii ''500'' else if status = 502 then ascii ''502''
     else if status = 503 then ascii ''503'' else if status = 504 then ascii ''504''
     else take 3 (ascii (show_nat (unat status))))"

definition hpack_encode_block :: "(bytes \<times> bytes \<times> bool) list \<Rightarrow> bytes conn_step" where
  "hpack_encode_block headers c =
    (case hpack_encode (hc_hpack_encoder c) headers of
       (e, block) \<Rightarrow> (c\<lparr>hc_hpack_encoder := e\<rparr>, Inr block))"

definition send_headers_internal ::
    "u32 \<Rightarrow> u16 \<Rightarrow> (bytes \<times> bytes) list \<Rightarrow> bytes list \<Rightarrow> bool \<Rightarrow> bool \<Rightarrow> unit conn_step" where
  "send_headers_internal sid status headers lowercase_names end_stream flush =
    bind_st (hpack_encode_block ((ascii '':status'', status_str status, False)
        # map (\<lambda>(name, header). (name, snd header, False)) (zip lowercase_names headers))) (\<lambda>header_block.
    then_st (modify_st (\<lambda>c. c\<lparr>hc_write_buf := encode_headers_into (hc_write_buf c) sid header_block end_stream True None\<rparr>))
    (then_st (if flush then flush_write_buf else ret_st ())
      (on_stream sid (send_headers end_stream))))"

definition lowercase_header_names :: "(bytes \<times> bytes) list \<Rightarrow> bytes list" where
  "lowercase_header_names headers = map (\<lambda>h. to_ascii_lowercase (fst h)) headers"

definition conn_send_headers :: "u32 \<Rightarrow> u16 \<Rightarrow> (bytes \<times> bytes) list \<Rightarrow> bool \<Rightarrow> unit conn_step" where
  "conn_send_headers sid status headers end_stream =
    send_headers_internal sid status headers (lowercase_header_names headers) end_stream True"

definition send_headers_buffered_end :: "u32 \<Rightarrow> u16 \<Rightarrow> (bytes \<times> bytes) list \<Rightarrow> bool \<Rightarrow> unit conn_step" where
  "send_headers_buffered_end sid status headers end_stream =
    send_headers_internal sid status headers (lowercase_header_names headers) end_stream False"

definition send_headers_buffered :: "u32 \<Rightarrow> u16 \<Rightarrow> (bytes \<times> bytes) list \<Rightarrow> unit conn_step" where
  "send_headers_buffered sid status headers =
    send_headers_internal sid status headers (lowercase_header_names headers) False False"

definition pending_write_len :: "h2conn \<Rightarrow> nat" where
  "pending_write_len c = length (hc_write_buf c)"

section \<open>Data\<close>

definition available_window :: "u32 \<Rightarrow> h2conn \<Rightarrow> nat" where
  "available_window sid c =
    (let stream_window = (case conn_get c sid of Some s \<Rightarrow> st_send_window s | None \<Rightarrow> 0)
     in nat (max (min (hc_conn_send_window c) stream_window) 0))"

definition spend_stream_window :: "int \<Rightarrow> stream \<Rightarrow> stream" where
  "spend_stream_window len s = s\<lparr>st_send_window := i32_wrap (st_send_window s - len)\<rparr>"

definition put_chunk :: "u32 \<Rightarrow> bytes \<Rightarrow> bool \<Rightarrow> h2conn \<Rightarrow> h2conn" where
  "put_chunk sid chunk end_stream c =
    (let len = i32_of_nat (length chunk);
         c = c\<lparr>hc_conn_send_window := i32_wrap (hc_conn_send_window c - len)\<rparr>;
         c = c\<lparr>hc_streams := modify_stream sid (spend_stream_window len) (hc_streams c)\<rparr>
     in c\<lparr>hc_write_buf := encode_data_into (hc_write_buf c) sid chunk end_stream\<rparr>)"

partial_function (option) queue_data_loop ::
    "u32 \<Rightarrow> bytes \<Rightarrow> bool \<Rightarrow> nat \<Rightarrow> nat \<Rightarrow> h2conn \<Rightarrow> (h2conn \<times> nat) option" where
  "queue_data_loop sid data end_stream max_frame_size offset c =
    (if offset < length data
     then
       let available = available_window sid c
       in if available = 0 then Some (c, offset)
          else
            let remaining = length data - offset;
                chunk_len = min (min remaining max_frame_size) available;
                is_last = (offset + chunk_len \<ge> length data);
                chunk = take chunk_len (drop offset data)
            in queue_data_loop sid data end_stream max_frame_size (offset + chunk_len)
                 (put_chunk sid chunk (end_stream \<and> is_last) c)
     else Some (c, offset))"

definition queue_data_frames :: "u32 \<Rightarrow> bytes \<Rightarrow> bool \<Rightarrow> nat conn_run" where
  "queue_data_frames sid data end_stream c =
    (if data = []
     then run_of (then_st
            (if end_stream
             then then_st (modify_st (\<lambda>c. c\<lparr>hc_write_buf := encode_data_into (hc_write_buf c) sid [] True\<rparr>))
                    (on_stream sid send_end_stream)
             else ret_st ())
            (ret_st 0)) c
     else
       Option.bind (queue_data_loop sid data end_stream (unat (hs_max_frame_size (hc_remote_settings c))) 0 c)
         (\<lambda>(c, offset).
           run_of (then_st
             (if end_stream \<and> offset = length data then on_stream sid send_end_stream else ret_st ())
             (ret_st offset)) c))"

definition MAX_WINDOW_UPDATE_WAITS :: nat where
  "MAX_WINDOW_UPDATE_WAITS = 100"

definition is_would_block :: "http2_error \<Rightarrow> bool" where
  "is_would_block e = (case e of Io (IoWouldBlock _) \<Rightarrow> True | _ \<Rightarrow> False)"

text \<open>Waiting for the window: one frame is read and processed.\<close>

definition await_window_frame :: "unit conn_step" where
  "await_window_frame c =
    (case read_frame c of
       (c, Inr frame) \<Rightarrow>
         (case frame of
            FWindowUpdate wid increment \<Rightarrow> handle_window_update wid increment c
          | _ \<Rightarrow> (fst (process_frame frame c), Inr ()))
     | (c, Inl e) \<Rightarrow> if is_would_block e then (c, Inr ()) else (c, Inl e))"

partial_function (option) send_data_loop ::
    "u32 \<Rightarrow> bytes \<Rightarrow> bool \<Rightarrow> nat \<Rightarrow> nat \<Rightarrow> nat \<Rightarrow> h2conn \<Rightarrow> (h2conn \<times> (http2_error + unit)) option" where
  "send_data_loop sid data end_stream max_frame_size offset waits c =
    (if offset < length data
     then
       let remaining = length data - offset;
           available = available_window sid c
       in if available = 0
          then
            (case flush_write_buf c of
               (c, Inl e) \<Rightarrow> Some (c, Inl e)
             | (c, Inr _) \<Rightarrow>
                 if waits + 1 > MAX_WINDOW_UPDATE_WAITS
                 then Some (c, Inl (stream_error sid FlowControlError ''Flow control window exhausted after max waits''))
                 else
                   (case await_window_frame c of
                      (c, Inl e) \<Rightarrow> Some (c, Inl e)
                    | (c, Inr _) \<Rightarrow> send_data_loop sid data end_stream max_frame_size offset (waits + 1) c))
          else
            let chunk_len = min (min remaining max_frame_size) available;
                is_last = (offset + chunk_len \<ge> length data);
                chunk = take chunk_len (drop offset data);
                c = put_chunk sid chunk (end_stream \<and> is_last) c
            in (case (if length (hc_write_buf c) \<ge> WRITE_BUF_FLUSH_THRESHOLD then flush_write_buf c else (c, Inr ())) of
                  (c, Inl e) \<Rightarrow> Some (c, Inl e)
                | (c, Inr _) \<Rightarrow> send_data_loop sid data end_stream max_frame_size (offset + chunk_len) 0 c)
     else Some (c, Inr ()))"

definition send_data :: "u32 \<Rightarrow> bytes \<Rightarrow> bool \<Rightarrow> unit conn_run" where
  "send_data sid data end_stream c =
    then_run (send_data_loop sid data end_stream (unat (hs_max_frame_size (hc_remote_settings c))) 0 0)
      (run_of
        (then_st (if data = [] \<and> end_stream
                  then modify_st (\<lambda>c. c\<lparr>hc_write_buf := encode_data_into (hc_write_buf c) sid [] True\<rparr>)
                  else ret_st ())
        (then_st flush_write_buf
          (if end_stream then on_stream sid send_end_stream else ret_st ())))) c"

definition send_response :: "u32 \<Rightarrow> u16 \<Rightarrow> (bytes \<times> bytes) list \<Rightarrow> bytes option \<Rightarrow> unit conn_run" where
  "send_response sid status headers body =
    (let empty_body = (case body of None \<Rightarrow> True | Some b \<Rightarrow> b = [])
     in then_run (run_of (send_headers_internal sid status headers (lowercase_header_names headers) empty_body empty_body))
          (case body of
             Some body_data \<Rightarrow> if body_data \<noteq> [] then send_data sid body_data True else run_of (ret_st ())
           | None \<Rightarrow> run_of (ret_st ())))"

section \<open>gRPC responses\<close>

definition trailers_sent :: "nat \<Rightarrow> stream \<Rightarrow> stream" where
  "trailers_sent now s = s\<lparr>st_grpc_stream_state := map_option (on_trailers_sent now) (st_grpc_stream_state s)\<rparr>"

text \<open>The message is a Rust string, a list of code points.\<close>

definition send_grpc_trailers :: "u32 \<Rightarrow> u32 \<Rightarrow> nat list option \<Rightarrow> unit conn_step" where
  "send_grpc_trailers sid grpc_status grpc_message =
    (let code = (case status_from_u8 (unat (ucast grpc_status :: u8)) of Some k \<Rightarrow> k | None \<Rightarrow> Unknown);
         status = (case grpc_message of Some msg \<Rightarrow> grpc_status_error code msg | None \<Rightarrow> grpc_status_from_code code);
         trailers = to_trailers status
     in bind_st (hpack_encode_block (map (\<lambda>(n, v). (n, v, False)) trailers)) (\<lambda>trailer_block.
        then_st (write_all (encode_headers sid trailer_block True True None))
        (bind_st (gets_st conn_now) (\<lambda>now.
        then_st (on_stream sid (send_headers True)) (update_stream sid (trailers_sent now))))))"

definition send_grpc_response ::
    "u32 \<Rightarrow> (bytes \<times> bytes) list \<Rightarrow> bytes option \<Rightarrow> u32 \<Rightarrow> nat list option \<Rightarrow> unit conn_run" where
  "send_grpc_response sid headers body grpc_status grpc_message =
    then_run (run_of
      (bind_st (hpack_encode_block
          ((ascii '':status'', ascii ''200'', False) # (ascii ''content-type'', ascii ''application/grpc+proto'', False)
            # map (\<lambda>(n, v). (n, v, False)) headers)) (\<lambda>header_block.
       then_st (modify_st (\<lambda>c. c\<lparr>hc_write_buf := encode_headers_into (hc_write_buf c) sid header_block False True None\<rparr>))
         (on_stream sid (send_headers False)))))
    (then_run
      (case body of
         Some body \<Rightarrow> if body \<noteq> [] then send_data sid body False else run_of flush_write_buf
       | None \<Rightarrow> run_of flush_write_buf)
      (run_of (send_grpc_trailers sid grpc_status grpc_message)))"

section \<open>Upkeep\<close>

fun close_idle :: "u32 list \<Rightarrow> unit conn_step" where
  "close_idle [] = ret_st ()"
| "close_idle (sid # sids) = then_st (conn_send_rst_stream sid Cancel) (close_idle sids)"

definition cleanup_idle_streams :: "nat conn_step" where
  "cleanup_idle_streams c =
    (let timeout_secs = hs_stream_idle_timeout_secs (hc_local_settings c)
     in if timeout_secs = 0 then (c, Inr 0)
        else
          let idle_streams = get_idle_streams (conn_now c) timeout_secs (hc_streams c)
          in then_st (close_idle idle_streams) (ret_st (length idle_streams)) c)"

definition conn_cleanup_closed :: "h2conn \<Rightarrow> h2conn" where
  "conn_cleanup_closed c = c\<lparr>hc_streams := cleanup_closed (hc_streams c)\<rparr>"

record h2_request_parts =
  rp_method :: bytes
  rp_path :: bytes
  rp_authority :: "bytes option"
  rp_headers :: "header_field list"
  rp_body :: bytes

fun split_headers :: "header_field list \<Rightarrow> h2_request_parts \<Rightarrow> h2_request_parts" where
  "split_headers [] p = p"
| "split_headers (h # hs) p =
    split_headers hs
      (if hf_name h = ascii '':method'' then p\<lparr>rp_method := hf_value h\<rparr>
       else if hf_name h = ascii '':path'' then p\<lparr>rp_path := hf_value h\<rparr>
       else if hf_name h = ascii '':authority'' then p\<lparr>rp_authority := Some (hf_value h)\<rparr>
       else p\<lparr>rp_headers := rp_headers p @ [h]\<rparr>)"

definition take_request_parts :: "u32 \<Rightarrow> h2conn \<Rightarrow> h2conn \<times> h2_request_parts option" where
  "take_request_parts sid c =
    (case conn_get c sid of
       None \<Rightarrow> (c, None)
     | Some s \<Rightarrow>
         (c\<lparr>hc_streams := modify_stream sid (\<lambda>s. s\<lparr>st_request_headers := [], st_request_body := []\<rparr>) (hc_streams c)\<rparr>,
          Some (split_headers (st_request_headers s)
            \<lparr>rp_method = [], rp_path = [], rp_authority = None, rp_headers = [], rp_body = st_request_body s\<rparr>)))"

text \<open>\<open>has_buffered_read_data\<close> is a method of the underlying stream, a parameter here.\<close>

definition has_pending_input :: "(transport \<Rightarrow> bool) \<Rightarrow> h2conn \<Rightarrow> bool" where
  "has_pending_input has_buffered_read_data c \<longleftrightarrow>
    hc_buf_end c > hc_buf_start c \<or> has_buffered_read_data (hc_stream c)"

section \<open>Main loop\<close>

definition goaway_for :: "http2_error \<Rightarrow> h2conn \<Rightarrow> h2conn" where
  "goaway_for e c = fst (send_goaway (error_code e) (ascii (display_error e)) c)"

definition default_response :: "u32 \<Rightarrow> unit conn_run" where
  "default_response sid =
    send_response sid 200
      [(ascii ''content-type'', ascii ''text/plain''), (ascii ''server'', ascii ''veil/http2'')]
      (Some (ascii ''HTTP/2 OK''))"

text \<open>What the loop does with the result of a frame: the error that ends it, if any.\<close>

definition handle_result :: "http2_error + processed_request option \<Rightarrow> h2conn \<Rightarrow> (h2conn \<times> http2_error option) option" where
  "handle_result r c =
    (case r of
       Inr (Some req) \<Rightarrow>
         if \<not> pr_body_pending req
         then Option.bind (default_response (pr_stream_id req) c) (\<lambda>cr.
           case snd cr of
             Inl e \<Rightarrow>
               (case rst_stream_id e of
                  Some rid \<Rightarrow> Some (fst (conn_send_rst_stream rid (error_code e) (fst cr)), None)
                | None \<Rightarrow> if should_goaway e then Some (goaway_for e (fst cr), Some e) else Some (fst cr, None))
           | Inr _ \<Rightarrow> Some (fst cr, None))
         else Some (c, None)
     | Inr None \<Rightarrow> Some (c, None)
     | Inl e \<Rightarrow>
         if should_goaway e then Some (goaway_for e c, Some e)
         else
           (case rst_stream_id e of
              Some rid \<Rightarrow> Some (fst (conn_send_rst_stream rid (error_code e) c), None)
            | None \<Rightarrow> Some (c, None)))"

partial_function (option) run_simple :: "h2conn \<Rightarrow> (h2conn \<times> (http2_error + unit)) option" where
  "run_simple c =
    (if hc_goaway_received c then Some (c, Inr ())
     else
       (case read_frame c of
          (c, Inl e) \<Rightarrow>
            if e = ConnectionClosed then Some (c, Inr ())
            else if is_would_block e then run_simple c
            else Some (goaway_for e c, Inl e)
        | (c, Inr frame) \<Rightarrow>
            (case process_frame frame c of
               (c, r) \<Rightarrow>
                 Option.bind (handle_result r c) (\<lambda>ce.
                   case snd ce of
                     Some e \<Rightarrow> Some (fst ce, Inl e)
                   | None \<Rightarrow> run_simple (conn_cleanup_closed (fst ce))))))"

section \<open>Every run returns\<close>

text \<open>
  Steps that write keep the invariant: they do not touch the input side, keep the windows in range
  and leave the header fragments alone.
\<close>

definition calm :: "h2conn \<Rightarrow> h2conn \<Rightarrow> bool" where
  "calm c0 c \<longleftrightarrow> conn_inv c \<and> same_input c0 c"

lemma calm_refl: "conn_inv c \<Longrightarrow> calm c c"
  by (simp add: calm_def)

lemma calm_split:
  "calm c0 c \<longleftrightarrow> buffer_ok c0 \<and> steady c0 c
    \<and> fragments_in (set_option (sm_receiving_headers_stream (hc_streams c))) (sm_receiving_headers_stream (hc_streams c))
        (hc_local_settings c0) c"
proof -
  have "same_input c0 c \<Longrightarrow> buffer_ok c = buffer_ok c0" by (auto simp: same_input_def buffer_ok_def)
  moreover have "same_input c0 c \<Longrightarrow> hc_local_settings c = hc_local_settings c0" by (simp add: same_input_def)
  ultimately show ?thesis by (auto simp: calm_def conn_inv_def steady_def pending_ok_fragments)
qed

lemma preserves_calm [inv_intros]:
  assumes "preserves (steady c0) m" "\<And>R r L. preserves (fragments_in R r L) m"
  shows "preserves (calm c0) m"
proof
  fix c
  assume c: "calm c0 c"
  let ?r = "sm_receiving_headers_stream (hc_streams c)"
  have s: "steady c0 (fst (m c))" using c assms(1) by (auto simp: calm_split dest: preservesD)
  have "fragments_in (set_option ?r) ?r (hc_local_settings c0) (fst (m c))"
    using c assms(2) by (auto simp: calm_split dest: preservesD)
  then have "pending_ok (fst (m c))" by (rule fragments_pending_ok) simp
  with s c show "calm c0 (fst (m c))"
    by (auto simp: calm_def conn_inv_def steady_def same_input_def buffer_ok_def)
qed

lemma write_buf_field [inv_intros]:
  "preserves (steady c0) (modify_st (\<lambda>c. c\<lparr>hc_write_buf := f c\<rparr>))"
  "preserves (fragments_in R r L) (modify_st (\<lambda>c. c\<lparr>hc_write_buf := f c\<rparr>))"
  by (auto intro!: preserves_modify simp: steady_def conn_core_def same_input_def fragments_in_def conn_get_def)

lemma flush_keeps [inv_intros]:
  "preserves (steady c0) flush_write_buf" "preserves (fragments_in R r L) flush_write_buf"
proof -
  have w: "preserves (steady c0) (write_all buf)" "preserves (fragments_in R r L) (write_all buf)" for buf
    by (intro inv_intros)+
  have e: "steady c0 c \<Longrightarrow> steady c0 (c\<lparr>hc_write_buf := []\<rparr>)"
    "fragments_in R r L c \<Longrightarrow> fragments_in R r L (c\<lparr>hc_write_buf := []\<rparr>)" for c
    by (auto simp: steady_def conn_core_def same_input_def fragments_in_def conn_get_def)
  show "preserves (steady c0) flush_write_buf" "preserves (fragments_in R r L) flush_write_buf"
    using preservesD [OF w(1)] preservesD [OF w(2)] e
    by (auto intro!: preservesI simp: flush_write_buf_def write_all_def)
qed

lemma encode_block_keeps [inv_intros]:
  "preserves (steady c0) (hpack_encode_block hs)" "preserves (fragments_in R r L) (hpack_encode_block hs)"
  by (auto intro!: preservesI simp: hpack_encode_block_def steady_def conn_core_def same_input_def fragments_in_def
      conn_get_def split: prod.splits)

lemma send_headers_keeps [inv_intros]:
  "preserves (steady c0) (send_headers_internal sid status hs names es fl)"
  "preserves (fragments_in R r L) (send_headers_internal sid status hs names es fl)"
  unfolding send_headers_internal_def by (intro inv_intros)+

lemma put_chunk_calm: "calm c0 c \<Longrightarrow> calm c0 (put_chunk sid chunk es c)"
proof -
  assume c: "calm c0 c"
  let ?m = "then_st (modify_st (\<lambda>c. c\<lparr>hc_conn_send_window := i32_wrap (hc_conn_send_window c - i32_of_nat (length chunk))\<rparr>))
    (then_st (update_stream sid (spend_stream_window (i32_of_nat (length chunk))))
      (modify_st (\<lambda>c. c\<lparr>hc_write_buf := encode_data_into (hc_write_buf c) sid chunk es\<rparr>)))"
  have "preserves (steady c0) (modify_st (\<lambda>c. c\<lparr>hc_conn_send_window := i32_wrap (hc_conn_send_window c - n)\<rparr>))" for n
    by (auto intro!: preserves_modify simp: steady_def conn_core_def same_input_def)
  moreover have "keeps_entry (spend_stream_window n)" "keeps_fragments (spend_stream_window n)" for n
    by (simp_all add: keeps_entry_def keeps_fragments_def windows_ok_def spend_stream_window_def)
  ultimately have "preserves (calm c0) ?m"
    by (intro preserves_calm preserves_then steady_update_stream fragments_update_stream fragments_field write_buf_field) simp_all
  from preservesD [OF this c] show ?thesis by (simp add: put_chunk_def Let_def update_stream_def)
qed

lemma same_input_left: "same_input c0 c \<Longrightarrow> input_left c = input_left c0"
  by (simp add: same_input_def input_left_def script_size_def)

section \<open>Reading\<close>

lemma compact_buffer_ok: "buffer_ok c \<Longrightarrow> buffer_ok (compact_buffer c)"
  by (auto simp: buffer_ok_def compact_buffer_def Let_def)

lemma grow_buffer_ok: "buffer_ok c \<Longrightarrow> buffer_ok (grow_read_buf c)"
  using compact_buffer_ok by (auto simp: grow_read_buf_def Let_def buffer_ok_def)

lemma fill_buffer_ok: "buffer_ok c \<Longrightarrow> buffer_ok (fst (fill_read_buf c))"
  using grow_buffer_ok [of c]
  by (auto simp: fill_read_buf_def Let_def buffer_ok_def split: prod.splits sum.splits if_splits)

lemma try_buffer_ok: "buffer_ok c \<Longrightarrow> buffer_ok (fst (try_read_frame_buffered c))"
  using compact_buffer_ok
  by (auto simp: try_read_frame_buffered_def Let_def buffer_ok_def split: sum.splits if_splits)

text \<open>Reading touches nothing but the transport and the buffer.\<close>

definition same_rest :: "h2conn \<Rightarrow> h2conn \<Rightarrow> bool" where
  "same_rest c0 c \<longleftrightarrow> (\<exists>t rb s e. c = c0\<lparr>hc_stream := t, hc_read_buf := rb, hc_buf_start := s, hc_buf_end := e\<rparr>)"

lemma same_rest_refl: "same_rest c c"
  unfolding same_rest_def by (rule exI [of _ "hc_stream c"], rule exI [of _ "hc_read_buf c"],
      rule exI [of _ "hc_buf_start c"], rule exI [of _ "hc_buf_end c"]) simp

lemma same_rest_trans: "same_rest a b \<Longrightarrow> same_rest b c \<Longrightarrow> same_rest a c"
  unfolding same_rest_def by (auto, intro exI, rule refl)

lemma same_rest_update: "same_rest c0 c \<Longrightarrow> same_rest c0 (c\<lparr>hc_stream := t, hc_read_buf := rb, hc_buf_start := s, hc_buf_end := e\<rparr>)"
  unfolding same_rest_def by (auto, intro exI, rule refl)

lemma same_rest_inv:
  assumes "same_rest c0 c" "conn_core c0" "pending_ok c0"
  shows "conn_core c" "pending_ok c"
  using assms by (auto simp: same_rest_def conn_core_def pending_ok_def conn_get_def)

lemma same_rest_parts:
  "same_rest c (compact_buffer c)" "same_rest c (grow_read_buf c)"
  "same_rest c (fst (fill_read_buf c))" "same_rest c (fst (try_read_frame_buffered c))"
proof -
  have upd: "same_rest c (c\<lparr>hc_stream := t, hc_read_buf := rb, hc_buf_start := s, hc_buf_end := e\<rparr>)" for c t rb s e
    by (rule same_rest_update) (rule same_rest_refl)
  have start: "same_rest c (c\<lparr>hc_buf_start := s\<rparr>)" for c s
    using upd [where c = c and t = "hc_stream c" and rb = "hc_read_buf c" and s = s and e = "hc_buf_end c"] by simp
  have buf: "same_rest c (c\<lparr>hc_read_buf := rb\<rparr>)" for c rb
    using upd [where c = c and t = "hc_stream c" and rb = rb and s = "hc_buf_start c" and e = "hc_buf_end c"] by simp
  have shift: "same_rest c (c\<lparr>hc_read_buf := rb, hc_buf_start := s, hc_buf_end := e\<rparr>)" for c rb s e
    using upd [where c = c and t = "hc_stream c" and rb = rb and s = s and e = e] by simp
  have compact: "same_rest c (compact_buffer c)" for c
    using shift same_rest_refl by (auto simp: compact_buffer_def Let_def)
  show "same_rest c (compact_buffer c)" by (rule compact)
  show grow: "same_rest c (grow_read_buf c)"
    using compact buf same_rest_refl by (auto simp: grow_read_buf_def Let_def)
  have fill: "same_rest g (g\<lparr>hc_stream := t, hc_read_buf := rb\<rparr>)" "same_rest g (g\<lparr>hc_stream := t, hc_read_buf := rb, hc_buf_end := e\<rparr>)" for g t rb e
    using upd [where c = g and t = t and rb = rb and s = "hc_buf_start g" and e = "hc_buf_end g"] upd [where c = g and t = t and rb = rb and s = "hc_buf_start g" and e = e] by simp_all
  show "same_rest c (fst (fill_read_buf c))"
    using same_rest_trans [OF grow] fill
    by (auto simp: fill_read_buf_def Let_def split: prod.splits sum.splits)
  show "same_rest c (fst (try_read_frame_buffered c))"
    using start same_rest_trans [OF start compact] same_rest_refl
    by (auto simp: try_read_frame_buffered_def Let_def split: sum.splits)
qed

lemma compact_left [simp]: "hc_buf_end (compact_buffer c) - hc_buf_start (compact_buffer c) = hc_buf_end c - hc_buf_start c"
  by (simp add: compact_buffer_def Let_def)

lemma grow_left [simp]: "hc_buf_end (grow_read_buf c) - hc_buf_start (grow_read_buf c) = hc_buf_end c - hc_buf_start c"
  by (simp add: grow_read_buf_def Let_def)

lemma tr_read_size: "tr_read cap t = (t', Inr d) \<Longrightarrow> script_size t' + length d \<le> script_size t"
proof (cases "tr_reads t")
  case (Cons a rest)
  assume "tr_read cap t = (t', Inr d)"
  then show ?thesis using Cons
    by (cases a rule: outcome_size.cases) (auto simp: tr_read_def script_size_def split: if_splits)
qed (auto simp: tr_read_def)

lemma fill_left:
  assumes "fill_read_buf c = (c', r)" "buffer_ok c"
  shows "input_left c' \<le> input_left c \<and> (\<forall>e. r = Inl (Io e) \<longrightarrow> input_left c' < input_left c)"
proof -
  let ?g = "grow_read_buf c"
  obtain t q where t: "tr_read (length (hc_read_buf ?g) - hc_buf_end ?g) (hc_stream ?g) = (t, q)" by fastforce
  have g: "buffer_ok ?g" using assms(2) by (rule grow_buffer_ok)
  have left: "input_left ?g = input_left c" by (simp add: input_left_def)
  show ?thesis
  proof (cases q)
    case (Inl e)
    have "script_size t < script_size (hc_stream ?g)" using tr_read_shrinks [OF t] Inl by simp
    then show ?thesis using assms(1) t Inl left by (auto simp: fill_read_buf_def Let_def input_left_def)
  next
    case (Inr d)
    have "script_size t + length d \<le> script_size (hc_stream ?g)" using tr_read_size t Inr by blast
    then show ?thesis using assms(1) t Inr g grow_left [of c]
      by (auto simp: fill_read_buf_def Let_def input_left_def buffer_ok_def simp del: grow_left split: if_splits)
  qed
qed

lemma decode_header_not_io: "decode_header dec buf \<noteq> Inl (Io io)"
  by (auto simp: decode_header_def Let_def split: if_splits)

lemma frame_decode_not_io: "frame_decode h p \<noteq> Inl (Io io)"
  by (auto simp: frame_decode_def frame_decoder_defs Let_def extract_padding_def bind_res_Inl_iff
      split: if_splits option.splits frame_type.splits)

lemma try_left:
  assumes "try_read_frame_buffered c = (c', r)" "buffer_ok c"
  shows "case r of Inr (Some f) \<Rightarrow> input_left c' < input_left c | Inr None \<Rightarrow> c' = c | Inl e \<Rightarrow> \<forall>io. e \<noteq> Io io"
  using assms
  by (auto simp: decode_header_not_io frame_decode_not_io try_read_frame_buffered_def Let_def input_left_def FRAME_HEADER_SIZE_def split: sum.splits if_splits)

lemma read_frame_keeps:
  assumes "buffer_ok c" "read_frame c = (c', r)"
  shows "same_rest c c' \<and> buffer_ok c' \<and> (\<forall>f. r = Inr f \<longrightarrow> input_left c' < input_left c)
    \<and> (\<forall>e. r = Inl (Io e) \<longrightarrow> input_left c' < input_left c) \<and> (\<forall>f. r \<noteq> Inr f \<longrightarrow> input_left c' \<le> input_left c)"
  using assms
proof (induction c rule: read_frame.induct)
  case (1 c)
  obtain c1 q where tr: "try_read_frame_buffered c = (c1, q)" by fastforce
  have c1: "same_rest c c1" "buffer_ok c1"
    using same_rest_parts(4) [of c] try_buffer_ok [OF "1.prems"(1)] by (simp_all add: tr)
  note left = try_left [OF tr "1.prems"(1)]
  show ?case
  proof (cases q)
    case (Inl e)
    then have "c' = c1" "r = Inl e" using "1.prems"(2) by (simp_all add: read_frame.simps [of c] tr)
    moreover have "c1 = c" using tr Inl by (auto simp: try_read_frame_buffered_def Let_def split: sum.splits if_splits)
    ultimately show ?thesis using c1 left Inl by simp
  next
    case (Inr fo)
    show ?thesis
    proof (cases fo)
      case (Some f)
      then have "c' = c1" "r = Inr f" using "1.prems"(2) Inr by (simp_all add: read_frame.simps [of c] tr)
      then show ?thesis using c1 left Inr Some by simp
    next
      case None
      then have same: "c1 = c" using left Inr by simp
      obtain c2 n where fl: "fill_read_buf c1 = (c2, n)" by fastforce
      have c2: "same_rest c c2" "buffer_ok c2"
        using same_rest_parts(3) [of c1] fill_buffer_ok [of c1] c1 same fl by simp_all
      note fleft = fill_left [OF fl c1(2)]
      show ?thesis
      proof (cases n)
        case (Inl e)
        then have "c' = c2" "r = Inl e" using "1.prems"(2) Inr None fl by (simp_all add: read_frame.simps [of c] tr)
        then show ?thesis using c2 fleft Inl same by auto
      next
        case n: (Inr k)
        have "read_frame c2 = (c', r)" using "1.prems"(2) Inr None fl n by (simp add: read_frame.simps [of c] tr)
        from "1.IH" [OF tr [symmetric] Inr None fl [symmetric] n c2(2) this] c2(1) fleft n same show ?thesis
          by (auto intro: same_rest_trans)
      qed
    qed
  qed
qed

lemma read_frame_inv:
  assumes "conn_inv c" "read_frame c = (c', r)"
  shows "conn_inv c'" "hc_remote_settings c' = hc_remote_settings c"
  using read_frame_keeps [OF _ assms(2)] assms(1) same_rest_inv [of c c']
  by (auto simp: conn_inv_def same_rest_def)

lemma process_frame_left:
  "conn_inv c \<Longrightarrow> conn_inv (fst (process_frame f c)) \<and> input_left (fst (process_frame f c)) = input_left c"
  using process_frame_keeps [of c f] same_input_left by blast

lemma calm_step:
  assumes "preserves (calm c) m" "conn_inv c" "m c = (c', r)"
  shows "conn_inv c' \<and> input_left c' = input_left c"
  using preservesD [OF assms(1) calm_refl [OF assms(2)]] assms(3) same_input_left [of c c']
  by (simp add: calm_def)

lemma await_inv:
  assumes "conn_inv c" "await_window_frame c = (c', r)"
  shows "conn_inv c' \<and> input_left c' \<le> input_left c"
proof -
  obtain c1 q where rf: "read_frame c = (c1, q)" by fastforce
  have c1: "conn_inv c1" "input_left c1 \<le> input_left c"
    using read_frame_inv [OF assms(1) rf] read_frame_keeps [OF _ rf] assms(1) by (cases q; force simp: conn_inv_def)+
  have "preserves (calm c1) (handle_window_update wid i)" for wid i
    by (intro inv_intros)
  note wu = calm_step [OF this c1(1)]
  show ?thesis
  proof (cases q)
    case (Inl e)
    then show ?thesis using assms(2) rf c1 by (auto simp: await_window_frame_def split: if_splits)
  next
    case (Inr f)
    show ?thesis
    proof (cases "\<exists>wid i. f = FWindowUpdate wid i")
      case True
      then obtain wid i where "f = FWindowUpdate wid i" by blast
      then show ?thesis using assms(2) rf c1 Inr wu [of wid i c' r] by (simp add: await_window_frame_def)
    next
      case False
      then have "c' = fst (process_frame f c1)"
        using assms(2) rf Inr by (cases f) (auto simp: await_window_frame_def)
      then show ?thesis using process_frame_left [OF c1(1), of f] c1(2) by simp
    qed
  qed
qed

lemma flush_inv: "conn_inv c \<Longrightarrow> flush_write_buf c = (c', r) \<Longrightarrow> conn_inv c' \<and> input_left c' = input_left c"
  by (rule calm_step [of _ flush_write_buf]) (intro inv_intros)

lemma put_chunk_inv: "conn_inv c \<Longrightarrow> conn_inv (put_chunk sid chunk es c) \<and> input_left (put_chunk sid chunk es c) = input_left c"
  using put_chunk_calm [OF calm_refl, of c sid chunk es] same_input_left by (auto simp: calm_def)

lemma send_data_loop_wait:
  assumes "offset < length data" "available_window sid c = 0" "flush_write_buf c = (c1, r1)"
  shows "send_data_loop sid data es mfs offset waits c =
    (case r1 of
       Inl e \<Rightarrow> Some (c1, Inl e)
     | Inr _ \<Rightarrow>
         if waits + 1 > MAX_WINDOW_UPDATE_WAITS
         then Some (c1, Inl (stream_error sid FlowControlError ''Flow control window exhausted after max waits''))
         else
           (case await_window_frame c1 of
              (c, Inl e) \<Rightarrow> Some (c, Inl e)
            | (c, Inr _) \<Rightarrow> send_data_loop sid data es mfs offset (waits + 1) c))"
  by (rule trans [OF send_data_loop.simps]) (simp only: Let_def assms refl if_True prod.case)

lemma send_data_loop_chunk:
  assumes "offset < length data" "available_window sid c \<noteq> 0"
    and "n = min (min (length data - offset) mfs) (available_window sid c)"
    and "c1 = put_chunk sid (take n (drop offset data)) (es \<and> offset + n \<ge> length data) c"
    and "(if length (hc_write_buf c1) \<ge> WRITE_BUF_FLUSH_THRESHOLD then flush_write_buf c1 else (c1, Inr ())) = (c2, r2)"
  shows "send_data_loop sid data es mfs offset waits c =
    (case r2 of Inl e \<Rightarrow> Some (c2, Inl e) | Inr _ \<Rightarrow> send_data_loop sid data es mfs (offset + n) 0 c2)"
  by (rule trans [OF send_data_loop.simps])
    (simp only: Let_def assms(1,2) if_True if_False assms(3) [symmetric] assms(4) [symmetric] assms(5) prod.case)

lemma send_data_loop_returns:
  assumes "conn_inv c" "0 < max_frame_size"
  shows "\<exists>c' r. send_data_loop sid data es max_frame_size offset waits c = Some (c', r)
    \<and> conn_inv c' \<and> input_left c' \<le> input_left c"
  using assms(1)
proof (induction "(length data - offset) * 200 + (101 - waits)" arbitrary: offset waits c rule: less_induct)
  case less
  let ?P = "\<lambda>x. \<exists>c' r. x = Some (c', r) \<and> conn_inv c' \<and> input_left c' \<le> input_left c"
  have again: "?P (send_data_loop sid data es max_frame_size offset' waits' c1)"
    if "(length data - offset') * 200 + (101 - waits') < (length data - offset) * 200 + (101 - waits)"
      "conn_inv c1" "input_left c1 \<le> input_left c" for offset' waits' c1
    using less.hyps [OF that(1,2)] that(3) by fastforce
  consider "\<not> offset < length data" | "offset < length data" "available_window sid c = 0"
    | "offset < length data" "available_window sid c \<noteq> 0" by blast
  then show ?case
  proof cases
    case 1
    then show ?thesis using less.prems by (subst send_data_loop.simps) simp
  next
    case 2
    obtain c1 r1 where f: "flush_write_buf c = (c1, r1)" by fastforce
    note c1 = flush_inv [OF less.prems f]
    obtain c2 r2 where a: "await_window_frame c1 = (c2, r2)" by fastforce
    note c2 = await_inv [OF _ a]
    have "?P (send_data_loop sid data es max_frame_size offset (waits + 1) c2)" if "\<not> waits + 1 > MAX_WINDOW_UPDATE_WAITS"
      using that c1 c2 by (intro again) (auto simp: MAX_WINDOW_UPDATE_WAITS_def)
    then show ?thesis using c1 c2 unfolding send_data_loop_wait [OF 2 f] a
      by (cases r1; cases r2) auto
  next
    case 3
    define n where "n = min (min (length data - offset) max_frame_size) (available_window sid c)"
    define c1 where "c1 = put_chunk sid (take n (drop offset data)) (es \<and> offset + n \<ge> length data) c"
    have c1: "conn_inv c1 \<and> input_left c1 = input_left c"
      unfolding c1_def using less.prems by (rule put_chunk_inv)
    obtain c2 r2 where f: "(if length (hc_write_buf c1) \<ge> WRITE_BUF_FLUSH_THRESHOLD then flush_write_buf c1 else (c1, Inr ())) = (c2, r2)"
      by fastforce
    have c2: "conn_inv c2 \<and> input_left c2 = input_left c"
      using f c1 flush_inv [of c1 c2 r2] by (auto split: if_splits)
    have n: "0 < n" "n \<le> length data - offset" using 3 assms(2) by (auto simp: n_def)
    have "?P (send_data_loop sid data es max_frame_size (offset + n) 0 c2)"
      using n c2 3(1) by (intro again) auto
    then show ?thesis using c2 unfolding send_data_loop_chunk [OF 3 n_def c1_def f]
      by (cases r2) auto
  qed
qed

section \<open>Responses return\<close>

lemma conn_inv_frame_size: "conn_inv c \<Longrightarrow> 0 < unat (hs_max_frame_size (hc_remote_settings c))"
proof -
  assume "conn_inv c"
  then have "(16384 :: u32) \<le> hs_max_frame_size (hc_remote_settings c)"
    by (simp add: conn_inv_def conn_core_def MAX_FRAME_SIZE_def)
  then show ?thesis by (simp add: word_le_nat_alt)
qed

text \<open>A run that returns, keeps the invariant and does not add to the input.\<close>

definition returns :: "'a conn_run \<Rightarrow> bool" where
  "returns m \<longleftrightarrow> (\<forall>c. conn_inv c \<longrightarrow> (\<exists>c' r. m c = Some (c', r) \<and> conn_inv c' \<and> input_left c' \<le> input_left c))"

lemma returns_run_of: "(\<And>c. preserves (calm c) m) \<Longrightarrow> returns (run_of m)"
  using calm_step unfolding returns_def run_of_def by (metis order_refl prod.exhaust)

lemma returns_then: "returns m \<Longrightarrow> returns n \<Longrightarrow> returns (then_run m n)"
  unfolding returns_def
proof (intro allI impI)
  fix c
  assume m: "\<forall>c. conn_inv c \<longrightarrow> (\<exists>c' r. m c = Some (c', r) \<and> conn_inv c' \<and> input_left c' \<le> input_left c)"
    and n: "\<forall>c. conn_inv c \<longrightarrow> (\<exists>c' r. n c = Some (c', r) \<and> conn_inv c' \<and> input_left c' \<le> input_left c)"
    and c: "conn_inv c"
  obtain c1 r1 where c1: "m c = Some (c1, r1)" "conn_inv c1" "input_left c1 \<le> input_left c" using m c by blast
  obtain c2 r2 where c2: "n c1 = Some (c2, r2)" "conn_inv c2" "input_left c2 \<le> input_left c1" using n c1 by blast
  show "\<exists>c' r. then_run m n c = Some (c', r) \<and> conn_inv c' \<and> input_left c' \<le> input_left c"
    using c1 c2 by (cases r1) (auto simp: then_run_def)
qed

lemma returns_send_data: "returns (send_data sid data es)"
proof -
  have tail: "returns (run_of
        (then_st (if data = [] \<and> es
                  then modify_st (\<lambda>c. c\<lparr>hc_write_buf := encode_data_into (hc_write_buf c) sid [] True\<rparr>)
                  else ret_st ())
        (then_st flush_write_buf
          (if es then on_stream sid send_end_stream else ret_st ()))))"
    by (intro returns_run_of preserves_calm inv_intros)
  show ?thesis
    unfolding returns_def
  proof (intro allI impI)
    fix c
    assume c: "conn_inv c"
    let ?n = "unat (hs_max_frame_size (hc_remote_settings c))"
    from send_data_loop_returns [OF c conn_inv_frame_size [OF c], of sid data es 0 0]
    obtain c1 r1 where c1: "send_data_loop sid data es ?n 0 0 c = Some (c1, r1)" "conn_inv c1" "input_left c1 \<le> input_left c"
      by blast
    show "\<exists>c' r. send_data sid data es c = Some (c', r) \<and> conn_inv c' \<and> input_left c' \<le> input_left c"
      using c1 tail [unfolded returns_def, rule_format, OF c1(2)]
      by (cases r1) (auto simp: send_data_def then_run_def)
  qed
qed

lemma returns_send_response: "returns (send_response sid status hs body)"
  unfolding send_response_def Let_def
  by (cases body) (auto intro!: returns_then returns_run_of returns_send_data preserves_calm inv_intros)

lemma returns_send_grpc_response: "returns (send_grpc_response sid hs body st msg)"
proof -
  have "keeps_entry (trailers_sent now)" "keeps_fragments (trailers_sent now)" for now
    by (simp_all add: keeps_entry_def keeps_fragments_def windows_ok_def trailers_sent_def)
  note intros = this returns_then returns_run_of returns_send_data preserves_calm inv_intros
  have "returns (case body of
         Some body \<Rightarrow> if body \<noteq> [] then send_data sid body False else run_of flush_write_buf
       | None \<Rightarrow> run_of flush_write_buf)"
    by (cases body) (auto intro!: intros)
  then show ?thesis
    unfolding send_grpc_response_def send_grpc_trailers_def Let_def by (intro intros)
qed

section \<open>The main loop returns\<close>

lemma goaway_inv: "conn_inv c \<Longrightarrow> conn_inv (goaway_for e c) \<and> input_left (goaway_for e c) = input_left c"
proof -
  assume c: "conn_inv c"
  have f: "preserves (fragments_in R r L) (send_goaway code dbg)" for R r L code dbg
  proof
    fix c'
    assume "fragments_in R r L c'"
    moreover have "preserves (fragments_in R r L) (then_st (write_all buf) (modify_st (\<lambda>c. c\<lparr>hc_goaway_sent := True\<rparr>)))" for buf
      by (intro inv_intros) simp
    ultimately show "fragments_in R r L (fst (send_goaway code dbg c'))"
      by (auto simp: send_goaway_def dest: preservesD)
  qed
  have "preserves (calm c) (send_goaway (error_code e) (ascii (display_error e)))"
    by (intro preserves_calm inv_intros f)
  from calm_step [OF this c] show ?thesis by (simp add: goaway_for_def prod_eq_iff)
qed

lemma rst_inv: "conn_inv c \<Longrightarrow> conn_inv (fst (conn_send_rst_stream sid code c))
    \<and> input_left (fst (conn_send_rst_stream sid code c)) = input_left c"
proof -
  assume c: "conn_inv c"
  have "preserves (calm c) (conn_send_rst_stream sid code)" by (intro inv_intros)
  from calm_step [OF this c] show ?thesis by (simp add: prod_eq_iff)
qed

lemma cleanup_inv: "conn_inv c \<Longrightarrow> conn_inv (conn_cleanup_closed c) \<and> input_left (conn_cleanup_closed c) = input_left c"
proof -
  assume c: "conn_inv c"
  let ?m = "hc_streams c"
  have wf: "store_wf (sm_streams ?m)" using c by (simp add: conn_inv_def conn_core_def sm_inv_def)
  have "sm_get (cleanup_closed ?m) k = Some s \<Longrightarrow> sm_get ?m k = Some s" for k s
    using hashmap.get_retain [OF wf] by (auto simp: sm_get_def cleanup_closed_def split: option.splits if_splits)
  then show ?thesis
    using c sm_inv_cleanup [of ?m]
    by (auto simp: conn_inv_def conn_core_def pending_ok_def buffer_ok_def conn_cleanup_closed_def conn_get_def
        input_left_def) (simp_all add: cleanup_closed_def)
qed

lemma handle_result_returns:
  assumes "conn_inv c"
  shows "\<exists>c' e. handle_result r c = Some (c', e) \<and> conn_inv c' \<and> input_left c' \<le> input_left c"
proof -
  have resp: "\<exists>c' r. default_response sid c = Some (c', r) \<and> conn_inv c' \<and> input_left c' \<le> input_left c" for sid
    using returns_send_response assms unfolding returns_def default_response_def by blast
  show ?thesis
  proof (cases r)
    case (Inl e)
    then show ?thesis using assms goaway_inv [OF assms, of e] rst_inv [OF assms]
      by (auto simp: handle_result_def split: option.splits)
  next
    case (Inr q)
    show ?thesis
    proof (cases "\<exists>req. q = Some req \<and> \<not> pr_body_pending req")
      case True
      then obtain req where q: "q = Some req" "\<not> pr_body_pending req" by blast
      obtain c1 r1 where c1: "default_response (pr_stream_id req) c = Some (c1, r1)" "conn_inv c1"
        "input_left c1 \<le> input_left c" using resp by blast
      show ?thesis using Inr q c1 goaway_inv [OF c1(2)] rst_inv [OF c1(2)]
        by (cases r1) (auto simp: handle_result_def split: option.splits)
    qed (use assms Inr in \<open>auto simp: handle_result_def split: option.splits\<close>)
  qed
qed

text \<open>Ending with an error is ending with a GOAWAY.\<close>

definition announced :: "h2conn \<Rightarrow> http2_error + unit \<Rightarrow> bool" where
  "announced c' r \<longleftrightarrow>
    (case r of
       Inl e \<Rightarrow> (\<exists>c. c' = fst (send_goaway (error_code e) (ascii (display_error e)) c)
         \<and> (hc_goaway_sent c' \<or> (\<exists>io. snd (send_goaway (error_code e) (ascii (display_error e)) c) = Inl (Io io))))
     | Inr _ \<Rightarrow> True)"

lemma write_all_error: "snd (write_all_raw buf c) = Inl e \<Longrightarrow> \<exists>io. e = Io io"
proof -
  assume e: "snd (write_all_raw buf c) = Inl e"
  obtain t r where w: "tr_write_all buf (hc_stream c) = (t, r)" by fastforce
  show ?thesis
    using e tr_write_all_no_block [OF w]
    by (subst (asm) write_all_raw.simps) (auto simp: w split: sum.splits io_error.splits)
qed

lemma announced_goaway: "announced (goaway_for e c) (Inl e)"
proof -
  let ?m = "send_goaway (error_code e) (ascii (display_error e)) c"
  have "hc_goaway_sent (fst ?m) \<or> (\<exists>io. snd ?m = Inl (Io io))"
    using write_all_error
    by (auto simp: send_goaway_def then_st_apply write_all_def split: prod.splits sum.splits) (metis snd_conv)
  then show ?thesis unfolding announced_def goaway_for_def sum.case by blast
qed

lemma handle_result_announced:
  "handle_result r c = Some (c', Some e) \<Longrightarrow> \<exists>c0. c' = goaway_for e c0"
  by (auto simp: handle_result_def split: sum.splits option.splits if_splits bind_splits)

lemma run_simple_terminates:
  "conn_inv c \<Longrightarrow> \<exists>c' r. run_simple c = Some (c', r) \<and> conn_inv c' \<and> announced c' r"
proof (induction "input_left c" arbitrary: c rule: less_induct)
  case less
  obtain c1 q where rf: "read_frame c = (c1, q)" by fastforce
  have buf: "buffer_ok c" using less.prems by (simp add: conn_inv_def)
  note k = read_frame_keeps [OF buf rf] and c1 = read_frame_inv [OF less.prems rf]
  show ?case
  proof (cases q)
    case (Inl e)
    have "\<exists>c' r. run_simple c1 = Some (c', r) \<and> conn_inv c' \<and> announced c' r" if "is_would_block e"
      using that k Inl by (intro less.hyps c1) (auto simp: is_would_block_def split: http2_error.splits)
    then show ?thesis
      using goaway_inv [OF c1(1), of e] c1 less.prems announced_goaway [of e c1]
      by (subst run_simple.simps) (auto simp: rf Inl announced_def [of _ "Inr ()"])
  next
    case (Inr f)
    obtain c2 r2 where p: "process_frame f c1 = (c2, r2)" by fastforce
    have c2: "conn_inv c2" "input_left c2 < input_left c"
      using process_frame_left [OF c1(1), of f] k Inr p by auto
    obtain c3 e where h: "handle_result r2 c2 = Some (c3, e)" "conn_inv c3" "input_left c3 \<le> input_left c2"
      using handle_result_returns [OF c2(1)] by blast
    have "\<exists>c' r. run_simple (conn_cleanup_closed c3) = Some (c', r) \<and> conn_inv c' \<and> announced c' r"
      using cleanup_inv [OF h(2)] h c2 by (intro less.hyps) auto
    moreover have "announced c3 (Inl x)" if "e = Some x" for x
      using handle_result_announced [of r2 c2 c3 x] h(1) that announced_goaway by auto
    ultimately show ?thesis using h less.prems
      by (subst run_simple.simps) (auto simp: rf Inr p announced_def [of _ "Inr ()"] split: option.splits)
  qed
qed

section \<open>Queued data\<close>

lemma available_windows:
  assumes "conn_get c sid = Some s"
  shows "available_window sid c = nat (min (hc_conn_send_window c) (st_send_window s))"
  using assms by (simp add: available_window_def Let_def max_def)

text \<open>A chunk within the windows is charged to both exactly.\<close>

lemma put_chunk_windows:
  assumes "conn_inv c" "conn_get c sid = Some s" "length chunk \<le> available_window sid c" "chunk \<noteq> []"
    and c'_def: "c' = put_chunk sid chunk es c"
  shows "hc_conn_send_window c' = hc_conn_send_window c - int (length chunk)"
    "conn_get c' sid = Some (s\<lparr>st_send_window := st_send_window s - int (length chunk)\<rparr>)"
    "available_window sid c' = available_window sid c - length chunk"
    "hc_write_buf c' = hc_write_buf c @ encode_data sid chunk es"
proof -
  have r: "i32_range (hc_conn_send_window c)" "i32_range (st_send_window s)"
    using assms(1,2) sm_inv_entry [of "hc_streams c" sid s]
    by (auto simp: conn_inv_def conn_core_def conn_get_def stream_entry_ok_def windows_ok_def)
  have le: "int (length chunk) \<le> hc_conn_send_window c" "int (length chunk) \<le> st_send_window s"
  proof -
    have "0 < length chunk" using assms(4) by simp
    then have "int (length chunk) \<le> min (hc_conn_send_window c) (st_send_window s)"
      using assms(3) unfolding available_windows [OF assms(2)] by linarith
    then show "int (length chunk) \<le> hc_conn_send_window c" "int (length chunk) \<le> st_send_window s" by simp_all
  qed
  have n: "i32_of_nat (length chunk) = int (length chunk)"
    using le(1) r(1) by (intro i32_of_nat_small) (simp add: i32_range_def)
  have w: "i32_wrap (hc_conn_send_window c - int (length chunk)) = hc_conn_send_window c - int (length chunk)"
    "i32_wrap (st_send_window s - int (length chunk)) = st_send_window s - int (length chunk)"
    using le r by (intro i32_wrap_id; simp add: i32_range_def)+
  show "hc_conn_send_window c' = hc_conn_send_window c - int (length chunk)"
    by (simp add: c'_def put_chunk_def Let_def n w)
  moreover show s': "conn_get c' sid = Some (s\<lparr>st_send_window := st_send_window s - int (length chunk)\<rparr>)"
    using assms(2) by (simp add: c'_def put_chunk_def Let_def conn_get_def sm_get_modify_stream spend_stream_window_def n w)
  ultimately show "available_window sid c' = available_window sid c - length chunk"
    using le by (simp add: available_windows [OF assms(2)] available_windows [OF s'] min_def nat_diff_distrib)
  show "hc_write_buf c' = hc_write_buf c @ encode_data sid chunk es"
    by (simp add: c'_def put_chunk_def Let_def encode_data_def encode_data_into_def)
qed

text \<open>The frames for chunks of a body, END_STREAM on the last one where the body is complete.\<close>

fun data_frames :: "u32 \<Rightarrow> bool \<Rightarrow> bytes list \<Rightarrow> bytes" where
  "data_frames sid fin [] = []"
| "data_frames sid fin [x] = encode_data sid x fin"
| "data_frames sid fin (x # y # xs) = encode_data sid x False @ data_frames sid fin (y # xs)"

lemma data_frames_Cons: "data_frames sid fin (x # xs) = encode_data sid x (fin \<and> xs = []) @ data_frames sid fin xs"
  by (cases xs) simp_all

definition queued :: "u32 \<Rightarrow> bytes \<Rightarrow> bool \<Rightarrow> nat \<Rightarrow> h2conn \<Rightarrow> stream \<Rightarrow> h2conn \<Rightarrow> nat \<Rightarrow> bool" where
  "queued sid data es mfs c s c' n \<longleftrightarrow>
    hc_conn_send_window c' = hc_conn_send_window c - int n
    \<and> conn_get c' sid = Some (s\<lparr>st_send_window := st_send_window s - int n\<rparr>)
    \<and> (\<exists>chunks. concat chunks = take n data \<and> (\<forall>x \<in> set chunks. x \<noteq> [] \<and> length x \<le> mfs)
        \<and> hc_write_buf c' = hc_write_buf c @ data_frames sid (es \<and> n = length data) chunks)"

lemma queue_data_loop_exact:
  assumes "conn_inv c" "conn_get c sid = Some s" "0 < mfs" "offset \<le> length data"
  shows "\<exists>c'. queue_data_loop sid data es mfs offset c = Some (c', offset + min (length data - offset) (available_window sid c))
    \<and> conn_inv c' \<and> queued sid (drop offset data) es mfs c s c' (min (length data - offset) (available_window sid c))"
  using assms
proof (induction "length data - offset" arbitrary: offset c s rule: less_induct)
  case less
  show ?case
  proof (cases "offset < length data \<and> available_window sid c \<noteq> 0")
    case False
    then have z: "min (length data - offset) (available_window sid c) = 0" by auto
    have "queue_data_loop sid data es mfs offset c = Some (c, offset)"
      using False by (subst queue_data_loop.simps) (auto simp: Let_def)
    moreover have "queued sid (drop offset data) es mfs c s c 0"
      using less.prems(2) by (auto simp: queued_def intro!: exI [of _ "[]"])
    ultimately show ?thesis using less.prems(1) by (auto simp: z)
  next
    case True
    define n where "n = min (min (length data - offset) mfs) (available_window sid c)"
    define chunk where "chunk = take n (drop offset data)"
    define c1 where "c1 = put_chunk sid chunk (es \<and> offset + n \<ge> length data) c"
    let ?s = "s\<lparr>st_send_window := st_send_window s - int n\<rparr>"
    have n: "0 < n" "n \<le> length data - offset" "n \<le> mfs" "n \<le> available_window sid c"
      using True less.prems(3) by (auto simp: n_def)
    have len: "length chunk = n" using n by (simp add: chunk_def)
    have step: "queue_data_loop sid data es mfs offset c = queue_data_loop sid data es mfs (offset + n) c1"
      by (rule trans [OF queue_data_loop.simps])
        (simp only: Let_def True if_True if_False n_def [symmetric] chunk_def [symmetric] c1_def [symmetric])
    note w = put_chunk_windows [OF less.prems(1,2) _ _ c1_def, unfolded len]
    have w: "hc_conn_send_window c1 = hc_conn_send_window c - int n" "conn_get c1 sid = Some ?s"
      "available_window sid c1 = available_window sid c - n"
      "hc_write_buf c1 = hc_write_buf c @ encode_data sid chunk (es \<and> offset + n \<ge> length data)"
      using w n len by auto
    have inv: "conn_inv c1" using put_chunk_inv [OF less.prems(1)] by (simp add: c1_def)
    let ?k = "min (length data - (offset + n)) (available_window sid c1)"
    obtain c' where ih: "queue_data_loop sid data es mfs (offset + n) c1 = Some (c', offset + n + ?k)" "conn_inv c'"
      "queued sid (drop (offset + n) data) es mfs c1 ?s c' ?k"
    proof -
      have "length data - (offset + n) < length data - offset" "offset + n \<le> length data" using n True by linarith+
      from less.hyps [OF this(1) inv w(2) less.prems(3) this(2)] that show thesis by blast
    qed
    have k: "n + ?k = min (length data - offset) (available_window sid c)" using n w(3) by auto
    obtain chunks where ch: "concat chunks = take ?k (drop (offset + n) data)" "\<forall>x \<in> set chunks. x \<noteq> [] \<and> length x \<le> mfs"
      "hc_write_buf c' = hc_write_buf c1 @ data_frames sid (es \<and> ?k = length (drop (offset + n) data)) chunks"
      using ih(3) unfolding queued_def by blast
    have "queued sid (drop offset data) es mfs c s c' (n + ?k)"
      unfolding queued_def
    proof (intro conjI exI [of _ "chunk # chunks"])
      show "concat (chunk # chunks) = take (n + ?k) (drop offset data)"
        by (simp add: ch(1) chunk_def take_add add.commute)
      show "\<forall>x \<in> set (chunk # chunks). x \<noteq> [] \<and> length x \<le> mfs" using ch(2) len n by auto
      have "length (concat chunks) = ?k" unfolding ch(1) by simp
      moreover have "(chunks = []) = (concat chunks = [])" using ch(2) by (cases chunks) auto
      ultimately have last: "(chunks = []) = (?k = 0)" by (metis length_0_conv)
      have "(es \<and> offset + n \<ge> length data) = ((es \<and> n + ?k = length (drop offset data)) \<and> chunks = [])"
        using last n w(3) by auto
      moreover have "(es \<and> ?k = length (drop (offset + n) data)) = (es \<and> n + ?k = length (drop offset data))"
        using n by auto
      ultimately show "hc_write_buf c' = hc_write_buf c @ data_frames sid (es \<and> n + ?k = length (drop offset data)) (chunk # chunks)"
        by (simp only: ch(3) w(4) data_frames_Cons append_assoc)
    qed (use ih(3) w in \<open>simp_all add: queued_def\<close>)
    then show ?thesis using step ih(1,2) by (simp only: k [symmetric]) (auto simp: add.assoc)
  qed
qed

definition queueable :: "u32 \<Rightarrow> bytes \<Rightarrow> h2conn \<Rightarrow> nat" where
  "queueable sid data c = min (length data) (available_window sid c)"

lemma end_stream_step:
  assumes "conn_get c sid = Some s" "st_state s = Open \<or> st_state s = HalfClosedRemote"
  shows "\<exists>c'. on_stream sid send_end_stream c = (c', Inr ()) \<and> hc_conn_send_window c' = hc_conn_send_window c
    \<and> hc_write_buf c' = hc_write_buf c
    \<and> conn_get c' sid = Some (s\<lparr>st_state := (if st_state s = Open then HalfClosedLocal else Closed)\<rparr>)"
proof -
  let ?s = "s\<lparr>st_state := (if st_state s = Open then HalfClosedLocal else Closed)\<rparr>"
  have "send_end_stream s = (?s, Inr ())" using assms(2) by (auto simp: send_end_stream_def)
  then have "on_stream sid send_end_stream c =
      (c\<lparr>hc_streams := (hc_streams c)\<lparr>sm_streams := store_put sid ?s (sm_streams (hc_streams c))\<rparr>\<rparr>, Inr ())"
    using assms(1) by (simp add: on_stream_def on_streams_def with_stream_def then_st_apply conn_get_def)
  then show ?thesis by (simp add: conn_get_def sm_get_def hashmap.get_put)
qed

section \<open>Properties\<close>

text \<open>C29: Queueing a response body puts out exactly what the flow-control windows allow, without
  blocking: the smaller of the body and the two windows, cut into frames within the peer's frame
  size, charged to both windows, with END_STREAM on the last frame only if the whole body went out;
  only then does the stream change its state.  The call returns the number of bytes queued.\<close>

theorem queue_data_exact:
  assumes "conn_inv c" "conn_get c sid = Some s" "st_state s = Open \<or> st_state s = HalfClosedRemote" "data \<noteq> []"
    and "n = queueable sid data c"
  shows "\<exists>c' chunks. queue_data_frames sid data es c = Some (c', Inr n)
    \<and> concat chunks = take n data
    \<and> (\<forall>x \<in> set chunks. x \<noteq> [] \<and> length x \<le> unat (hs_max_frame_size (hc_remote_settings c)))
    \<and> hc_write_buf c' = hc_write_buf c @ data_frames sid (es \<and> n = length data) chunks
    \<and> hc_conn_send_window c' = hc_conn_send_window c - int n
    \<and> conn_get c' sid = Some (s\<lparr>st_send_window := st_send_window s - int n,
        st_state := (if es \<and> n = length data then (if st_state s = Open then HalfClosedLocal else Closed) else st_state s)\<rparr>)"
proof -
  let ?m = "unat (hs_max_frame_size (hc_remote_settings c))" and ?s = "s\<lparr>st_send_window := st_send_window s - int n\<rparr>"
  obtain c1 where c1: "queue_data_loop sid data es ?m 0 c = Some (c1, n)" "queued sid data es ?m c s c1 n"
    using queue_data_loop_exact [OF assms(1,2) conn_inv_frame_size [OF assms(1)], of 0 data es]
    by (auto simp: assms(5) queueable_def)
  obtain chunks where ch: "concat chunks = take n data" "\<forall>x \<in> set chunks. x \<noteq> [] \<and> length x \<le> ?m"
    "hc_write_buf c1 = hc_write_buf c @ data_frames sid (es \<and> n = length data) chunks"
    and w: "hc_conn_send_window c1 = hc_conn_send_window c - int n" "conn_get c1 sid = Some ?s"
    using c1(2) unfolding queued_def by blast
  show ?thesis
  proof (cases "es \<and> n = length data")
    case True
    obtain c2 where c2: "on_stream sid send_end_stream c1 = (c2, Inr ())" "hc_conn_send_window c2 = hc_conn_send_window c1"
      "hc_write_buf c2 = hc_write_buf c1"
      "conn_get c2 sid = Some (?s\<lparr>st_state := (if st_state ?s = Open then HalfClosedLocal else Closed)\<rparr>)"
      using end_stream_step [OF w(2)] assms(3) by auto
    have "queue_data_frames sid data es c = Some (c2, Inr n)"
      using assms(4) True c2(1) unfolding queue_data_frames_def c1(1) by (simp add: run_of_def then_st_apply)
    then show ?thesis using True c2(2-4) ch w by (intro exI [of _ c2] exI [of _ chunks]) simp
  next
    case False
    then have "queue_data_frames sid data es c = Some (c1, Inr n)"
      using assms(4) False by (auto simp: queue_data_frames_def c1(1) run_of_def)
    then show ?thesis using False ch w by (intro exI [of _ c1] exI [of _ chunks]) auto
  qed
qed

theorem queue_data_exact_witness:
  "\<exists>c c' chunks. queue_data_frames 1 [7, 8, 9] True c = Some (c', Inr 2) \<and> concat chunks = [7, 8 :: u8]
    \<and> hc_write_buf c' = hc_write_buf c @ data_frames 1 False chunks"
proof -
  define s where "s = (stream_new 0 1 2 65535)\<lparr>st_state := HalfClosedRemote\<rparr>"
  let ?m = "\<lparr>sm_streams = [(1, s)], sm_next_server_stream_id = 2, sm_max_client_stream_id = 1,
     sm_max_concurrent_streams = 100, sm_local_initial_window_size = 65535, sm_peer_initial_window_size = 65535,
     sm_receiving_headers_stream = None, sm_goaway_last_stream_id = None\<rparr>"
  let ?c0 = "conn_new_with_initial_buffer \<lparr>tr_reads = [], tr_writes = [], tr_sent = [], tr_now = 0\<rparr> settings_default []"
  define c where "c = ?c0\<lparr>hc_streams := ?m\<rparr>"
  have get: "conn_get c k = (if k = 1 then Some s else None)" for k
    by (simp add: c_def conn_get_def sm_get_def store_get_def)
  have s: "st_state s = HalfClosedRemote" "st_send_window s = 2" "st_pending_headers s = []" "st_request_headers s = []"
    by (simp_all add: s_def stream_new_def)
  have "sm_inv ?m"
    by (simp add: sm_inv_def store_wf_def hashmap.entries_all_def store_get_def stream_entry_ok_def windows_ok_def i32_range_def
        s_def stream_new_def)
  moreover have "pending_ok c" by (simp add: pending_ok_def get pending_header_len_def request_ok_def s)
  ultimately have inv: "conn_inv c"
    using conn_inv_new [of "\<lparr>tr_reads = [], tr_writes = [], tr_sent = [], tr_now = 0\<rparr>" settings_default "[]"]
    by (simp add: conn_inv_def conn_core_def buffer_ok_def c_def)
  have "hc_conn_send_window c = 65535" by (simp add: c_def conn_new_with_initial_buffer_def Let_def)
  then have "2 = queueable 1 [7, 8, 9] c" by (simp add: queueable_def available_window_def get s)
  from queue_data_exact [OF inv _ _ _ this, of s True] show ?thesis by (auto simp: get s)
qed


end
