(* ===== verification/Connection_Flow.thy ===== *)
theory Connection_Flow
  imports Connection_Send
begin

text \<open>
  What passes through a connection: the frames it reads do not depend on how the network cuts the
  bytes, and a well-formed request reaches the proxy as its client encoded it.
\<close>

section \<open>Parsing the input\<close>

definition frame_parse :: "frame_decoder \<Rightarrow> bytes \<Rightarrow> (frame, http2_error) progress" where
  "frame_parse dec buf =
    (if length buf < FRAME_HEADER_SIZE then Need
     else case decode_header dec buf of
            Inl e \<Rightarrow> Bad e
          | Inr h \<Rightarrow>
              if length buf < FRAME_HEADER_SIZE + unat (fh_length h) then Need
              else case frame_decode h (take (unat (fh_length h)) (drop FRAME_HEADER_SIZE buf)) of
                     Inl e \<Rightarrow> Bad e
                   | Inr f \<Rightarrow> Got f (FRAME_HEADER_SIZE + unat (fh_length h)))"

lemma decode_header_append: "9 \<le> length buf \<Longrightarrow> decode_header dec (buf @ later) = decode_header dec buf"
  by (simp add: decode_header_def FRAME_HEADER_SIZE_def)

lemma decode_header_take: "9 \<le> n \<Longrightarrow> n \<le> length buf \<Longrightarrow> decode_header dec (take n buf) = decode_header dec buf"
  using decode_header_append [of "take n buf" dec "drop n buf"] by simp

interpretation h2_frames: incremental_parser "frame_parse dec" for dec
proof
  fix buf later :: bytes and f n e
  show "frame_parse dec buf = Got f n \<Longrightarrow> 0 < n \<and> n \<le> length buf"
    by (auto simp: frame_parse_def FRAME_HEADER_SIZE_def split: if_splits sum.splits)
  show "frame_parse dec buf = Got f n \<Longrightarrow> frame_parse dec (buf @ later) = Got f n"
    "frame_parse dec buf = Bad e \<Longrightarrow> frame_parse dec (buf @ later) = Bad e"
    by (auto simp: frame_parse_def FRAME_HEADER_SIZE_def decode_header_append split: if_splits sum.splits)
qed

lemma frame_parse_encode:
  assumes "wf_frame f" "encodable f" "length (frame_payload f) \<le> unat (fd_max_frame_size dec)"
  shows "frame_parse dec (frame_encode f @ rest) = Got f (length (frame_encode f))"
proof -
  let ?h = "frame_wire_header f"
  have len: "unat (fh_length ?h) = length (frame_payload f)"
    using wf_frame_payload_length [OF assms(1,2)] by (simp add: unat_of_nat_u32)
  have "fh_length ?h < 2 ^ 24" "fh_length ?h \<le> fd_max_frame_size dec"
    using wf_frame_payload_length [OF assms(1,2)] assms(3) len by (simp_all only: word_less_nat_alt word_le_nat_alt) simp_all
  moreover have "fh_stream_id ?h < 2 ^ 31" using assms(1) wf_frame_stream_id by simp
  ultimately have "decode_header dec (frame_header_encode ?h @ p) = Inr ?h" for p by (intro decode_header_encode)
  moreover have "length (frame_header_encode ?h) = 9" by (simp add: frame_header_encode_def Let_def)
  ultimately show ?thesis
    using frame_decode_wire [OF assms(1,2)]
    by (simp add: frame_parse_def frame_encode_parts [OF assms(1,2)] FRAME_HEADER_SIZE_def len [simplified])
qed

section \<open>Reading frame by frame\<close>

definition buffered :: "h2conn \<Rightarrow> bytes" where
  "buffered c = take (hc_buf_end c - hc_buf_start c) (drop (hc_buf_start c) (hc_read_buf c))"

definition conn_input :: "h2conn \<Rightarrow> bytes" where
  "conn_input c = buffered c @ incoming (tr_reads (hc_stream c))"

text \<open>The peer sends, in pieces, and then closes.\<close>

definition plain_reads :: "(nat \<times> read_outcome) list \<Rightarrow> bool" where
  "plain_reads reads \<longleftrightarrow> list_all (\<lambda>r. case snd r of ReadData d \<Rightarrow> d \<noteq> [] | ReadErr _ \<Rightarrow> False) reads"

lemma length_buffered: "buffer_ok c \<Longrightarrow> length (buffered c) = hc_buf_end c - hc_buf_start c"
  by (auto simp: buffered_def buffer_ok_def)

lemma compact_buffered: "buffer_ok c \<Longrightarrow> buffered (compact_buffer c) = buffered c"
  by (auto simp: buffered_def compact_buffer_def Let_def buffer_ok_def)

lemma try_parse:
  assumes "buffer_ok c"
  shows "case frame_parse (hc_frame_decoder c) (buffered c) of
      Need \<Rightarrow> try_read_frame_buffered c = (c, Inr None)
    | Bad e \<Rightarrow> try_read_frame_buffered c = (c, Inl e)
    | Got f n \<Rightarrow> \<exists>c'. try_read_frame_buffered c = (c', Inr (Some f)) \<and> buffered c' = drop n (buffered c)"
proof (cases "length (buffered c) < 9")
  case True
  then show ?thesis
    by (simp add: frame_parse_def try_read_frame_buffered_def FRAME_HEADER_SIZE_def length_buffered [OF assms])
next
  case False
  let ?d = "hc_frame_decoder c" and ?k = "hc_buf_end c - hc_buf_start c" and ?b = "drop (hc_buf_start c) (hc_read_buf c)"
  have k: "9 \<le> ?k" "?k \<le> length ?b" "hc_buf_start c \<le> hc_buf_end c" "hc_buf_end c \<le> length (hc_read_buf c)"
    using False assms by (auto simp: length_buffered [OF assms] buffer_ok_def)
  have h: "decode_header ?d (buffered c) = decode_header ?d ?b"
    unfolding buffered_def using k(1,2) by (rule decode_header_take)
  show ?thesis
  proof (cases "decode_header ?d ?b")
    case (Inl e)
    then show ?thesis using k h
      by (simp add: frame_parse_def try_read_frame_buffered_def FRAME_HEADER_SIZE_def length_buffered [OF assms])
  next
    case (Inr hd)
    let ?n = "unat (fh_length hd)"
    show ?thesis
    proof (cases "?k < 9 + ?n")
      case True
      then show ?thesis using k h Inr
        by (simp add: frame_parse_def try_read_frame_buffered_def FRAME_HEADER_SIZE_def length_buffered [OF assms])
    next
      case fits: False
      have payload: "take ?n (drop 9 (buffered c)) = take ?n (drop (hc_buf_start c + 9) (hc_read_buf c))"
        using fits by (simp add: buffered_def drop_take take_take min_def add.commute)
      have eq: "try_read_frame_buffered c =
          (case frame_decode hd (take ?n (drop (hc_buf_start c + 9) (hc_read_buf c))) of
             Inl e \<Rightarrow> (c, Inl e)
           | Inr frame \<Rightarrow>
               (if hc_buf_start c + (9 + ?n) > 32768 then compact_buffer (c\<lparr>hc_buf_start := hc_buf_start c + (9 + ?n)\<rparr>)
                else c\<lparr>hc_buf_start := hc_buf_start c + (9 + ?n)\<rparr>, Inr (Some frame)))"
      proof -
        have "\<not> (hc_buf_start c + (9 + ?n) > hc_buf_end c \<or> hc_buf_start c + (9 + ?n) > length (hc_read_buf c))"
          "\<not> ?k < 9" "\<not> ?k < 9 + ?n" "hc_buf_start c + (9 + ?n) - (hc_buf_start c + 9) = ?n"
          using k fits by auto
        then show ?thesis
          unfolding try_read_frame_buffered_def FRAME_HEADER_SIZE_def Let_def Inr sum.case
          by (simp only: if_False Inr sum.case h2conn.simps) simp
      qed
      have parse: "frame_parse ?d (buffered c) =
          (case frame_decode hd (take ?n (drop (hc_buf_start c + 9) (hc_read_buf c))) of
             Inl e \<Rightarrow> Bad e | Inr f \<Rightarrow> Got f (9 + ?n))"
        unfolding frame_parse_def FRAME_HEADER_SIZE_def
        using k fits Inr h payload by (simp add: length_buffered [OF assms])
      let ?c = "c\<lparr>hc_buf_start := hc_buf_start c + (9 + ?n)\<rparr>"
      have "buffer_ok ?c" using k fits by (simp add: buffer_ok_def)
      then have "buffered (compact_buffer ?c) = buffered ?c" by (rule compact_buffered)
      moreover have "buffered ?c = drop (9 + ?n) (buffered c)"
        by (simp add: buffered_def drop_take add.commute add.left_commute)
      ultimately show ?thesis unfolding eq parse by (simp split: sum.splits)
    qed
  qed
qed

lemma grow_buffered: "buffer_ok c \<Longrightarrow> buffered (grow_read_buf c) = buffered c"
  using compact_buffered [of c] by (auto simp: grow_read_buf_def buffered_def Let_def buffer_ok_def)

lemma grow_room: "buffer_ok c \<Longrightarrow> hc_buf_end (grow_read_buf c) < length (hc_read_buf (grow_read_buf c))"
  by (auto simp: grow_read_buf_def compact_buffer_def Let_def buffer_ok_def)

lemma plain_read:
  assumes "plain_reads (tr_reads t)" "tr_reads t \<noteq> []" "0 < cap"
  shows "\<exists>t' d. tr_read cap t = (t', Inr d) \<and> d \<noteq> [] \<and> plain_reads (tr_reads t')"
proof (cases "tr_reads t")
  case (Cons r rest)
  then show ?thesis using assms
    by (cases r; cases "snd r") (auto simp: tr_read_def plain_reads_def)
qed (use assms in simp)

lemma take_drop_append:
  assumes "i \<le> j" "j \<le> length xs"
  shows "take (j + length d - i) (drop i (take j xs @ d)) = take (j - i) (drop i xs) @ d"
proof -
  have "drop i (take j xs @ d) = take (j - i) (drop i xs) @ d" using assms by (simp add: drop_take)
  then show ?thesis using assms by simp
qed

lemma fill_input:
  assumes "buffer_ok c" "plain_reads (tr_reads (hc_stream c))"
  shows "if tr_reads (hc_stream c) = [] then \<exists>c'. fill_read_buf c = (c', Inl ConnectionClosed)
    else \<exists>c' n. fill_read_buf c = (c', Inr n) \<and> conn_input c' = conn_input c \<and> plain_reads (tr_reads (hc_stream c'))"
proof (cases "tr_reads (hc_stream c) = []")
  case True
  then show ?thesis by (simp add: fill_read_buf_def Let_def tr_read_def)
next
  case False
  let ?g = "grow_read_buf c"
  have "0 < length (hc_read_buf ?g) - hc_buf_end ?g" using grow_room [OF assms(1)] by simp
  from plain_read [OF assms(2) False this] obtain t d
    where t: "tr_read (length (hc_read_buf ?g) - hc_buf_end ?g) (hc_stream c) = (t, Inr d)" "d \<noteq> []" "plain_reads (tr_reads t)"
    by blast
  let ?c = "?g\<lparr>hc_stream := t, hc_read_buf := take (hc_buf_end ?g) (hc_read_buf ?g) @ d, hc_buf_end := hc_buf_end ?g + length d\<rparr>"
  have g: "hc_buf_start ?g \<le> hc_buf_end ?g" "hc_buf_end ?g \<le> length (hc_read_buf ?g)"
    using grow_buffer_ok [OF assms(1)] by (simp_all add: buffer_ok_def)
  have sel: "hc_buf_end ?c = hc_buf_end ?g + length d" "hc_buf_start ?c = hc_buf_start ?g"
    "hc_read_buf ?c = take (hc_buf_end ?g) (hc_read_buf ?g) @ d" by simp_all
  have "buffered ?c = buffered ?g @ d"
    unfolding buffered_def sel by (rule take_drop_append [OF g])
  then have "conn_input ?c = conn_input c"
    using tr_read_incoming [OF t(1)] by (simp add: conn_input_def grow_buffered [OF assms(1)])
  moreover have "fill_read_buf c = (?c, Inr (length d))"
    using t by (simp add: fill_read_buf_def Let_def)
  ultimately show ?thesis using False t(3) by auto
qed

text \<open>One frame off the input, or the reason why there is none.\<close>

lemma read_frame_parse:
  assumes "buffer_ok c" "plain_reads (tr_reads (hc_stream c))"
  shows "case frame_parse (hc_frame_decoder c) (conn_input c) of
      Need \<Rightarrow> snd (read_frame c) = Inl ConnectionClosed
    | Bad e \<Rightarrow> snd (read_frame c) = Inl e
    | Got f n \<Rightarrow> \<exists>c'. read_frame c = (c', Inr f) \<and> conn_input c' = drop n (conn_input c)
        \<and> buffer_ok c' \<and> plain_reads (tr_reads (hc_stream c')) \<and> hc_frame_decoder c' = hc_frame_decoder c"
  using assms
proof (induction c rule: read_frame.induct)
  case (1 c)
  let ?p = "frame_parse (hc_frame_decoder c)"
  note t = try_parse [OF "1.prems"(1)]
  show ?case
  proof (cases "?p (buffered c)")
    case (Got f n)
    then obtain c1 where c1: "try_read_frame_buffered c = (c1, Inr (Some f))" "buffered c1 = drop n (buffered c)"
      using t by auto
    have "n \<le> length (buffered c)" using h2_frames.got_bound [OF Got] by simp
    moreover have "?p (conn_input c) = Got f n" unfolding conn_input_def by (rule h2_frames.got_mono [OF Got])
    moreover have "hc_stream c1 = hc_stream c" using try_read_stream [OF c1(1)] .
    moreover have "buffer_ok c1" using try_buffer_ok [OF "1.prems"(1)] c1(1) by simp
    moreover have "hc_frame_decoder c1 = hc_frame_decoder c" using same_rest_parts(4) [of c] c1(1) by (auto simp: same_rest_def)
    ultimately show ?thesis using c1 "1.prems"(2) by (simp add: read_frame.simps [of c] conn_input_def)
  next
    case (Bad e)
    then have "?p (conn_input c) = Bad e" unfolding conn_input_def by (rule h2_frames.bad_mono)
    then show ?thesis using t Bad by (simp add: read_frame.simps [of c])
  next
    case Need
    then have none: "try_read_frame_buffered c = (c, Inr None)" using t by simp
    show ?thesis
    proof (cases "tr_reads (hc_stream c) = []")
      case True
      then have "conn_input c = buffered c" by (simp add: conn_input_def)
      then show ?thesis using fill_input [OF "1.prems"] True none Need by (auto simp: read_frame.simps [of c])
    next
      case False
      then obtain c2 k where c2: "fill_read_buf c = (c2, Inr k)" "conn_input c2 = conn_input c" "plain_reads (tr_reads (hc_stream c2))"
        using fill_input [OF "1.prems"] by auto
      have ok: "buffer_ok c2" using fill_buffer_ok [OF "1.prems"(1)] c2(1) by simp
      have dec: "hc_frame_decoder c2 = hc_frame_decoder c" using same_rest_parts(3) [of c] c2(1) by (auto simp: same_rest_def)
      have "read_frame c = read_frame c2" using none c2(1) by (simp add: read_frame.simps [of c])
      with "1.IH" [OF none [symmetric] refl refl c2(1) [symmetric] refl ok c2(3)] c2(2) dec show ?thesis
        by (simp split: progress.splits)
    qed
  qed
qed

text \<open>Reading up to a number of frames: the frames and the error that ended it early.\<close>

fun read_frames :: "nat \<Rightarrow> h2conn \<Rightarrow> frame list \<times> http2_error option" where
  "read_frames 0 c = ([], None)"
| "read_frames (Suc n) c =
    (case read_frame c of
       (c', Inr f) \<Rightarrow> apfst (Cons f) (read_frames n c')
     | (c', Inl e) \<Rightarrow> ([], Some e))"

lemma read_frames_drain:
  assumes "buffer_ok c" "plain_reads (tr_reads (hc_stream c))"
    and "drain (frame_parse (hc_frame_decoder c)) (conn_input c) = (fs, rest, err)"
  shows "read_frames n c = (take n fs, if n \<le> length fs then None else Some (case err of Some e \<Rightarrow> e | None \<Rightarrow> ConnectionClosed))"
  using assms
proof (induction n arbitrary: c fs)
  case (Suc n)
  let ?p = "frame_parse (hc_frame_decoder c)"
  note r = read_frame_parse [OF Suc.prems(1,2)]
  show ?case
  proof (cases "?p (conn_input c)")
    case (Got f k)
    then obtain c' where c': "read_frame c = (c', Inr f)" "conn_input c' = drop k (conn_input c)" "buffer_ok c'"
      "plain_reads (tr_reads (hc_stream c'))" "hc_frame_decoder c' = hc_frame_decoder c" using r by auto
    obtain gs where gs: "drain ?p (conn_input c') = (gs, rest, err)" "fs = f # gs"
      using Suc.prems(3) h2_frames.drain_Got [OF Got] c'(2) by (cases "drain ?p (drop k (conn_input c))") auto
    from Suc.IH [OF c'(3,4), of gs] gs c' show ?thesis by simp
  next
    case (Bad e)
    then have "fs = []" "err = Some e" using Suc.prems(3) by (simp_all add: drain.simps [of ?p])
    then show ?thesis using r Bad by (auto split: prod.splits)
  next
    case Need
    then have "fs = []" "err = None" using Suc.prems(3) by (simp_all add: drain.simps [of ?p])
    then show ?thesis using r Need by (auto split: prod.splits)
  qed
qed simp

section \<open>Delivering a request\<close>

text \<open>A header block on the wire: one HEADERS frame, and CONTINUATION frames for the rest.\<close>

fun continuation_frames :: "u32 \<Rightarrow> bytes list \<Rightarrow> frame list" where
  "continuation_frames sid [] = []"
| "continuation_frames sid (x # xs) = FContinuation sid (xs = []) x # continuation_frames sid xs"

fun header_frames :: "u32 \<Rightarrow> bool \<Rightarrow> bytes list \<Rightarrow> frame list" where
  "header_frames sid es [] = []"
| "header_frames sid es (x # xs) = FHeaders sid es (xs = []) None x # continuation_frames sid xs"

fun process_all :: "frame list \<Rightarrow> processed_request option conn_step" where
  "process_all [] = ret_st None"
| "process_all [f] = process_frame f"
| "process_all (f # g # fs) = then_st (process_frame f) (process_all (g # fs))"

text \<open>The block is complete: the decoder reads the headers and the stream gets them.\<close>

lemma finish_delivers:
  assumes "conn_get c sid = Some s" "hpack_decode (hc_hpack_decoder c) (st_pending_headers s) = (d, Inr hs)"
    and "validate_request_headers hs sid False = Inr ()"
  shows "\<exists>c' s'. finish_headers sid es False c = (c', Inr (Some \<lparr>pr_stream_id = sid, pr_body_pending = \<not> es\<rparr>))
    \<and> conn_get c' sid = Some s' \<and> st_request_headers s' = hs \<and> st_state s' = st_state s \<and> hc_hpack_decoder c' = d"
proof -
  let ?c = "c\<lparr>hc_streams := set_receiving_headers None (hc_streams c), hc_continuation_count := 0\<rparr>"
  have get: "sm_get (set_receiving_headers None (hc_streams c)) sid = Some s"
    using assms(1) by (simp add: conn_get_def sm_get_def set_receiving_headers_def)
  let ?m1 = "modify_stream sid (\<lambda>s. fst (take_header_block s)) (set_receiving_headers None (hc_streams c))"
  let ?m2 = "modify_stream sid (set_request_headers hs) ?m1"
  have m2: "sm_get ?m2 sid = Some (set_request_headers hs (fst (take_header_block s)))"
    by (simp add: sm_get_modify_stream get)
  have dec: "decode_and_set_headers sid False ?c = (?c\<lparr>hc_streams := ?m2, hc_hpack_decoder := d\<rparr>, Inr ())"
    using assms(2,3)
    by (simp add: decode_and_set_headers_def conn_get_def get Let_def update_stream_def hpack_decode_block_def
        then_st_apply bind_st_apply take_header_block_def)
  have "finish_headers sid es False c =
      (?c\<lparr>hc_streams := ?m2, hc_hpack_decoder := d\<rparr>, Inr (Some \<lparr>pr_stream_id = sid, pr_body_pending = \<not> es\<rparr>))"
    by (simp add: finish_headers_def update_streams_def then_st_apply dec headers_result_def)
  then show ?thesis
    using m2 by (auto simp: conn_get_def set_request_headers_def take_header_block_def Let_def split: option.splits)
qed

text \<open>The state between the frames of a block.\<close>

definition block_open :: "u32 \<Rightarrow> bool \<Rightarrow> bytes \<Rightarrow> nat \<Rightarrow> h2conn \<Rightarrow> h2conn \<Rightarrow> bool" where
  "block_open sid es got n c0 c \<longleftrightarrow>
    (\<exists>s. conn_get c sid = Some s \<and> st_pending_headers s = got \<and> st_request_headers s = []
      \<and> st_state s = (if es then HalfClosedRemote else Open))
    \<and> sm_receiving_headers_stream (hc_streams c) = Some sid \<and> hc_continuation_count c = of_nat n
    \<and> hc_local_settings c = hc_local_settings c0 \<and> hc_hpack_decoder c = hc_hpack_decoder c0"

definition delivered :: "u32 \<Rightarrow> bool \<Rightarrow> header_field list \<Rightarrow> hpack_decoder \<Rightarrow> h2conn \<times> (http2_error + processed_request option) \<Rightarrow> bool" where
  "delivered sid es hs d res \<longleftrightarrow>
    (\<exists>c' s. res = (c', Inr (Some \<lparr>pr_stream_id = sid, pr_body_pending = \<not> es\<rparr>))
      \<and> conn_get c' sid = Some s \<and> st_request_headers s = hs
      \<and> st_state s = (if es then HalfClosedRemote else Open) \<and> hc_hpack_decoder c' = d)"

lemma continuation_delivers:
  assumes "block_open sid es got n c0 c" "frags \<noteq> []"
    and "n + length frags \<le> unat (hs_max_continuation_frames (hc_local_settings c0))"
    and "length got + length (concat frags) \<le> hs_max_header_block_size (hc_local_settings c0)"
    and "hpack_decode (hc_hpack_decoder c0) (got @ concat frags) = (d, Inr hs)"
    and "validate_request_headers hs sid False = Inr ()"
  shows "delivered sid es hs d (process_all (continuation_frames sid frags) c)"
  using assms
proof (induction frags arbitrary: got n c)
  case (Cons x xs)
  obtain s where s: "conn_get c sid = Some s" "st_pending_headers s = got" "st_request_headers s = []"
    "st_state s = (if es then HalfClosedRemote else Open)"
    and o: "sm_receiving_headers_stream (hc_streams c) = Some sid" "hc_continuation_count c = of_nat n"
      "hc_local_settings c = hc_local_settings c0" "hc_hpack_decoder c = hc_hpack_decoder c0"
    using Cons.prems(1) unfolding block_open_def by blast
  let ?c = "c\<lparr>hc_continuation_count := hc_continuation_count c + 1\<rparr>"
  let ?c1 = "?c\<lparr>hc_streams := modify_stream sid (append_header_fragment x (xs = [])) (hc_streams c)\<rparr>"
  let ?s = "append_header_fragment x (xs = []) s"
  have "n + 1 < 2 ^ 32"
  proof -
    have "unat (hs_max_continuation_frames (hc_local_settings c0)) < 2 ^ 32"
      using unsigned_less [of "hs_max_continuation_frames (hc_local_settings c0)"] by simp
    then show ?thesis using Cons.prems(3) by simp
  qed
  then have "unat (of_nat (n + 1) :: u32) = n + 1" by (simp add: unat_of_nat del: of_nat_add of_nat_Suc)
  then have cnt: "\<not> hc_continuation_count c + 1 > hs_max_continuation_frames (hc_local_settings c0)"
    using Cons.prems(3) by (simp add: o(2) word_less_nat_alt not_less add.commute)
  have size: "\<not> pending_header_len s + length x > hs_max_header_block_size (hc_local_settings c0)"
    using Cons.prems(4) s(2) by (simp add: pending_header_len_def)
  have es: "(st_state s = HalfClosedRemote \<or> st_state s = Closed) = es" using s(4) by simp
  have step: "process_frame (FContinuation sid (xs = []) x) c =
      (if xs = [] then finish_headers sid es False ?c1 else (?c1, Inr None))"
    using o(1,3) s(1,3) cnt size es
    by (simp add: process_frame_def fits_header_block_def handle_continuation_def Let_def conn_get_def update_stream_def)
  have s1: "conn_get ?c1 sid = Some ?s" using s(1) by (simp add: conn_get_def sm_get_modify_stream)
  show ?case
  proof (cases "xs = []")
    case True
    have "hpack_decode (hc_hpack_decoder ?c1) (st_pending_headers ?s) = (d, Inr hs)"
      using Cons.prems(5) True o(4) s(2) by (simp add: append_header_fragment_def)
    from finish_delivers [OF s1 this Cons.prems(6), of es] show ?thesis
      using True step s(4) by (auto simp: delivered_def append_header_fragment_def)
  next
    case False
    have "block_open sid es (got @ x) (n + 1) c0 ?c1"
      using s s1 o False by (auto simp: block_open_def append_header_fragment_def)
    then have "delivered sid es hs d (process_all (continuation_frames sid xs) ?c1)"
      using Cons.prems False by (intro Cons.IH) auto
    moreover have "process_all (continuation_frames sid (x # xs)) c = process_all (continuation_frames sid xs) ?c1"
      using False step by (cases xs) (simp_all add: then_st_apply)
    ultimately show ?thesis by simp
  qed
qed simp

lemma open_stream:
  assumes "sm_get (hc_streams c) sid = None" "sid mod 2 = 1" "sm_max_client_stream_id (hc_streams c) < sid"
    and "active_stream_count (hc_streams c) < unat (sm_max_concurrent_streams (hc_streams c))"
    and "sm_goaway_last_stream_id (hc_streams c) = None"
  defines "m \<equiv> fst (get_or_create_client_stream (conn_now c) sid (hc_streams c))"
  shows "obtain_stream sid c = (c\<lparr>hc_streams := m\<rparr>, Inr ())"
    "sm_get m sid = Some (stream_new (conn_now c) sid (sm_peer_initial_window_size (hc_streams c))
        (sm_local_initial_window_size (hc_streams c)))"
    "sm_receiving_headers_stream m = sm_receiving_headers_stream (hc_streams c)"
proof -
  have g: "get_or_create_client_stream (conn_now c) sid (hc_streams c) = (m, Inr ())"
    using assms(1-5) by (auto simp: m_def get_or_create_client_stream_def)
  show "obtain_stream sid c = (c\<lparr>hc_streams := m\<rparr>, Inr ())" by (simp add: obtain_stream_def g)
  show "sm_get m sid = Some (stream_new (conn_now c) sid (sm_peer_initial_window_size (hc_streams c))
        (sm_local_initial_window_size (hc_streams c)))"
    "sm_receiving_headers_stream m = sm_receiving_headers_stream (hc_streams c)"
    using assms(1-5) by (auto simp: m_def get_or_create_client_stream_def sm_get_def hashmap.get_put)
qed

lemma on_stream_present:
  assumes "sm_get (hc_streams c) sid = Some s" "f s = (s', Inr ())"
  shows "\<exists>m. on_stream sid f c = (c\<lparr>hc_streams := m\<rparr>, Inr ()) \<and> sm_get m sid = Some s'
    \<and> sm_receiving_headers_stream m = sm_receiving_headers_stream (hc_streams c)"
  using assms
  by (simp add: on_stream_def on_streams_def with_stream_def then_st_apply)
    (auto simp: sm_get_def hashmap.get_put)

text \<open>The HEADERS frame of a new request: its fragment is on the stream.\<close>

lemma headers_open:
  assumes "sm_receiving_headers_stream (hc_streams c) = None"
    and "conn_get c sid = None" "sid mod 2 = 1" "sm_max_client_stream_id (hc_streams c) < sid"
    and "active_stream_count (hc_streams c) < unat (sm_max_concurrent_streams (hc_streams c))"
    and "sm_goaway_last_stream_id (hc_streams c) = None"
    and "length x \<le> hs_max_header_block_size (hc_local_settings c)"
  shows "\<exists>m s. process_frame (FHeaders sid es eh None x) c =
      (let c1 = c\<lparr>hc_continuation_count := 0, hc_streams := m\<rparr>
       in if eh then finish_headers sid es False c1
          else (c1\<lparr>hc_streams := set_receiving_headers (Some sid) m\<rparr>, Inr None))
    \<and> sm_get m sid = Some s \<and> st_pending_headers s = x \<and> st_request_headers s = []
    \<and> st_state s = (if es then HalfClosedRemote else Open)"
proof -
  let ?c = "c\<lparr>hc_continuation_count := 0\<rparr>"
  let ?new = "stream_new (conn_now ?c) sid (sm_peer_initial_window_size (hc_streams c)) (sm_local_initial_window_size (hc_streams c))"
  have none: "sm_get (hc_streams ?c) sid = None" using assms(2) by (simp add: conn_get_def)
  obtain m1 where m1: "obtain_stream sid ?c = (?c\<lparr>hc_streams := m1\<rparr>, Inr ())" "sm_get m1 sid = Some ?new"
    using open_stream(1,2) [OF none assms(3)] assms(4-6) by simp
  let ?s = "?new\<lparr>st_state := (if es then HalfClosedRemote else Open)\<rparr>"
  have "recv_headers es ?new = (?s, Inr ())" by (simp add: recv_headers_def stream_new_def)
  then obtain m2 where m2: "on_stream sid (recv_headers es) (?c\<lparr>hc_streams := m1\<rparr>) = (?c\<lparr>hc_streams := m2\<rparr>, Inr ())"
    "sm_get m2 sid = Some ?s"
    using on_stream_present [of "?c\<lparr>hc_streams := m1\<rparr>" sid ?new "recv_headers es" ?s] m1(2) by auto
  let ?m = "modify_stream sid (append_header_fragment x eh) m2"
  have "process_frame (FHeaders sid es eh None x) c =
      (if eh then finish_headers sid es False (?c\<lparr>hc_streams := ?m\<rparr>)
       else (?c\<lparr>hc_streams := set_receiving_headers (Some sid) ?m\<rparr>, Inr None))"
    using assms(1,2,7) m1(1) m2(1)
    by (simp add: process_frame_def fits_header_block_def handle_headers_def Let_def receiving_body_def conn_get_def
        then_st_apply update_stream_def update_streams_def)
  moreover have "sm_get ?m sid = Some (append_header_fragment x eh ?s)" by (simp add: sm_get_modify_stream m2(2))
  ultimately show ?thesis
    by (intro exI [of _ ?m] exI [of _ "append_header_fragment x eh ?s"])
      (simp add: Let_def append_header_fragment_def stream_new_def)
qed

lemma headers_deliver:
  assumes "sm_receiving_headers_stream (hc_streams c) = None"
    and "conn_get c sid = None" "sid mod 2 = 1" "sm_max_client_stream_id (hc_streams c) < sid"
    and "active_stream_count (hc_streams c) < unat (sm_max_concurrent_streams (hc_streams c))"
    and "sm_goaway_last_stream_id (hc_streams c) = None"
    and "frags \<noteq> []" "length frags \<le> unat (hs_max_continuation_frames (hc_local_settings c)) + 1"
    and "length (concat frags) \<le> hs_max_header_block_size (hc_local_settings c)"
    and "hpack_decode (hc_hpack_decoder c) (concat frags) = (d, Inr hs)"
    and "validate_request_headers hs sid False = Inr ()"
  shows "delivered sid es hs d (process_all (header_frames sid es frags) c)"
proof -
  obtain x xs where frags: "frags = x # xs" using assms(7) by (cases frags) auto
  have x: "length x \<le> hs_max_header_block_size (hc_local_settings c)" using assms(9) by (simp add: frags)
  obtain m s where p: "process_frame (FHeaders sid es (xs = []) None x) c =
      (let c1 = c\<lparr>hc_continuation_count := 0, hc_streams := m\<rparr>
       in if xs = [] then finish_headers sid es False c1
          else (c1\<lparr>hc_streams := set_receiving_headers (Some sid) m\<rparr>, Inr None))"
    and s: "sm_get m sid = Some s" "st_pending_headers s = x" "st_request_headers s = []"
      "st_state s = (if es then HalfClosedRemote else Open)"
    using headers_open [OF assms(1-6) x, of es "xs = []"] by blast
  let ?c1 = "c\<lparr>hc_continuation_count := 0, hc_streams := m\<rparr>"
  show ?thesis
  proof (cases "xs = []")
    case True
    have "conn_get ?c1 sid = Some s" "hpack_decode (hc_hpack_decoder ?c1) (st_pending_headers s) = (d, Inr hs)"
      using s assms(10) True by (simp_all add: conn_get_def frags)
    from finish_delivers [OF this assms(11), of es] show ?thesis
      using True p s(4) by (auto simp: frags delivered_def Let_def)
  next
    case False
    let ?c2 = "?c1\<lparr>hc_streams := set_receiving_headers (Some sid) m\<rparr>"
    have "block_open sid es x 0 c ?c2"
      using s by (simp add: block_open_def conn_get_def sm_get_def set_receiving_headers_def)
    then have "delivered sid es hs d (process_all (continuation_frames sid xs) ?c2)"
      using assms(8-11) False by (intro continuation_delivers [where got = x and n = 0 and ?c0.0 = c]) (auto simp: frags)
    moreover have "process_all (header_frames sid es frags) c = process_all (continuation_frames sid xs) ?c2"
      using False p by (cases xs) (simp_all add: frags then_st_apply Let_def)
    ultimately show ?thesis by simp
  qed
qed

section \<open>Properties\<close>

text \<open>C31: What a connection reads does not depend on how the network cuts the bytes.  Whatever bytes
  the peer sends before it closes, well formed or not, in whatever pieces, and whatever was read
  ahead before the connection was set up, reading frames one by one yields exactly the frames of
  the whole byte string parsed at once, and then the error of that parse or the end of the
  connection.  If the bytes are encodings of frames within the frame size, these are the frames.\<close>

theorem frames_exact:
  assumes "plain_reads (tr_reads t)" "length d \<le> 65536"
  shows "(case drain (frame_parse (frame_decoder_new (hs_max_frame_size settings))) (d @ incoming (tr_reads t)) of
      (fs, rest, err) \<Rightarrow> read_frames n (conn_new_with_initial_buffer t settings d) =
        (take n fs, if n \<le> length fs then None else Some (case err of Some e \<Rightarrow> e | None \<Rightarrow> ConnectionClosed)))
    \<and> (\<forall>fs. d @ incoming (tr_reads t) = concat (map frame_encode fs)
         \<and> (\<forall>f \<in> set fs. wf_frame f \<and> encodable f \<and> length (frame_payload f) \<le> unat (hs_max_frame_size settings))
         \<longrightarrow> read_frames (length fs) (conn_new_with_initial_buffer t settings d) = (fs, None))"
proof -
  let ?c = "conn_new_with_initial_buffer t settings d" and ?p = "frame_parse (frame_decoder_new (hs_max_frame_size settings))"
  have c: "hc_stream ?c = t" "hc_frame_decoder ?c = frame_decoder_new (hs_max_frame_size settings)"
    by (simp_all add: conn_new_with_initial_buffer_def Let_def)
  have ok: "buffer_ok ?c" using conn_inv_new by (simp add: conn_inv_def)
  have "buffered ?c = d" using assms(2) by (simp add: buffered_def conn_new_with_initial_buffer_def Let_def min_def)
  then have input: "conn_input ?c = d @ incoming (tr_reads t)" by (simp add: conn_input_def c)
  have run: "read_frames n ?c = (take n fs, if n \<le> length fs then None else Some (case err of Some e \<Rightarrow> e | None \<Rightarrow> ConnectionClosed))"
    if "drain ?p (d @ incoming (tr_reads t)) = (fs, rest, err)" for n fs rest err
    using read_frames_drain [OF ok] assms(1) that by (simp add: c input)
  have "read_frames (length fs) ?c = (fs, None)"
    if "d @ incoming (tr_reads t) = concat (map frame_encode fs)"
      "\<forall>f \<in> set fs. wf_frame f \<and> encodable f \<and> length (frame_payload f) \<le> unat (hs_max_frame_size settings)" for fs
  proof -
    have "drain ?p (concat (map frame_encode fs)) = (fs, [], None)"
      using that(2) by (intro h2_frames.drain_encoded frame_parse_encode)
        (auto simp: frame_decoder_new_def frame_parse_def FRAME_HEADER_SIZE_def)
    from run [OF this [folded that(1)]] show ?thesis by simp
  qed
  then show ?thesis using run by (auto split: prod.splits)
qed

theorem frames_exact_witness:
  "read_frames 1 (conn_new_with_initial_buffer
      \<lparr>tr_reads = [(3, ReadData [4, 8, 0]), (9, ReadData [0, 0, 0, 1, 0, 0, 3, 232])], tr_writes = [], tr_sent = [], tr_now = 0\<rparr>
      settings_default [0, 0]) = ([FWindowUpdate 1 1000], None)"
proof -
  let ?t = "\<lparr>tr_reads = [(3, ReadData [4, 8, 0]), (9, ReadData [0, 0, 0, 1, 0, 0, 3, 232])], tr_writes = [], tr_sent = [], tr_now = 0\<rparr>"
  have "[0, 0] @ incoming (tr_reads ?t) = concat (map frame_encode [FWindowUpdate 1 1000])" by code_simp
  moreover have "plain_reads (tr_reads ?t)" by (simp add: plain_reads_def)
  moreover have "length (frame_payload (FWindowUpdate 1 1000)) \<le> unat (hs_max_frame_size settings_default)"
    by (simp add: settings_default_def MAX_FRAME_SIZE_def)
  ultimately show ?thesis using frames_exact [where t = ?t and d = "[0, 0]" and settings = settings_default] by fastforce
qed

text \<open>C32: A request arrives as it was sent.  If the client's HPACK encoder is in step with the
  connection's decoder and encodes a valid request of at most 255 fields, and the block is sent as
  one HEADERS frame and CONTINUATION frames, cut anywhere, within the limits, on a fresh stream,
  then the last frame yields the request, the stream holds exactly the client's header fields in
  the right state, and encoder and decoder are in step again.\<close>

theorem request_delivered:
  assumes "sm_receiving_headers_stream (hc_streams c) = None" "sm_goaway_last_stream_id (hc_streams c) = None"
    and "conn_get c sid = None" "sid mod 2 = 1" "sm_max_client_stream_id (hc_streams c) < sid"
    and "active_stream_count (hc_streams c) < unat (sm_max_concurrent_streams (hc_streams c))"
    and "hpack_synced e (hc_hpack_decoder c)" "hpack_encode e hs = (e', concat frags)"
    and "list_all header_fits hs" "total_size (map header_of hs) \<le> hd_max_header_list_size (hc_hpack_decoder c)"
    and "frags \<noteq> []" "length frags \<le> unat (hs_max_continuation_frames (hc_local_settings c)) + 1"
    and "length (concat frags) \<le> hs_max_header_block_size (hc_local_settings c)"
    and "rfc_request (map header_of hs)" "length hs < 256"
  shows "\<exists>c' s. process_all (header_frames sid es frags) c =
      (c', Inr (Some \<lparr>pr_stream_id = sid, pr_body_pending = \<not> es\<rparr>))
    \<and> conn_get c' sid = Some s \<and> st_request_headers s = map header_of hs
    \<and> st_state s = (if es then HalfClosedRemote else Open) \<and> hpack_synced e' (hc_hpack_decoder c')"
proof -
  obtain d where d: "hpack_decode (hc_hpack_decoder c) (concat frags) = (d, Inr (map header_of hs))" "hpack_synced e' d"
    using hpack_decode_encode [OF assms(7,9,10,8)] by blast
  have "validate_request_headers (map header_of hs) sid False = Inr ()"
    using validation_accepts [of "map header_of hs" sid False] assms(14,15) by simp
  from headers_deliver [OF assms(1,3-6,2,11-13) d(1) this, of es] d(2) show ?thesis
    unfolding delivered_def by blast
qed

theorem request_delivered_witness:
  "let c = conn_new_with_initial_buffer \<lparr>tr_reads = [], tr_writes = [], tr_sent = [], tr_now = 0\<rparr> settings_default []
   in \<exists>c' s. process_all [FHeaders 1 True False None [0x82], FContinuation 1 True [0x87, 0x84]] c =
        (c', Inr (Some \<lparr>pr_stream_id = 1, pr_body_pending = False\<rparr>))
      \<and> conn_get c' 1 = Some s
      \<and> st_request_headers s = [header_field_new (ascii '':method'') (ascii ''GET''),
          header_field_new (ascii '':scheme'') (ascii ''https''), header_field_new (ascii '':path'') (ascii ''/'')]"
proof -
  let ?c = "conn_new_with_initial_buffer \<lparr>tr_reads = [], tr_writes = [], tr_sent = [], tr_now = 0\<rparr> settings_default []"
  let ?hs = "[(ascii '':method'', ascii ''GET'', False), (ascii '':scheme'', ascii ''https'', False), (ascii '':path'', ascii ''/'', False)]"
  let ?frags = "[[0x82], [0x87, 0x84 :: u8]]"
  define e' where "e' = fst (hpack_encode (hpack_encoder_new 4096) ?hs)"
  have enc: "hpack_encode (hpack_encoder_new 4096) ?hs = (e', concat ?frags)"
  proof -
    have found: "static_find_exact (ascii '':method'') (ascii ''GET'') = Some 2"
      "static_find_exact (ascii '':scheme'') (ascii ''https'') = Some 7"
      "static_find_exact (ascii '':path'') (ascii ''/'') = Some 4"
      by (simp_all add: static_find_exact_def STATIC_ENTRIES_def)
    have "snd (hpack_encode (hpack_encoder_new 4096) ?hs) = concat ?frags"
      by (simp add: hpack_encode_def hpack_encoder_new_def encode_header_def he_find_exact_def found [simplified]
          encode_indexed_def encode_integer_def prefix_mask_def Let_def)
    then show ?thesis by (simp add: e'_def prod_eq_iff)
  qed
  have c: "hc_streams ?c = stream_manager_new 100 65535" "hc_hpack_decoder ?c = hpack_decoder_new 4096"
    "hc_local_settings ?c = settings_default"
    by (simp_all add: conn_new_with_initial_buffer_def Let_def settings_default_def MAX_CONCURRENT_STREAMS_def
        INITIAL_WINDOW_SIZE_def HEADER_TABLE_SIZE_def)
  have lim: "hs_max_continuation_frames settings_default = 10" "hs_max_header_block_size settings_default = 65536"
    by (simp_all add: settings_default_def MAX_CONTINUATION_FRAMES_def MAX_HEADER_BLOCK_SIZE_def)
  have "validate_request_headers (map header_of ?hs) 1 False = Inr ()" by code_simp
  then have rfc: "rfc_request (map header_of ?hs)" using validation_accepts [of "map header_of ?hs" 1 False] by simp
  have "list_all header_fits ?hs" "total_size (map header_of ?hs) \<le> hd_max_header_list_size (hpack_decoder_new 4096)"
    by (simp_all add: header_fits_def header_of_def header_field_size_def hpack_decoder_new_def)
  from request_delivered [where c = ?c and sid = 1 and frags = ?frags and es = True, OF _ _ _ _ _ _ _ enc this [folded c(2)] _ _ _ rfc]
  show ?thesis
    by (simp add: c lim stream_manager_new_def conn_get_def sm_get_def store_get_def active_stream_count_def
        hpack_synced_new header_of_def) blast
qed

text \<open>
  A header block that is refused before it is decoded leaves the decoder behind the peer's
  encoder: here the stream is refused by the concurrency limit, as RFC 7540 section 5.1.2 allows,
  but RFC 7540 section 4.3 demands that the block be decoded all the same.
\<close>

lemma refused_block_not_decoded:
  assumes "sm_receiving_headers_stream (hc_streams c) = None" "conn_get c sid = None" "sid mod 2 = 1"
    and "sm_max_client_stream_id (hc_streams c) < sid" "sm_goaway_last_stream_id (hc_streams c) = None"
    and "active_stream_count (hc_streams c) \<ge> unat (sm_max_concurrent_streams (hc_streams c))"
    and "length block \<le> hs_max_header_block_size (hc_local_settings c)"
  shows "hc_hpack_decoder (fst (process_frame (FHeaders sid True True None block) c)) = hc_hpack_decoder c
    \<and> (\<exists>msg. snd (process_frame (FHeaders sid True True None block) c) = Inl (StreamError sid RefusedStream msg))"
proof -
  let ?c = "c\<lparr>hc_continuation_count := 0\<rparr>"
  have g: "get_or_create_client_stream (conn_now ?c) sid (hc_streams c) =
      (hc_streams c, Inl (stream_error sid RefusedStream ''Too many concurrent streams''))"
    using assms by (auto simp: get_or_create_client_stream_def conn_get_def)
  have "hc_hpack_decoder (fst (conn_send_rst_stream rid code c')) = hc_hpack_decoder c'" for rid code c'
  proof -
    obtain t where "fst (write_all_raw (encode_rst_stream rid (error_code_as_u32 code)) c') = c'\<lparr>hc_stream := t\<rparr>"
      using write_all_result by blast
    then show ?thesis
      by (auto simp: conn_send_rst_stream_def then_st_apply write_all_def update_stream_def split: prod.splits sum.splits)
  qed
  then have "hc_hpack_decoder (fst (obtain_stream sid ?c)) = hc_hpack_decoder c"
    "snd (obtain_stream sid ?c) = Inl (StreamError sid RefusedStream ''Too many concurrent streams'')"
    by (simp_all add: obtain_stream_def g)
  then show ?thesis
    using assms(1,2,7)
    by (cases "obtain_stream sid ?c")
      (simp add: process_frame_def fits_header_block_def handle_headers_def Let_def receiving_body_def conn_get_def then_st_apply)
qed

end
