(* ===== verification/Rust_Str.thy ===== *)
theory Rust_Str
  imports Rust_Text
begin

text \<open>
  The methods of \<open>str\<close> that the configuration and the router use, on the bytes of the string.  A
  pattern that is itself a string matches at character boundaries only because UTF-8 is
  self-synchronising, so that comparing bytes is comparing characters.
\<close>

definition strip_prefix :: "'a list \<Rightarrow> 'a list \<Rightarrow> 'a list option" where
  "strip_prefix p s = (if take (length p) s = p then Some (drop (length p) s) else None)"

definition strip_suffix :: "'a list \<Rightarrow> 'a list \<Rightarrow> 'a list option" where
  "strip_suffix p s =
    (if length p \<le> length s \<and> drop (length s - length p) s = p then Some (take (length s - length p) s) else None)"

definition starts_with :: "'a list \<Rightarrow> 'a list \<Rightarrow> bool" where
  "starts_with p s \<longleftrightarrow> take (length p) s = p"

definition ends_with :: "'a list \<Rightarrow> 'a list \<Rightarrow> bool" where
  "ends_with p s \<longleftrightarrow> length p \<le> length s \<and> drop (length s - length p) s = p"

fun find_byte :: "'a \<Rightarrow> 'a list \<Rightarrow> nat option" where
  "find_byte b [] = None"
| "find_byte b (x # xs) = (if x = b then Some 0 else map_option Suc (find_byte b xs))"

definition split_once :: "'a \<Rightarrow> 'a list \<Rightarrow> ('a list \<times> 'a list) option" where
  "split_once b s = map_option (\<lambda>i. (take i s, drop (Suc i) s)) (find_byte b s)"

definition trim_str :: "bytes \<Rightarrow> bytes" where
  "trim_str s = (case utf8_chars s of Some cs \<Rightarrow> utf8_encode (trim_chars cs) | None \<Rightarrow> s)"

definition parse_u16 :: "bytes \<Rightarrow> nat option" where
  "parse_u16 = from_str_radix 10 65536"

lemma strip_prefix_Some: "strip_prefix p s = Some r \<longleftrightarrow> s = p @ r"
  by (auto simp: strip_prefix_def) (metis append_take_drop_id)

lemma strip_suffix_Some: "strip_suffix p s = Some r \<longleftrightarrow> s = r @ p"
  by (auto simp: strip_suffix_def) (metis append_take_drop_id)

lemma strip_prefix_append [simp]: "strip_prefix p (p @ r) = Some r"
  by (simp add: strip_prefix_Some)

lemma strip_suffix_append [simp]: "strip_suffix p (r @ p) = Some r"
  by (simp add: strip_suffix_Some)

lemma strip_prefix_None: "strip_prefix p s = None \<longleftrightarrow> (\<forall>r. s \<noteq> p @ r)"
  by (metis not_Some_eq strip_prefix_Some)

lemma strip_suffix_None: "strip_suffix p s = None \<longleftrightarrow> (\<forall>r. s \<noteq> r @ p)"
  by (metis not_Some_eq strip_suffix_Some)

lemma starts_with_iff: "starts_with p s \<longleftrightarrow> (\<exists>r. s = p @ r)"
  unfolding starts_with_def by (metis append_eq_conv_conj append_take_drop_id)

lemma ends_with_iff: "ends_with p s \<longleftrightarrow> (\<exists>r. s = r @ p)"
  by (metis ends_with_def not_None_eq strip_suffix_Some strip_suffix_def)

lemma find_byte_None: "find_byte b s = None \<longleftrightarrow> b \<notin> set s"
  by (induction s) auto

lemma find_byte_Some: "find_byte b s = Some i \<longleftrightarrow> i < length s \<and> s ! i = b \<and> b \<notin> set (take i s)"
proof (induction s arbitrary: i)
  case (Cons x xs)
  show ?case by (cases i) (auto simp: Cons.IH)
qed simp

lemma find_byte_append: "b \<notin> set s \<Longrightarrow> find_byte b (s @ b # t) = Some (length s)"
  by (simp add: find_byte_Some)

lemma split_once_append: "b \<notin> set s \<Longrightarrow> split_once b (s @ b # t) = Some (s, t)"
  by (simp add: split_once_def find_byte_append)

lemma utf8_encode_ascii: "list_all (\<lambda>b. b < 0x80) s \<Longrightarrow> utf8_encode (map unat s) = s"
  by (induction s) (simp_all add: utf8_encode_def utf8_push_def word_less_nat_alt)

lemma printable_not_space: "0x20 < b \<Longrightarrow> b < 0x80 \<Longrightarrow> \<not> is_unicode_whitespace (unat b)" for b :: u8
  by (auto simp: is_unicode_whitespace_def word_less_nat_alt)

lemma trim_str_plain:
  assumes "list_all (\<lambda>b. b < 0x80) s" "s \<noteq> []" "0x20 < hd s" "0x20 < last s"
  shows "trim_str s = s"
proof -
  obtain a s' where a: "s = a # s'" using assms(2) by (cases s) auto
  obtain z s'' where z: "s = s'' @ [z]" using assms(2) by (cases s rule: rev_cases) auto
  have "a < 0x80" "0x20 < a" using assms(1,3) a by auto
  moreover have "z < 0x80" "0x20 < z" using assms(1,4) z by auto
  ultimately have ends: "\<not> is_unicode_whitespace (unat a)" "\<not> is_unicode_whitespace (unat z)"
    using printable_not_space by auto
  have "dropWhile is_unicode_whitespace (map unat s) = map unat s" using ends(1) by (simp add: a)
  moreover have "dropWhile is_unicode_whitespace (rev (map unat s)) = rev (map unat s)" using ends(2) by (simp add: z)
  ultimately have "trim_chars (map unat s) = map unat s" by (simp add: trim_chars_def)
  then show ?thesis using assms(1) by (simp add: trim_str_def utf8_chars_ascii utf8_encode_ascii)
qed

end
