(* ===== verification/Circuit_Breaker.thy ===== *)
theory Circuit_Breaker
  imports Prelude
begin

text \<open>
  The circuit breaker of an upstream server (\<open>resilience.rs\<close>): the sliding window of outcomes, the
  three states, the decision to admit a request and the recording of outcomes.  Instants are
  nanoseconds; every reading of the clock is an argument of its own, in the order of the source.
  Each operation holds the breaker's lock from its match to its end, so that concurrent callers
  appear as sequences of operations.  The specification keeps every outcome since the breaker
  closed and decides on that history.
\<close>

section \<open>Sliding window\<close>

record sliding_window =
  sw_window :: nat
  sw_entries :: "(nat \<times> bool) list"

definition duration_secs :: "u64 \<Rightarrow> nat" where
  "duration_secs s = unat s * 1000000000"

definition sliding_window_new :: "nat \<Rightarrow> sliding_window" where
  "sliding_window_new window = \<lparr>sw_window = window, sw_entries = []\<rparr>"

definition sw_evict_old :: "nat \<Rightarrow> sliding_window \<Rightarrow> sliding_window" where
  "sw_evict_old now w = w\<lparr>sw_entries := dropWhile (\<lambda>(ts, _). now - ts > sw_window w) (sw_entries w)\<rparr>"

definition sw_record :: "nat \<Rightarrow> bool \<Rightarrow> sliding_window \<Rightarrow> sliding_window" where
  "sw_record now success w =
    (let w = sw_evict_old now w
     in w\<lparr>sw_entries := sw_entries w @ [(now, success)]\<rparr>)"

definition sw_total :: "nat \<Rightarrow> sliding_window \<Rightarrow> nat" where
  "sw_total now w = length (filter (\<lambda>(ts, _). now - ts \<le> sw_window w) (sw_entries w))"

definition sw_failures :: "nat \<Rightarrow> sliding_window \<Rightarrow> nat" where
  "sw_failures now w = length (filter (\<lambda>(ts, s). now - ts \<le> sw_window w \<and> \<not> s) (sw_entries w))"

definition sw_clear :: "sliding_window \<Rightarrow> sliding_window" where
  "sw_clear w = w\<lparr>sw_entries := []\<rparr>"

section \<open>The breaker\<close>

record circuit_breaker_config =
  cb_enabled :: bool
  cb_failure_threshold :: u32
  cb_failure_window_secs :: u64
  cb_open_duration_secs :: u64
  cb_half_open_probes :: u32
  cb_success_threshold :: u32
  cb_trip_on_timeout :: bool

definition circuit_breaker_config_default :: circuit_breaker_config where
  "circuit_breaker_config_default = \<lparr>cb_enabled = False, cb_failure_threshold = 5, cb_failure_window_secs = 60,
    cb_open_duration_secs = 30, cb_half_open_probes = 3, cb_success_threshold = 2, cb_trip_on_timeout = True\<rparr>"

datatype circuit_state =
    CbClosed u32 sliding_window
  | CbOpen nat
  | CbHalfOpen u32 u32

record circuit_breaker_stats =
  cbs_open_count :: u64
  cbs_success_count :: u64
  cbs_failure_count :: u64
  cbs_state_code :: u64

record circuit_breaker =
  cb_state :: circuit_state
  cb_config :: circuit_breaker_config
  cb_stats :: circuit_breaker_stats

definition circuit_breaker_new :: "circuit_breaker_config \<Rightarrow> circuit_breaker" where
  "circuit_breaker_new config =
    \<lparr>cb_state = CbClosed 0 (sliding_window_new (duration_secs (cb_failure_window_secs config))),
     cb_config = config,
     cb_stats = \<lparr>cbs_open_count = 0, cbs_success_count = 0, cbs_failure_count = 0, cbs_state_code = 0\<rparr>\<rparr>"

definition set_state_code :: "u64 \<Rightarrow> circuit_breaker \<Rightarrow> circuit_breaker" where
  "set_state_code code cb = cb\<lparr>cb_stats := (cb_stats cb)\<lparr>cbs_state_code := code\<rparr>\<rparr>"

definition allow_request :: "nat \<Rightarrow> circuit_breaker \<Rightarrow> circuit_breaker \<times> bool" where
  "allow_request now cb =
    (case cb_state cb of
       CbClosed _ _ \<Rightarrow> (cb, True)
     | CbOpen opened_at \<Rightarrow>
         let elapsed = now - opened_at
         in if elapsed \<ge> duration_secs (cb_open_duration_secs (cb_config cb))
            then (set_state_code 2 (cb\<lparr>cb_state := CbHalfOpen 1 0\<rparr>), True)
            else (cb, False)
     | CbHalfOpen probe_count successes \<Rightarrow>
         if probe_count < cb_half_open_probes (cb_config cb)
         then (cb\<lparr>cb_state := CbHalfOpen (probe_count + 1) successes\<rparr>, True)
         else (cb, False))"

definition breaker_is_open :: "circuit_breaker \<Rightarrow> bool" where
  "breaker_is_open cb = (case cb_state cb of CbOpen _ \<Rightarrow> True | _ \<Rightarrow> False)"

definition breaker_record_success :: "nat \<Rightarrow> circuit_breaker \<Rightarrow> circuit_breaker" where
  "breaker_record_success now cb =
    (let cb = cb\<lparr>cb_stats := (cb_stats cb)\<lparr>cbs_success_count := cbs_success_count (cb_stats cb) + 1\<rparr>\<rparr>
     in case cb_state cb of
          CbClosed failures recent_window \<Rightarrow> cb\<lparr>cb_state := CbClosed 0 (sw_record now True recent_window)\<rparr>
        | CbHalfOpen probe_count successes \<Rightarrow>
            let successes = successes + 1
            in if successes \<ge> cb_success_threshold (cb_config cb)
               then set_state_code 0 (cb\<lparr>cb_state :=
                      CbClosed 0 (sliding_window_new (duration_secs (cb_failure_window_secs (cb_config cb))))\<rparr>)
               else cb\<lparr>cb_state := CbHalfOpen probe_count successes\<rparr>
        | CbOpen _ \<Rightarrow> cb)"

definition trip_breaker :: "nat \<Rightarrow> circuit_breaker \<Rightarrow> circuit_breaker" where
  "trip_breaker now cb =
    (let cb = cb\<lparr>cb_state := CbOpen now\<rparr>;
         cb = cb\<lparr>cb_stats := (cb_stats cb)\<lparr>cbs_open_count := cbs_open_count (cb_stats cb) + 1\<rparr>\<rparr>
     in set_state_code 1 cb)"

definition breaker_record_failure :: "nat \<Rightarrow> nat \<Rightarrow> nat \<Rightarrow> circuit_breaker \<Rightarrow> circuit_breaker" where
  "breaker_record_failure now now' now'' cb =
    (let cb = cb\<lparr>cb_stats := (cb_stats cb)\<lparr>cbs_failure_count := cbs_failure_count (cb_stats cb) + 1\<rparr>\<rparr>
     in case cb_state cb of
          CbClosed failures recent_window \<Rightarrow>
            let recent_window = sw_record now False recent_window;
                failures = failures + 1;
                window_failures = of_nat (sw_failures now' recent_window)
            in if failures \<ge> cb_failure_threshold (cb_config cb)
                  \<or> window_failures \<ge> cb_failure_threshold (cb_config cb)
               then trip_breaker now'' cb
               else cb\<lparr>cb_state := CbClosed failures recent_window\<rparr>
        | CbHalfOpen _ _ \<Rightarrow> trip_breaker now'' cb
        | CbOpen _ \<Rightarrow> cb)"

definition breaker_state_code :: "circuit_breaker \<Rightarrow> u64" where
  "breaker_state_code cb = (case cb_state cb of CbClosed _ _ \<Rightarrow> 0 | CbOpen _ \<Rightarrow> 1 | CbHalfOpen _ _ \<Rightarrow> 2)"

section \<open>Runs\<close>

text \<open>The operations with the instants at which they read the clock; a failure reads it up to three times.\<close>

datatype breaker_event = Ask nat | Succeed nat | Fail nat nat nat

fun breaker_step :: "breaker_event \<Rightarrow> circuit_breaker \<Rightarrow> circuit_breaker \<times> bool" where
  "breaker_step (Ask t) cb = allow_request t cb"
| "breaker_step (Succeed t) cb = (breaker_record_success t cb, True)"
| "breaker_step (Fail t t' t'') cb = (breaker_record_failure t t' t'' cb, True)"

fun breaker_run :: "breaker_event list \<Rightarrow> circuit_breaker \<Rightarrow> circuit_breaker \<times> (bool \<times> u64) list" where
  "breaker_run [] cb = (cb, [])"
| "breaker_run (ev # evs) cb =
    (let (cb, answer) = breaker_step ev cb
     in apsnd (Cons (answer, breaker_state_code cb)) (breaker_run evs cb))"

fun in_order :: "nat \<Rightarrow> breaker_event list \<Rightarrow> bool" where
  "in_order since [] \<longleftrightarrow> True"
| "in_order since (Ask t # evs) \<longleftrightarrow> since \<le> t \<and> in_order t evs"
| "in_order since (Succeed t # evs) \<longleftrightarrow> since \<le> t \<and> in_order t evs"
| "in_order since (Fail t t' t'' # evs) \<longleftrightarrow> since \<le> t \<and> t \<le> t' \<and> t' \<le> t'' \<and> in_order t'' evs"

section \<open>Specification\<close>

text \<open>
  A breaker that remembers every outcome since it closed.  It trips when the last outcomes are
  failures, as many as the threshold, or when so many failures lie in the window.
\<close>

datatype breaker_phase = Watching "(nat \<times> bool) list" | Tripped nat | Probing nat nat

definition in_a_row :: "(nat \<times> bool) list \<Rightarrow> nat" where
  "in_a_row h = length (takeWhile (\<lambda>(_, ok). \<not> ok) (rev h))"

definition recent_failures :: "nat \<Rightarrow> nat \<Rightarrow> (nat \<times> bool) list \<Rightarrow> nat" where
  "recent_failures window now h = length (filter (\<lambda>(ts, ok). now - ts \<le> window \<and> \<not> ok) h)"

fun phase_step :: "circuit_breaker_config \<Rightarrow> breaker_event \<Rightarrow> breaker_phase \<Rightarrow> breaker_phase \<times> bool" where
  "phase_step cfg (Ask t) (Watching h) = (Watching h, True)"
| "phase_step cfg (Ask t) (Tripped t0) =
    (if t \<ge> t0 + duration_secs (cb_open_duration_secs cfg) then (Probing 1 0, True) else (Tripped t0, False))"
| "phase_step cfg (Ask t) (Probing p s) =
    (if p < unat (cb_half_open_probes cfg) then (Probing (Suc p) s, True) else (Probing p s, False))"
| "phase_step cfg (Succeed t) (Watching h) = (Watching (h @ [(t, True)]), True)"
| "phase_step cfg (Succeed t) (Tripped t0) = (Tripped t0, True)"
| "phase_step cfg (Succeed t) (Probing p s) =
    (if Suc s \<ge> unat (cb_success_threshold cfg) then (Watching [], True) else (Probing p (Suc s), True))"
| "phase_step cfg (Fail t t' t'') (Watching h) =
    (let h' = h @ [(t, False)]
     in if in_a_row h' \<ge> unat (cb_failure_threshold cfg)
           \<or> recent_failures (duration_secs (cb_failure_window_secs cfg)) t' h' \<ge> unat (cb_failure_threshold cfg)
        then (Tripped t'', True) else (Watching h', True))"
| "phase_step cfg (Fail t t' t'') (Tripped t0) = (Tripped t0, True)"
| "phase_step cfg (Fail t t' t'') (Probing p s) = (Tripped t'', True)"

fun phase_code :: "breaker_phase \<Rightarrow> u64" where
  "phase_code (Watching _) = 0"
| "phase_code (Tripped _) = 1"
| "phase_code (Probing _ _) = 2"

fun phase_run :: "circuit_breaker_config \<Rightarrow> breaker_event list \<Rightarrow> breaker_phase \<Rightarrow> (bool \<times> u64) list" where
  "phase_run cfg [] ph = []"
| "phase_run cfg (ev # evs) ph =
    (let (ph, answer) = phase_step cfg ev ph in (answer, phase_code ph) # phase_run cfg evs ph)"

section \<open>Refinement\<close>

definition below :: "nat \<Rightarrow> u32 \<Rightarrow> bool" where
  "below n limit \<longleftrightarrow> n = 0 \<or> n < unat limit"

text \<open>
  The window is the history without a prefix that has left the window for good, and the counters
  are below their thresholds, hence far from the bounds of \<open>u32\<close>.
\<close>

fun breaker_sim :: "circuit_breaker_config \<Rightarrow> nat \<Rightarrow> circuit_state \<Rightarrow> breaker_phase \<Rightarrow> bool" where
  "breaker_sim cfg since (CbClosed failures w) (Watching h) \<longleftrightarrow>
    sw_window w = duration_secs (cb_failure_window_secs cfg) \<and> unat failures = in_a_row h
    \<and> (\<exists>old. h = old @ sw_entries w \<and> (\<forall>e \<in> set old. sw_window w < since - fst e))
    \<and> below (in_a_row h) (cb_failure_threshold cfg)
    \<and> below (recent_failures (sw_window w) since h) (cb_failure_threshold cfg)"
| "breaker_sim cfg since (CbOpen t) (Tripped t') \<longleftrightarrow> t = t' \<and> t \<le> since"
| "breaker_sim cfg since (CbHalfOpen p s) (Probing p' s') \<longleftrightarrow>
    unat p = p' \<and> unat s = s' \<and> below s' (cb_success_threshold cfg)"
| "breaker_sim cfg since _ _ \<longleftrightarrow> False"

lemma u32_succ:
  assumes "unat (n :: u32) < unat (m :: u32)"
  shows "unat (n + 1) = Suc (unat n)"
proof -
  have "unat m < 4294967296" using unsigned_less [of m] by simp
  then have "Suc (unat n) < 4294967296" using assms by simp
  then show ?thesis by (simp add: unat_word_ariths)
qed

lemma below_succ: "below (unat n) limit \<Longrightarrow> unat (n + 1 :: u32) = Suc (unat n)"
  using u32_succ [of n limit] by (cases "n = 0") (auto simp: below_def unat_eq_0)

lemma in_a_row_simps [simp]:
  "in_a_row [] = 0" "in_a_row (h @ [(t, True)]) = 0" "in_a_row (h @ [(t, False)]) = Suc (in_a_row h)"
  by (simp_all add: in_a_row_def)

lemma recent_failures_append [simp]:
  "recent_failures w now (h @ h') = recent_failures w now h + recent_failures w now h'"
  by (simp add: recent_failures_def)

lemma recent_failures_single [simp]:
  "recent_failures w now [(t, ok)] = (if now - t \<le> w \<and> \<not> ok then 1 else 0)"
  by (simp add: recent_failures_def)

lemma recent_failures_Nil [simp]: "recent_failures w now [] = 0"
  by (simp add: recent_failures_def)

lemma recent_failures_mono: "since \<le> now \<Longrightarrow> recent_failures w now h \<le> recent_failures w since h"
  unfolding recent_failures_def by (induction h) (auto simp: le_diff_conv)

lemma recent_failures_old: "\<forall>e \<in> set old. w < now - fst e \<Longrightarrow> recent_failures w now old = 0"
  by (auto simp: recent_failures_def filter_empty_conv)

lemma below_mono: "below n limit \<Longrightarrow> m \<le> n \<Longrightarrow> below m limit"
  by (auto simp: below_def)

text \<open>Recording an outcome keeps the window a suffix of the history.\<close>

lemma sw_record_suffix:
  assumes "h = old @ sw_entries w" "\<forall>e \<in> set old. sw_window w < since - fst e" "since \<le> now" "now \<le> later"
  shows "\<exists>old'. h @ [(now, ok)] = old' @ sw_entries (sw_record now ok w)
    \<and> (\<forall>e \<in> set old'. sw_window w < later - fst e)"
proof -
  let ?P = "\<lambda>(ts, _). sw_window w < now - ts"
  have "h @ [(now, ok)] = (old @ takeWhile ?P (sw_entries w)) @ sw_entries (sw_record now ok w)"
    using assms(1) by (simp add: sw_record_def sw_evict_old_def Let_def)
  moreover have "\<forall>e \<in> set (old @ takeWhile ?P (sw_entries w)). sw_window w < later - fst e"
    using assms(2-4) by (fastforce dest: set_takeWhileD)
  ultimately show ?thesis by blast
qed

lemma sw_record_window [simp]: "sw_window (sw_record now ok w) = sw_window w"
  by (simp add: sw_record_def sw_evict_old_def Let_def)

lemma sw_failures_recent:
  assumes "h = old @ sw_entries w" "\<forall>e \<in> set old. sw_window w < now - fst e"
  shows "sw_failures now w = recent_failures (sw_window w) now h"
  using recent_failures_old [OF assms(2)] assms(1) by (simp add: sw_failures_def recent_failures_def)

lemma of_nat_ge_iff: "n \<le> unat (limit :: u32) \<or> n \<le> 1 \<Longrightarrow> (limit \<le> of_nat n) = (unat limit \<le> n)"
proof -
  assume "n \<le> unat limit \<or> n \<le> 1"
  then have "n < 2 ^ 32" using unsigned_less [of limit, where 'a = nat] by auto
  then have "unat (of_nat n :: u32) = n" by (simp add: unat_of_nat)
  then show ?thesis by (simp add: word_le_nat_alt)
qed

lemma sim_fail:
  assumes "breaker_sim cfg since (CbClosed failures w) (Watching h)" "since \<le> t" "t \<le> t'" "t' \<le> t''"
  shows "(failures + 1 \<ge> cb_failure_threshold cfg
      \<or> of_nat (sw_failures t' (sw_record t False w)) \<ge> cb_failure_threshold cfg) =
    (in_a_row (h @ [(t, False)]) \<ge> unat (cb_failure_threshold cfg)
      \<or> recent_failures (sw_window w) t' (h @ [(t, False)]) \<ge> unat (cb_failure_threshold cfg))"
    and "\<not> (in_a_row (h @ [(t, False)]) \<ge> unat (cb_failure_threshold cfg)
      \<or> recent_failures (sw_window w) t' (h @ [(t, False)]) \<ge> unat (cb_failure_threshold cfg))
    \<Longrightarrow> breaker_sim cfg t'' (CbClosed (failures + 1) (sw_record t False w)) (Watching (h @ [(t, False)]))"
proof -
  let ?limit = "cb_failure_threshold cfg"
  from assms(1) obtain old where old: "h = old @ sw_entries w" "\<forall>e \<in> set old. sw_window w < since - fst e"
    and f: "unat failures = in_a_row h" "below (in_a_row h) ?limit"
    and r: "below (recent_failures (sw_window w) since h) ?limit"
    by auto
  from sw_record_suffix [OF old assms(2,3)] obtain old' where
    s: "h @ [(t, False)] = old' @ sw_entries (sw_record t False w)" "\<forall>e \<in> set old'. sw_window w < t' - fst e"
    by blast
  have n: "sw_failures t' (sw_record t False w) = recent_failures (sw_window w) t' (h @ [(t, False)])"
    using sw_failures_recent [of "h @ [(t, False)]" old' "sw_record t False w" t'] s by simp
  have "recent_failures (sw_window w) t' h \<le> recent_failures (sw_window w) since h"
    using recent_failures_mono assms(2,3) order_trans by blast
  then have "recent_failures (sw_window w) t' (h @ [(t, False)]) \<le> unat ?limit
      \<or> recent_failures (sw_window w) t' (h @ [(t, False)]) \<le> 1"
    using r by (auto simp: below_def)
  note ge = of_nat_ge_iff [OF this, folded n]
  have succ: "unat (failures + 1) = Suc (in_a_row h)" using below_succ [of failures ?limit] f by simp
  then show "(failures + 1 \<ge> ?limit \<or> of_nat (sw_failures t' (sw_record t False w)) \<ge> ?limit) =
    (in_a_row (h @ [(t, False)]) \<ge> unat ?limit \<or> recent_failures (sw_window w) t' (h @ [(t, False)]) \<ge> unat ?limit)"
    using ge n by (simp add: word_le_nat_alt)
  assume low: "\<not> (in_a_row (h @ [(t, False)]) \<ge> unat ?limit
      \<or> recent_failures (sw_window w) t' (h @ [(t, False)]) \<ge> unat ?limit)"
  have "recent_failures (sw_window w) t'' (h @ [(t, False)]) \<le> recent_failures (sw_window w) t' (h @ [(t, False)])"
    by (rule recent_failures_mono [OF assms(4)])
  then have "below (recent_failures (sw_window w) t'' (h @ [(t, False)])) ?limit" using low by (auto simp: below_def)
  moreover have "\<exists>old. h @ [(t, False)] = old @ sw_entries (sw_record t False w) \<and> (\<forall>e \<in> set old. sw_window w < t'' - fst e)"
    using s assms(4) by (meson diff_le_mono less_le_trans)
  ultimately show "breaker_sim cfg t'' (CbClosed (failures + 1) (sw_record t False w)) (Watching (h @ [(t, False)]))"
    using assms(1) succ low by (auto simp: below_def)
qed

lemma sim_success:
  assumes "breaker_sim cfg since (CbClosed failures w) (Watching h)" "since \<le> t"
  shows "breaker_sim cfg t (CbClosed 0 (sw_record t True w)) (Watching (h @ [(t, True)]))"
proof -
  from assms(1) obtain old where old: "h = old @ sw_entries w" "\<forall>e \<in> set old. sw_window w < since - fst e"
    and r: "below (recent_failures (sw_window w) since h) (cb_failure_threshold cfg)"
    by auto
  have "below (recent_failures (sw_window w) t h) (cb_failure_threshold cfg)"
    using below_mono [OF r recent_failures_mono [OF assms(2)]] .
  with sw_record_suffix [OF old assms(2) order_refl, of True] assms(1) show ?thesis
    by (auto simp: below_def)
qed

text \<open>The instant after an event.\<close>

fun event_end :: "breaker_event \<Rightarrow> nat" where
  "event_end (Ask t) = t"
| "event_end (Succeed t) = t"
| "event_end (Fail t t' t'') = t''"

lemma in_order_Cons: "in_order since (ev # evs) \<longleftrightarrow> in_order since [ev] \<and> in_order (event_end ev) evs"
  by (cases ev) auto

lemma sim_later: "breaker_sim cfg since st ph \<Longrightarrow> since \<le> t \<Longrightarrow> breaker_sim cfg t st ph"
proof (induction cfg since st ph rule: breaker_sim.induct)
  case (1 cfg since failures w h)
  have "below (recent_failures (sw_window w) t h) (cb_failure_threshold cfg)"
    using 1 below_mono recent_failures_mono by (metis breaker_sim.simps(1))
  with 1 show ?case by fastforce
qed auto

lemma step_config [simp]: "cb_config (fst (breaker_step ev cb)) = cb_config cb"
  by (cases ev; cases "cb_state cb")
    (auto simp: allow_request_def breaker_record_success_def breaker_record_failure_def trip_breaker_def set_state_code_def Let_def)

lemma step_sim:
  assumes "breaker_sim cfg since (cb_state cb) ph" "cb_config cb = cfg" "in_order since [ev]"
  shows "breaker_sim cfg (event_end ev) (cb_state (fst (breaker_step ev cb))) (fst (phase_step cfg ev ph))"
    and "snd (breaker_step ev cb) = snd (phase_step cfg ev ph)"
proof -
  note defs = breaker_record_success_def breaker_record_failure_def trip_breaker_def set_state_code_def Let_def
  have "breaker_sim cfg (event_end ev) (cb_state (fst (breaker_step ev cb))) (fst (phase_step cfg ev ph))
    \<and> snd (breaker_step ev cb) = snd (phase_step cfg ev ph)"
  proof (cases "cb_state cb")
    case (CbClosed failures w)
    with assms(1) obtain h where ph [simp]: "ph = Watching h" by (cases ph) auto
    have sim: "breaker_sim cfg since (CbClosed failures w) (Watching h)" using assms(1) unfolding CbClosed ph .
    show ?thesis
    proof (cases ev)
      case (Ask t)
      with sim_later [OF sim] assms(3) CbClosed show ?thesis by (simp add: allow_request_def del: breaker_sim.simps)
    next
      case (Succeed t)
      with sim_success [OF sim] assms(3) CbClosed show ?thesis by (simp add: defs del: breaker_sim.simps)
    next
      case (Fail t t' t'')
      with assms(3) have ord: "since \<le> t" "t \<le> t'" "t' \<le> t''" by auto
      have w: "sw_window w = duration_secs (cb_failure_window_secs cfg)" using sim by simp
      note f = sim_fail [OF sim ord, unfolded w]
      show ?thesis
      proof (cases "in_a_row (h @ [(t, False)]) \<ge> unat (cb_failure_threshold cfg)
          \<or> recent_failures (duration_secs (cb_failure_window_secs cfg)) t' (h @ [(t, False)]) \<ge> unat (cb_failure_threshold cfg)")
        case True
        with f(1) show ?thesis using CbClosed Fail assms(2) by (simp add: defs)
      next
        case False
        with f show ?thesis using CbClosed Fail assms(2) by (simp add: defs del: breaker_sim.simps)
      qed
    qed
  next
    case (CbOpen t0)
    with assms(1) have [simp]: "ph = Tripped t0" and "t0 \<le> since" by (cases ph; simp)+
    with CbOpen assms(2,3) show ?thesis
      by (cases ev) (auto simp: allow_request_def defs below_def)
  next
    case (CbHalfOpen p s)
    with assms(1) obtain p' s' where [simp]: "ph = Probing p' s'" by (cases ph) auto
    have c: "unat p = p'" "unat s = s'" "below (unat s) (cb_success_threshold cfg)" using assms(1) CbHalfOpen by auto
    note succ = below_succ [OF c(3)]
    have p: "p < cb_half_open_probes cfg \<Longrightarrow> unat (p + 1) = Suc (unat p)"
      using u32_succ [of p "cb_half_open_probes cfg"] by (simp add: word_less_nat_alt)
    show ?thesis using CbHalfOpen c succ p assms(2)
      by (cases ev) (auto simp: allow_request_def defs below_def word_less_nat_alt word_le_nat_alt sliding_window_new_def)
  qed
  then show "breaker_sim cfg (event_end ev) (cb_state (fst (breaker_step ev cb))) (fst (phase_step cfg ev ph))"
    and "snd (breaker_step ev cb) = snd (phase_step cfg ev ph)" by auto
qed

lemma sim_code: "breaker_sim cfg since (cb_state cb) ph \<Longrightarrow> breaker_state_code cb = phase_code ph"
  by (cases "cb_state cb"; cases ph) (auto simp: breaker_state_code_def)

lemma run_sim:
  assumes "breaker_sim cfg since (cb_state cb) ph" "cb_config cb = cfg" "in_order since evs"
  shows "snd (breaker_run evs cb) = phase_run cfg evs ph"
  using assms
proof (induction evs arbitrary: since cb ph)
  case (Cons ev evs)
  from Cons.prems(3) have o1: "in_order since [ev]" and o2: "in_order (event_end ev) evs"
    using in_order_Cons by blast+
  note s = step_sim [OF Cons.prems(1,2) o1]
  from Cons.IH [OF s(1) _ o2] Cons.prems(2) s(2) sim_code [OF s(1)] show ?case
    by (simp add: case_prod_beta Let_def)
qed simp

lemma sim_new: "breaker_sim cfg 0 (cb_state (circuit_breaker_new cfg)) (Watching [])"
  by (simp add: circuit_breaker_new_def sliding_window_new_def below_def)

section \<open>Recovery\<close>

text \<open>A request that is sent if the breaker admits it, and that the server answers.\<close>

definition probe_upstream :: "nat \<Rightarrow> circuit_breaker \<Rightarrow> circuit_breaker" where
  "probe_upstream t cb = (case allow_request t cb of (cb', admitted) \<Rightarrow> if admitted then breaker_record_success t cb' else cb')"

definition breaker_closed :: "circuit_breaker \<Rightarrow> bool" where
  "breaker_closed cb \<longleftrightarrow> (case cb_state cb of CbClosed _ _ \<Rightarrow> True | _ \<Rightarrow> False)"

definition wanted_successes :: "circuit_breaker_config \<Rightarrow> nat" where
  "wanted_successes cfg = max 1 (unat (cb_success_threshold cfg))"

definition granted_probes :: "circuit_breaker_config \<Rightarrow> nat" where
  "granted_probes cfg = max 1 (unat (cb_half_open_probes cfg))"

definition probed :: "circuit_breaker_config \<Rightarrow> nat \<Rightarrow> circuit_breaker \<Rightarrow> bool" where
  "probed cfg k cb \<longleftrightarrow> cb_config cb = cfg \<and>
    (if wanted_successes cfg \<le> min k (granted_probes cfg) then breaker_closed cb
     else cb_state cb = CbHalfOpen (of_nat (min k (granted_probes cfg))) (of_nat (min k (granted_probes cfg))))"

lemma granted_probes_u32: "unat (of_nat (granted_probes cfg) :: u32) = granted_probes cfg"
proof -
  have "granted_probes cfg < 2 ^ 32"
    using unsigned_less [of "cb_half_open_probes cfg", where 'a = nat] by (simp add: granted_probes_def)
  then show ?thesis by (simp add: unat_of_nat)
qed

lemma probe_config [simp]: "cb_config (probe_upstream t cb) = cb_config cb"
  using step_config [of "Ask t" cb] step_config [of "Succeed t"]
  by (auto simp: probe_upstream_def split: prod.splits)

lemma probe_first:
  assumes "cb_state cb = CbOpen t0" "t0 + duration_secs (cb_open_duration_secs (cb_config cb)) \<le> t"
  shows "probed (cb_config cb) 1 (probe_upstream t cb)"
proof -
  have "t - t0 \<ge> duration_secs (cb_open_duration_secs (cb_config cb))" using assms(2) by simp
  moreover have "cb_success_threshold (cb_config cb) \<le> 1 \<longleftrightarrow> wanted_successes (cb_config cb) \<le> 1"
    by (simp add: wanted_successes_def word_le_nat_alt)
  moreover have "min 1 (granted_probes (cb_config cb)) = 1" by (simp add: granted_probes_def)
  ultimately show ?thesis using assms(1)
    by (auto simp: probed_def probe_upstream_def allow_request_def breaker_record_success_def breaker_closed_def
        set_state_code_def Let_def split: if_splits)
qed

lemma probe_next:
  assumes "probed cfg k cb" "1 \<le> k"
  shows "probed cfg (Suc k) (probe_upstream t cb)"
proof (cases "wanted_successes cfg \<le> min k (granted_probes cfg)")
  case True
  with assms have "breaker_closed cb" "cb_config cb = cfg" by (auto simp: probed_def)
  with True show ?thesis
    by (auto simp: probed_def probe_upstream_def breaker_closed_def allow_request_def breaker_record_success_def Let_def
        split: circuit_state.splits)
next
  case False
  let ?n = "min k (granted_probes cfg)"
  from False assms have st: "cb_state cb = CbHalfOpen (of_nat ?n) (of_nat ?n)" and [simp]: "cb_config cb = cfg"
    by (auto simp: probed_def)
  have un: "unat (of_nat ?n :: u32) = ?n"
    using granted_probes_u32 [of cfg] by (simp add: unat_of_nat)
  show ?thesis
  proof (cases "k < granted_probes cfg")
    case True
    then have k: "?n = k" "k < unat (cb_half_open_probes cfg)" using assms(2) by (auto simp: granted_probes_def)
    then have adm: "(of_nat k :: u32) < cb_half_open_probes cfg" using un by (simp add: word_less_nat_alt)
    have succ: "(of_nat k + 1 :: u32) = of_nat (Suc k)" by (simp add: add.commute)
    have un': "unat (of_nat (Suc k) :: u32) = Suc k"
      using u32_succ [of "of_nat k" "cb_half_open_probes cfg"] adm un k by (simp add: word_less_nat_alt add.commute)
    have thr: "cb_success_threshold cfg \<le> of_nat (Suc k) \<longleftrightarrow> wanted_successes cfg \<le> Suc k"
      using un' by (simp add: wanted_successes_def word_le_nat_alt)
    from st k adm have "probe_upstream t cb = breaker_record_success t (cb\<lparr>cb_state := CbHalfOpen (of_nat (Suc k)) (of_nat k)\<rparr>)"
      by (simp add: probe_upstream_def allow_request_def add.commute)
    with thr succ True show ?thesis
      by (auto simp: probed_def breaker_record_success_def breaker_closed_def set_state_code_def Let_def min_def
          simp del: of_nat_Suc split: if_splits)
  next
    case no: False
    then have n: "?n = granted_probes cfg" by simp
    have "\<not> (of_nat ?n :: u32) < cb_half_open_probes cfg"
      using un n by (simp add: word_less_nat_alt granted_probes_def)
    with st have "probe_upstream t cb = cb" by (simp add: probe_upstream_def allow_request_def)
    moreover have "min (Suc k) (granted_probes cfg) = ?n" using no by simp
    ultimately show ?thesis using st False by (simp add: probed_def)
  qed
qed

lemma probe_all:
  assumes "cb_state cb = CbOpen t0" "ts \<noteq> []"
    and "\<And>t. t \<in> set ts \<Longrightarrow> t0 + duration_secs (cb_open_duration_secs (cb_config cb)) \<le> t"
  shows "probed (cb_config cb) (length ts) (fold probe_upstream ts cb)"
  using assms(2,3)
proof (induction ts rule: rev_nonempty_induct)
  case (single t)
  with probe_first [OF assms(1)] show ?case by simp
next
  case (snoc t ts)
  then have "1 \<le> length ts" by (cases ts) auto
  with probe_next snoc show ?case by simp
qed

text \<open>No request is admitted before the open period is over, whatever is recorded meanwhile.\<close>

lemma open_holds:
  assumes "cb_state cb = CbOpen t0" "t0 \<le> event_end ev"
    and "event_end ev < t0 + duration_secs (cb_open_duration_secs (cb_config cb))"
  shows "cb_state (fst (breaker_step ev cb)) = CbOpen t0 \<and> (\<forall>t. ev = Ask t \<longrightarrow> \<not> snd (breaker_step ev cb))"
  using assms
  by (cases ev) (simp_all add: allow_request_def breaker_record_success_def breaker_record_failure_def Let_def)

text \<open>C39: The circuit breaker decides on the whole history of outcomes.  For every sequence of
  requests and recorded outcomes with a clock that does not run backwards, every answer of
  \<open>allow_request\<close> and every state is that of the specification that forgets no outcome: the breaker
  trips when the outcomes since it closed end in \<open>failure_threshold\<close> failures or hold as many in the
  window, admits nothing until the open period is over, then at most \<open>half_open_probes\<close> requests,
  and closes after \<open>success_threshold\<close> successes.  Evicting old entries and counting in \<open>u32\<close> lose
  nothing.\<close>

theorem breaker_refines_history:
  assumes "in_order 0 evs"
  shows "snd (breaker_run evs (circuit_breaker_new cfg)) = phase_run cfg evs (Watching [])"
  using run_sim [OF sim_new _ assms] by (simp add: circuit_breaker_new_def)

theorem breaker_refines_history_witness:
  "let cfg = circuit_breaker_config_default\<lparr>cb_failure_threshold := 2\<rparr>;
       evs = [Ask 0, Fail 1 1 1, Succeed 2, Fail 3 3 3, Ask 4, Ask 30000000003, Ask 30000000003, Succeed 30000000004,
              Succeed 30000000005]
   in in_order 0 evs
      \<and> snd (breaker_run evs (circuit_breaker_new cfg)) =
          [(True, 0), (True, 0), (True, 0), (True, 1), (False, 1), (True, 2), (True, 2), (True, 2), (True, 0)]"
proof -
  let ?cfg = "circuit_breaker_config_default\<lparr>cb_failure_threshold := 2\<rparr>"
  let ?evs = "[Ask 0, Fail 1 1 1, Succeed 2, Fail 3 3 3, Ask 4, Ask 30000000003, Ask 30000000003, Succeed 30000000004,
              Succeed 30000000005]"
  have o: "in_order 0 ?evs" by simp
  have "phase_run ?cfg ?evs (Watching []) =
      [(True, 0), (True, 0), (True, 0), (True, 1), (False, 1), (True, 2), (True, 2), (True, 2), (True, 0)]"
    by (simp add: circuit_breaker_config_default_def duration_secs_def recent_failures_def in_a_row_def)
  with breaker_refines_history [OF o, of ?cfg] o show ?thesis by (simp add: Let_def)
qed

text \<open>C40: An open breaker recovers exactly if it can.  Let the open period be over and let the server
  answer every request it is sent, at least \<open>success_threshold\<close> of them offered.  Then the breaker is
  closed at the end if and only if \<open>success_threshold\<close> does not exceed the number of probes it grants;
  otherwise it stays half open and refuses every request.\<close>

theorem breaker_recovers_iff:
  assumes "cb_state cb = CbOpen t0" "wanted_successes (cb_config cb) \<le> length ts"
    and "\<forall>t \<in> set ts. t0 + duration_secs (cb_open_duration_secs (cb_config cb)) \<le> t"
  shows "if wanted_successes (cb_config cb) \<le> granted_probes (cb_config cb)
    then breaker_closed (fold probe_upstream ts cb)
    else \<not> breaker_closed (fold probe_upstream ts cb) \<and> \<not> snd (allow_request t (fold probe_upstream ts cb))"
proof -
  let ?cb = "fold probe_upstream ts cb"
  have "ts \<noteq> []" using assms(2) by (auto simp: wanted_successes_def)
  from probe_all [OF assms(1) this] assms(3) have p: "probed (cb_config cb) (length ts) ?cb" by blast
  show ?thesis
  proof (cases "wanted_successes (cb_config cb) \<le> granted_probes (cb_config cb)")
    case True
    with p assms(2) show ?thesis by (simp add: probed_def)
  next
    case False
    let ?g = "granted_probes (cb_config cb)"
    from False p assms(2) have st: "cb_state ?cb = CbHalfOpen (of_nat ?g) (of_nat ?g)" "cb_config ?cb = cb_config cb"
      by (auto simp: probed_def min_def split: if_splits)
    have "unat (cb_half_open_probes (cb_config cb)) \<le> unat (of_nat ?g :: u32)"
      using granted_probes_u32 [of "cb_config cb"] by (simp add: granted_probes_def)
    then show ?thesis using False st by (simp add: breaker_closed_def allow_request_def word_less_nat_alt)
  qed
qed

theorem breaker_recovers_iff_witness:
  "let cfg = circuit_breaker_config_default\<lparr>cb_half_open_probes := 1\<rparr>;
       cb = (circuit_breaker_new cfg)\<lparr>cb_state := CbOpen 7\<rparr>;
       cb' = fold probe_upstream [30000000007, 30000000008, 30000000009] cb
   in \<not> breaker_closed cb' \<and> \<not> snd (allow_request 90000000000 cb')"
proof -
  let ?cb = "(circuit_breaker_new (circuit_breaker_config_default\<lparr>cb_half_open_probes := 1\<rparr>))\<lparr>cb_state := CbOpen 7\<rparr>"
  have "wanted_successes (cb_config ?cb) = 2" "granted_probes (cb_config ?cb) = 1"
    "duration_secs (cb_open_duration_secs (cb_config ?cb)) = 30000000000"
    by (simp_all add: wanted_successes_def granted_probes_def circuit_breaker_new_def circuit_breaker_config_default_def duration_secs_def)
  with breaker_recovers_iff [of ?cb 7 "[30000000007, 30000000008, 30000000009]" 90000000000] show ?thesis
    by (simp add: Let_def)
qed

end
