(* ===== verification/Upstream_Server.thy ===== *)
theory Upstream_Server
  imports Rust_Str Circuit_Breaker
begin

text \<open>
  Backend targets and servers (\<open>config.rs\<close>): the target's URL, the choice of the hash key, and the
  server's counters for health checks, connections, ejection and the circuit breaker.  The atomic
  counters are 64-bit words, which wrap.  The two places that compute in floating point are
  parameters: \<open>ewma\<close> is the average of the latencies and \<open>rate_reached\<close> the comparison of the error
  rate with its threshold.
\<close>

section \<open>Targets\<close>

record proxy_target =
  pt_host :: bytes
  pt_port :: u16
  pt_use_tls :: bool
  pt_path_prefix :: bytes
  pt_sni_name :: "bytes option"
  pt_use_h2c :: bool

definition proxy_target_parse :: "bytes \<Rightarrow> proxy_target option" where
  "proxy_target_parse url =
    (case (case strip_prefix (ascii ''https://'') url of
             Some rest \<Rightarrow> Some (True, rest)
           | None \<Rightarrow> (case strip_prefix (ascii ''http://'') url of Some rest \<Rightarrow> Some (False, rest) | None \<Rightarrow> None)) of
       None \<Rightarrow> None
     | Some (scheme, rest) \<Rightarrow>
         let (host_port, path) =
               (case find_byte 0x2F rest of
                  Some idx \<Rightarrow> (take idx rest, drop idx rest)
                | None \<Rightarrow> (rest, ascii ''/''))
         in case (case find_byte 0x3A host_port of
                    Some idx \<Rightarrow>
                      (case parse_u16 (drop (idx + 1) host_port) of
                         Some p \<Rightarrow> Some (take idx host_port, of_nat p)
                       | None \<Rightarrow> None)
                  | None \<Rightarrow> Some (host_port, if scheme then 443 else 80)) of
              None \<Rightarrow> None
            | Some (host, port) \<Rightarrow>
                Some \<lparr>pt_host = host, pt_port = port, pt_use_tls = scheme, pt_path_prefix = path,
                      pt_sni_name = None, pt_use_h2c = False\<rparr>)"

definition with_sni_name :: "bytes option \<Rightarrow> proxy_target \<Rightarrow> proxy_target" where
  "with_sni_name name t = t\<lparr>pt_sni_name := name\<rparr>"

definition target_with_h2c :: "bool \<Rightarrow> proxy_target \<Rightarrow> proxy_target" where
  "target_with_h2c use_h2c t = (if \<not> pt_use_tls t then t\<lparr>pt_use_h2c := use_h2c\<rparr> else t)"

definition target_sni :: "proxy_target \<Rightarrow> bytes" where
  "target_sni t = (case pt_sni_name t of Some n \<Rightarrow> n | None \<Rightarrow> pt_host t)"

definition is_default_port :: "proxy_target \<Rightarrow> bool" where
  "is_default_port t = (if pt_use_tls t then pt_port t = 443 else pt_port t = 80)"

section \<open>Hash keys and algorithms\<close>

datatype hash_key = HkIp | HkHeader bytes | HkCookie bytes

fun extract_cookie_loop :: "bytes list \<Rightarrow> bytes \<Rightarrow> bytes option" where
  "extract_cookie_loop [] name = None"
| "extract_cookie_loop (part # parts) name =
    (let part = trim_str part
     in if part = [] then extract_cookie_loop parts name
        else
          case split_once 0x3D part of
            Some (k, v) \<Rightarrow>
              if eq_ignore_ascii_case (trim_str k) name then Some (trim_str v) else extract_cookie_loop parts name
          | None \<Rightarrow> extract_cookie_loop parts name)"

definition extract_cookie_value :: "bytes \<Rightarrow> bytes \<Rightarrow> bytes option" where
  "extract_cookie_value cookie_header name = extract_cookie_loop (split_on 0x3B cookie_header) name"

definition quoted :: "bytes \<Rightarrow> bytes" where
  "quoted s = [0x27] @ s @ [0x27]"

definition hash_key_parse :: "bytes \<Rightarrow> bytes + hash_key" where
  "hash_key_parse s =
    (let s = trim_str s
     in if eq_ignore_ascii_case s (ascii ''ip'') then Inr HkIp
        else
          case strip_prefix (ascii ''header:'') s of
            Some rest \<Rightarrow> Inr (HkHeader (trim_str rest))
          | None \<Rightarrow>
             (case strip_prefix (ascii ''cookie:'') s of
                Some rest \<Rightarrow> Inr (HkCookie (trim_str rest))
              | None \<Rightarrow> Inl (ascii ''invalid hash_key: '' @ quoted s @ ascii '', expected '' @ quoted (ascii ''ip'') @ ascii '', ''
                  @ quoted (ascii ''header:NAME'') @ ascii '', or '' @ quoted (ascii ''cookie:NAME''))))"

datatype load_balance_algorithm = RoundRobin | LeastConnections | IpHash | Weighted | ConsistentHash hash_key

text \<open>No character outside ASCII has a lower-case form among the letters of these names.\<close>

definition algorithm_deserialize :: "bytes \<Rightarrow> bytes + load_balance_algorithm" where
  "algorithm_deserialize s =
    (let l = to_ascii_lowercase s
     in if l \<in> {ascii ''round_robin'', ascii ''roundrobin''} then Inr RoundRobin
        else if l \<in> {ascii ''least_conn'', ascii ''least_connections'', ascii ''leastconn''} then Inr LeastConnections
        else if l \<in> {ascii ''ip_hash'', ascii ''iphash''} then Inr IpHash
        else if l \<in> {ascii ''weighted'', ascii ''weighted_round_robin'', ascii ''wrr''} then Inr Weighted
        else if l \<in> {ascii ''consistent_hash'', ascii ''consistenthash''} then Inr (ConsistentHash HkIp)
        else Inl (ascii ''unknown load balance algorithm: '' @ quoted l @ ascii '', expected ''
               @ quoted (ascii ''round_robin'') @ ascii '', '' @ quoted (ascii ''least_conn'') @ ascii '', ''
               @ quoted (ascii ''ip_hash'') @ ascii '', '' @ quoted (ascii ''weighted'') @ ascii '', or ''
               @ quoted (ascii ''consistent_hash'')))"

definition resolve_algorithm :: "load_balance_algorithm \<Rightarrow> hash_key option \<Rightarrow> load_balance_algorithm" where
  "resolve_algorithm algorithm hash_key =
    (case algorithm of
       ConsistentHash inner \<Rightarrow> ConsistentHash (case hash_key of Some k \<Rightarrow> k | None \<Rightarrow> inner)
     | other \<Rightarrow> other)"

section \<open>Servers\<close>

record 'f outlier_config =
  oc_enabled :: bool
  oc_error_rate_threshold :: 'f
  oc_interval_secs :: u64
  oc_base_ejection_time_secs :: u64
  oc_max_ejection_percent :: u32

record upstream_server =
  us_target :: proxy_target
  us_active_connections :: u64
  us_healthy :: bool
  us_consecutive_successes :: u64
  us_consecutive_failures :: u64
  us_circuit_breaker :: "circuit_breaker option"
  us_error_rate_window :: sliding_window
  us_avg_latency_ms :: u64
  us_ejected_until :: "nat option"

definition upstream_server_new :: "proxy_target \<Rightarrow> upstream_server" where
  "upstream_server_new target =
    \<lparr>us_target = target, us_active_connections = 0, us_healthy = True, us_consecutive_successes = 0,
     us_consecutive_failures = 0, us_circuit_breaker = None,
     us_error_rate_window = sliding_window_new (duration_secs 10), us_avg_latency_ms = 0, us_ejected_until = None\<rparr>"

definition with_circuit_breaker :: "circuit_breaker option \<Rightarrow> upstream_server \<Rightarrow> upstream_server" where
  "with_circuit_breaker cb s = s\<lparr>us_circuit_breaker := cb\<rparr>"

definition is_ejected :: "nat \<Rightarrow> upstream_server \<Rightarrow> upstream_server \<times> bool" where
  "is_ejected now s =
    (case us_ejected_until s of
       Some until \<Rightarrow> if now \<ge> until then (s\<lparr>us_ejected_until := None\<rparr>, False) else (s, True)
     | None \<Rightarrow> (s, False))"

definition eject_for :: "nat \<Rightarrow> nat \<Rightarrow> upstream_server \<Rightarrow> upstream_server" where
  "eject_for now dur s = s\<lparr>us_ejected_until := Some (now + dur)\<rparr>"

definition acquire :: "upstream_server \<Rightarrow> upstream_server" where
  "acquire s = s\<lparr>us_active_connections := us_active_connections s + 1\<rparr>"

definition release :: "upstream_server \<Rightarrow> upstream_server" where
  "release s = s\<lparr>us_active_connections := us_active_connections s - 1\<rparr>"

definition us_record_success :: "u32 \<Rightarrow> upstream_server \<Rightarrow> upstream_server" where
  "us_record_success healthy_threshold s =
    (let s = s\<lparr>us_consecutive_failures := 0\<rparr>;
         successes = us_consecutive_successes s + 1;
         s = s\<lparr>us_consecutive_successes := successes\<rparr>
     in if successes \<ge> ucast healthy_threshold \<and> \<not> us_healthy s then s\<lparr>us_healthy := True\<rparr> else s)"

definition us_record_failure :: "u32 \<Rightarrow> upstream_server \<Rightarrow> upstream_server" where
  "us_record_failure unhealthy_threshold s =
    (let s = s\<lparr>us_consecutive_successes := 0\<rparr>;
         failures = us_consecutive_failures s + 1;
         s = s\<lparr>us_consecutive_failures := failures\<rparr>
     in if failures \<ge> ucast unhealthy_threshold \<and> us_healthy s then s\<lparr>us_healthy := False\<rparr> else s)"

text \<open>
  The clock is read by the breaker (up to three times), by the three window operations and by
  \<open>eject_for\<close>, in this order.
\<close>

record outcome_clock =
  oc_breaker :: "nat \<times> nat \<times> nat"
  oc_window :: "nat \<times> nat \<times> nat"
  oc_eject :: nat

definition record_breaker_outcome :: "bool \<Rightarrow> nat \<times> nat \<times> nat \<Rightarrow> circuit_breaker \<Rightarrow> circuit_breaker" where
  "record_breaker_outcome success ts cb =
    (case ts of (t, t', t'') \<Rightarrow>
       if success then breaker_record_success t cb else breaker_record_failure t t' t'' cb)"

definition record_outcome ::
    "(u64 \<Rightarrow> u64 \<Rightarrow> u64) \<Rightarrow> (nat \<Rightarrow> nat \<Rightarrow> 'f \<Rightarrow> bool) \<Rightarrow> outcome_clock \<Rightarrow> bool \<Rightarrow> u64 \<Rightarrow> 'f outlier_config option
      \<Rightarrow> upstream_server \<Rightarrow> upstream_server" where
  "record_outcome ewma rate_reached clk success latency_ms outlier s =
    (let prev = us_avg_latency_ms s;
         next = (if prev = 0 then latency_ms else ewma prev latency_ms);
         s = s\<lparr>us_avg_latency_ms := next\<rparr>;
         s = (case us_circuit_breaker s of
                Some cb \<Rightarrow> s\<lparr>us_circuit_breaker := Some (record_breaker_outcome success (oc_breaker clk) cb)\<rparr>
              | None \<Rightarrow> s)
     in case outlier of
          None \<Rightarrow> s
        | Some cfg \<Rightarrow>
            if \<not> oc_enabled cfg then s
            else
              case oc_window clk of (t, t', t'') \<Rightarrow>
                let w = sw_record t success (us_error_rate_window s);
                    s = s\<lparr>us_error_rate_window := w\<rparr>;
                    total = sw_total t' w;
                    errors = sw_failures t'' w
                in if total \<ge> 5 \<and> rate_reached errors total (oc_error_rate_threshold cfg)
                   then eject_for (oc_eject clk) (duration_secs (oc_base_ejection_time_secs cfg)) s
                   else s)"

section \<open>Lemmas\<close>

lemma unat_ucast_u32: "unat (ucast (k :: u32) :: u64) = unat k"
proof -
  have "unat k < 2 ^ 32" using unsigned_less [of k, where 'a = nat] by simp
  then have "unat k < 2 ^ 64" by (rule less_trans) simp
  then show ?thesis by (simp add: unsigned_ucast_eq unsigned_take_bit_eq take_bit_nat_eq_self)
qed

text \<open>A healthy server that fails \<open>unhealthy_threshold\<close> checks in a row is marked unhealthy.\<close>

lemma fold_failures:
  assumes "us_healthy s" "us_consecutive_failures s = 0" "0 < k" "unat k \<le> n" "n < 2 ^ 32"
  shows "\<not> us_healthy (fold (\<lambda>_. us_record_failure k) [0..<n] s)"
proof -
  have inv: "us_consecutive_failures (fold (\<lambda>_. us_record_failure k) [0..<m] s) = of_nat m
      \<and> (us_healthy (fold (\<lambda>_. us_record_failure k) [0..<m] s) \<longleftrightarrow> m < unat k)" if "m \<le> n" for m
    using that
  proof (induction m)
    case 0
    then show ?case using assms by (simp add: unat_gt_0)
  next
    case (Suc m)
    have "unat (of_nat (Suc m) :: u64) = Suc m" using Suc.prems assms(5) by (simp add: unat_of_nat del: of_nat_Suc)
    then have "(ucast k \<le> (of_nat (Suc m) :: u64)) = (unat k \<le> Suc m)"
      by (simp add: word_le_nat_alt unat_ucast_u32 del: of_nat_Suc)
    with Suc show ?case by (auto simp: us_record_failure_def Let_def add.commute)
  qed
  from inv [of n] assms(4) show ?thesis by simp
qed

end
