(* ===== verification/Load_Balancer.thy ===== *)
theory Load_Balancer
  imports Upstream_Server
begin

text \<open>
  Upstream groups and the choice of a server (\<open>config.rs\<close>): construction, the five algorithms and
  the filter of available servers, which changes servers on its way (it ends ejections and spends
  probes of half-open breakers).  A server is named by its index.  The hash \<open>xxh3_64_with_seed\<close>
  belongs to a library and is a parameter.
\<close>

section \<open>Groups\<close>

datatype health_check_type = HcHttp | HcTcp | HcGrpc

record health_check_config =
  hcc_check_type :: health_check_type
  hcc_interval_secs :: u64
  hcc_path :: bytes
  hcc_timeout_secs :: u64
  hcc_healthy_statuses :: "u16 list"
  hcc_unhealthy_threshold :: u32
  hcc_healthy_threshold :: u32
  hcc_use_tls :: bool
  hcc_verify_cert :: bool

record upstream_server_entry =
  use_url :: bytes
  use_sni_name :: "bytes option"
  use_use_h2c :: bool
  use_weight :: u32

record 'f upstream_group =
  ug_name :: bytes
  ug_servers :: "upstream_server list"
  ug_algorithm :: load_balance_algorithm
  ug_rr_counter :: u64
  ug_health_check :: "health_check_config option"
  ug_tls_insecure :: bool
  ug_use_h2c :: bool
  ug_weighted_offsets :: "u32 list"
  ug_total_weight :: u32
  ug_consistent_ring :: "(u64 \<times> nat) list"
  ug_outlier_detection :: "'f outlier_config"

definition CONSISTENT_HASH_VNODES :: nat where
  "CONSISTENT_HASH_VNODES = 150"

definition CONSISTENT_HASH_SEED :: u64 where
  "CONSISTENT_HASH_SEED = 0x9E3779B97F4A7C15"

definition u32_saturating_add :: "u32 \<Rightarrow> u32 \<Rightarrow> u32" where
  "u32_saturating_add a b = (if unat a + unat b < 4294967296 then a + b else 0xFFFFFFFF)"

fun running_offsets :: "u32 \<Rightarrow> u32 list \<Rightarrow> u32 list" where
  "running_offsets acc [] = []"
| "running_offsets acc (w # ws) =
    (let acc = u32_saturating_add acc (max w 1) in acc # running_offsets acc ws)"

definition server_vnodes :: "(bytes \<Rightarrow> u64 \<Rightarrow> u64) \<Rightarrow> nat \<Rightarrow> upstream_server \<Rightarrow> (u64 \<times> nat) list" where
  "server_vnodes xxh3 idx server =
    (let id = pt_host (us_target server) @ ascii '':'' @ ascii (show_nat (unat (pt_port (us_target server))))
     in map (\<lambda>vnode. (xxh3 (id @ ascii ''#'' @ ascii (show_nat vnode)) CONSISTENT_HASH_SEED, idx))
            [0..<CONSISTENT_HASH_VNODES])"

definition build_ring :: "(bytes \<Rightarrow> u64 \<Rightarrow> u64) \<Rightarrow> upstream_server list \<Rightarrow> (u64 \<times> nat) list" where
  "build_ring xxh3 servers =
    sort_key fst (concat (map (\<lambda>(idx, server). server_vnodes xxh3 idx server) (enumerate 0 servers)))"

definition entry_server :: "upstream_server_entry \<Rightarrow> (upstream_server_entry \<times> upstream_server) option" where
  "entry_server entry =
    map_option (\<lambda>target. (entry, upstream_server_new (target_with_h2c (use_use_h2c entry) (with_sni_name (use_sni_name entry) target))))
      (proxy_target_parse (use_url entry))"

definition upstream_group_new ::
    "(bytes \<Rightarrow> u64 \<Rightarrow> u64) \<Rightarrow> 'f outlier_config \<Rightarrow> bytes \<Rightarrow> upstream_server_entry list \<Rightarrow> load_balance_algorithm
      \<Rightarrow> health_check_config option \<Rightarrow> bool \<Rightarrow> 'f upstream_group option" where
  "upstream_group_new xxh3 outlier_default name entries algorithm health_check tls_insecure =
    (let pairs = List.map_filter entry_server entries
     in if pairs = [] then None
        else
          let servers = map snd pairs;
              weighted_offsets = running_offsets 0 (map (use_weight \<circ> fst) pairs)
          in Some \<lparr>ug_name = name, ug_servers = servers, ug_algorithm = algorithm, ug_rr_counter = 0,
                   ug_health_check = health_check, ug_tls_insecure = tls_insecure, ug_use_h2c = False,
                   ug_weighted_offsets = weighted_offsets, ug_total_weight = last weighted_offsets,
                   ug_consistent_ring = build_ring xxh3 servers, ug_outlier_detection = outlier_default\<rparr>)"

definition with_resilience :: "circuit_breaker_config \<Rightarrow> 'f outlier_config \<Rightarrow> 'f upstream_group \<Rightarrow> 'f upstream_group" where
  "with_resilience cbc outlier g =
    (let g = (if cb_enabled cbc
              then g\<lparr>ug_servers := map (\<lambda>s. s\<lparr>us_circuit_breaker := Some (circuit_breaker_new cbc)\<rparr>) (ug_servers g)\<rparr>
              else g);
         g = (if oc_enabled outlier
              then g\<lparr>ug_servers := map (\<lambda>s. s\<lparr>us_error_rate_window :=
                     sliding_window_new (duration_secs (oc_interval_secs outlier))\<rparr>) (ug_servers g)\<rparr>
              else g)
     in g\<lparr>ug_outlier_detection := outlier\<rparr>)"

definition upstream_group_single :: "'f outlier_config \<Rightarrow> proxy_target \<Rightarrow> 'f upstream_group" where
  "upstream_group_single outlier_default target =
    \<lparr>ug_name = [], ug_servers = [upstream_server_new target], ug_algorithm = RoundRobin, ug_rr_counter = 0,
     ug_health_check = None, ug_tls_insecure = False, ug_use_h2c = False, ug_weighted_offsets = [1], ug_total_weight = 1,
     ug_consistent_ring = [], ug_outlier_detection = outlier_default\<rparr>"

definition group_with_h2c :: "bool \<Rightarrow> 'f upstream_group \<Rightarrow> 'f upstream_group" where
  "group_with_h2c use_h2c g = g\<lparr>ug_use_h2c := use_h2c\<rparr>"

section \<open>Selection\<close>

text \<open>
  One server passes the two filters if it is healthy, not ejected, and admitted by its breaker.
  The clock is read by \<open>is_ejected\<close> and by the breaker.
\<close>

definition admit_server :: "nat \<times> nat \<Rightarrow> upstream_server \<Rightarrow> upstream_server \<times> bool" where
  "admit_server clk s =
    (if us_healthy s
     then case is_ejected (fst clk) s of
            (s, True) \<Rightarrow> (s, False)
          | (s, False) \<Rightarrow>
             (case us_circuit_breaker s of
                Some cb \<Rightarrow> (case allow_request (snd clk) cb of (cb, ok) \<Rightarrow> (s\<lparr>us_circuit_breaker := Some cb\<rparr>, ok))
              | None \<Rightarrow> (s, True))
     else (s, False))"

definition candidates :: "(nat \<Rightarrow> nat \<times> nat) \<Rightarrow> 'f upstream_group \<Rightarrow> 'f upstream_group \<times> nat list" where
  "candidates clock g =
    (let scanned = map (\<lambda>(i, s). admit_server (clock i) s) (enumerate 0 (ug_servers g));
         g = g\<lparr>ug_servers := map fst scanned\<rparr>;
         avail = map fst (filter (snd \<circ> snd) (enumerate 0 scanned))
     in if avail \<noteq> [] then (g, avail)
        else (g, map fst (filter (us_healthy \<circ> snd) (enumerate 0 (ug_servers g)))))"

definition fnv1a :: "bytes \<Rightarrow> u64" where
  "fnv1a bytes = fold (\<lambda>byte hash. (hash XOR ucast byte) * 1099511628211) bytes 14695981039346656037"

fun min_position :: "('a \<Rightarrow> u64) \<Rightarrow> nat \<Rightarrow> nat \<Rightarrow> 'a \<Rightarrow> 'a list \<Rightarrow> nat" where
  "min_position key best i m [] = best"
| "min_position key best i m (x # xs) =
    (if key x < key m then min_position key i (Suc i) x xs else min_position key best (Suc i) m xs)"

definition weight_of :: "'f upstream_group \<Rightarrow> nat \<Rightarrow> u32" where
  "weight_of g orig_idx =
    (let offsets = ug_weighted_offsets g;
         prev = (if orig_idx = 0 then 0 else if orig_idx - 1 < length offsets then offsets ! (orig_idx - 1) else 0);
         cur = (if orig_idx < length offsets then offsets ! orig_idx else prev + 1)
     in max (if cur < prev then 0 else cur - prev) 1)"

fun cumulative :: "(nat \<Rightarrow> u32) \<Rightarrow> u32 \<Rightarrow> nat list \<Rightarrow> u32 list" where
  "cumulative weight acc [] = []"
| "cumulative weight acc (i # is) =
    (let acc = u32_saturating_add acc (weight i) in acc # cumulative weight acc is)"

definition select_weighted :: "nat list \<Rightarrow> 'f upstream_group \<Rightarrow> 'f upstream_group \<times> nat option" where
  "select_weighted cs g =
    (let cum = cumulative (weight_of g) 0 cs;
         total = (if cum = [] then 0 else last cum)
     in if total = 0 then (g, if cs = [] then None else Some (hd cs))
        else
          let pos = ucast (ug_rr_counter g) mod total;
              g = g\<lparr>ug_rr_counter := ug_rr_counter g + 1\<rparr>;
              idx = length (takeWhile (\<lambda>off. off \<le> pos) cum);
              ci = (if idx < length cum then idx else 0)
          in (g, if ci < length cs then Some (cs ! ci) else None))"

definition ring_from :: "u64 \<Rightarrow> (u64 \<times> nat) list \<Rightarrow> (u64 \<times> nat) list" where
  "ring_from h ring =
    (let start = length (takeWhile (\<lambda>(vh, _). vh < h) ring)
     in map (\<lambda>offset. ring ! ((start + offset) mod length ring)) [0..<length ring])"

definition select_consistent ::
    "(bytes \<Rightarrow> u64 \<Rightarrow> u64) \<Rightarrow> bytes \<Rightarrow> nat list \<Rightarrow> 'f upstream_group \<Rightarrow> nat option" where
  "select_consistent xxh3 key cs g =
    (let h = xxh3 key CONSISTENT_HASH_SEED
     in if ug_consistent_ring g = [] then Some (cs ! (unat h mod length cs))
        else
          case find (\<lambda>(_, server_idx). server_idx \<in> set cs) (ring_from h (ug_consistent_ring g)) of
            Some (_, server_idx) \<Rightarrow> Some server_idx
          | None \<Rightarrow> (if cs = [] then None else Some (hd cs)))"

definition select_with_key ::
    "(bytes \<Rightarrow> u64 \<Rightarrow> u64) \<Rightarrow> (nat \<Rightarrow> nat \<times> nat) \<Rightarrow> bytes \<Rightarrow> bytes option \<Rightarrow> 'f upstream_group
      \<Rightarrow> 'f upstream_group \<times> nat option" where
  "select_with_key xxh3 clock client_ip hash_value g =
    (case candidates clock g of (g, cs) \<Rightarrow>
       if cs = [] then (g, None)
       else
         case ug_algorithm g of
           RoundRobin \<Rightarrow>
             let counter = ug_rr_counter g
             in (g\<lparr>ug_rr_counter := counter + 1\<rparr>, Some (cs ! (unat counter mod length cs)))
         | LeastConnections \<Rightarrow>
             (g, Some (cs ! min_position (\<lambda>i. us_active_connections (ug_servers g ! i)) 0 1 (hd cs) (tl cs)))
         | IpHash \<Rightarrow> (g, Some (cs ! (unat (fnv1a client_ip) mod length cs)))
         | Weighted \<Rightarrow> select_weighted cs g
         | ConsistentHash hash_key \<Rightarrow>
             let key = (case hash_key of
                          HkIp \<Rightarrow> client_ip
                        | _ \<Rightarrow> (case hash_value of Some v \<Rightarrow> v | None \<Rightarrow> client_ip))
             in (g, select_consistent xxh3 key cs g))"

definition select ::
    "(bytes \<Rightarrow> u64 \<Rightarrow> u64) \<Rightarrow> (nat \<Rightarrow> nat \<times> nat) \<Rightarrow> bytes \<Rightarrow> 'f upstream_group \<Rightarrow> 'f upstream_group \<times> nat option" where
  "select xxh3 clock client_ip g = select_with_key xxh3 clock client_ip None g"

definition utf8_ok :: "bytes \<Rightarrow> bytes option" where
  "utf8_ok v = (if is_utf8 v then Some v else None)"

definition select_with_header_fn ::
    "(bytes \<Rightarrow> u64 \<Rightarrow> u64) \<Rightarrow> (nat \<Rightarrow> nat \<times> nat) \<Rightarrow> bytes \<Rightarrow> (bytes \<Rightarrow> bytes option) \<Rightarrow> 'f upstream_group
      \<Rightarrow> 'f upstream_group \<times> nat option" where
  "select_with_header_fn xxh3 clock client_ip get_header g =
    (case ug_algorithm g of
       ConsistentHash (HkHeader name) \<Rightarrow>
         select_with_key xxh3 clock client_ip (Option.bind (get_header name) utf8_ok) g
     | ConsistentHash (HkCookie name) \<Rightarrow>
         select_with_key xxh3 clock client_ip
           (Option.bind (Option.bind (get_header (ascii ''cookie'')) utf8_ok) (\<lambda>c. extract_cookie_value c name)) g
     | _ \<Rightarrow> select xxh3 clock client_ip g)"

definition group_record_outcome ::
    "(u64 \<Rightarrow> u64 \<Rightarrow> u64) \<Rightarrow> (nat \<Rightarrow> nat \<Rightarrow> 'f \<Rightarrow> bool) \<Rightarrow> outcome_clock \<Rightarrow> nat \<Rightarrow> bool \<Rightarrow> u64
      \<Rightarrow> 'f upstream_group \<Rightarrow> 'f upstream_group" where
  "group_record_outcome ewma rate_reached clk server_idx success latency_ms g =
    (if server_idx < length (ug_servers g)
     then g\<lparr>ug_servers := (ug_servers g)[server_idx :=
            record_outcome ewma rate_reached clk success latency_ms (Some (ug_outlier_detection g)) (ug_servers g ! server_idx)]\<rparr>
     else g)"

section \<open>Candidates\<close>

lemma is_ejected_keeps:
  "us_healthy (fst (is_ejected t s)) = us_healthy s"
  "us_active_connections (fst (is_ejected t s)) = us_active_connections s"
  "us_target (fst (is_ejected t s)) = us_target s"
  "us_circuit_breaker (fst (is_ejected t s)) = us_circuit_breaker s"
  by (auto simp: is_ejected_def split: option.splits)

lemma admit_server_keeps [simp]:
  "us_healthy (fst (admit_server clk s)) = us_healthy s"
  "us_active_connections (fst (admit_server clk s)) = us_active_connections s"
  "us_target (fst (admit_server clk s)) = us_target s"
  using is_ejected_keeps [of "fst clk" s]
  by (auto simp: admit_server_def split: prod.splits bool.splits option.splits)

lemma admit_server_healthy: "snd (admit_server clk s) \<Longrightarrow> us_healthy s"
  by (auto simp: admit_server_def split: if_splits)

text \<open>A server that has no breaker and is not ejected.\<close>

definition plain_server :: "upstream_server \<Rightarrow> bool" where
  "plain_server s \<longleftrightarrow> us_circuit_breaker s = None \<and> us_ejected_until s = None"

lemma admit_plain: "plain_server s \<Longrightarrow> admit_server clk s = (s, us_healthy s)"
  by (auto simp: admit_server_def plain_server_def is_ejected_def)

lemma map_fst_filter_enumerate: "map fst (filter (P \<circ> snd) (enumerate k xs)) = filter (\<lambda>i. P (xs ! (i - k))) [k..<k + length xs]"
proof -
  have "map fst (filter (P \<circ> snd) (enumerate k xs)) = map fst (filter (\<lambda>e. P (xs ! (fst e - k))) (enumerate k xs))"
    by (rule arg_cong [where f = "map fst"], rule filter_cong) (auto simp: in_set_enumerate_eq)
  also have "\<dots> = filter (\<lambda>i. P (xs ! (i - k))) (map fst (enumerate k xs))" unfolding filter_map comp_def ..
  finally show ?thesis by simp
qed

definition admitted :: "(nat \<Rightarrow> nat \<times> nat) \<Rightarrow> 'f upstream_group \<Rightarrow> nat \<Rightarrow> bool" where
  "admitted clock g i \<longleftrightarrow> i < length (ug_servers g) \<and> snd (admit_server (clock i) (ug_servers g ! i))"

definition healthy_at :: "'f upstream_group \<Rightarrow> nat \<Rightarrow> bool" where
  "healthy_at g i \<longleftrightarrow> i < length (ug_servers g) \<and> us_healthy (ug_servers g ! i)"

lemma admitted_healthy: "admitted clock g i \<Longrightarrow> healthy_at g i"
  using admit_server_healthy [of "clock i" "ug_servers g ! i"] by (auto simp: admitted_def healthy_at_def)

lemma candidates_eq:
  "candidates clock g =
    (g\<lparr>ug_servers := map (\<lambda>(i, s). fst (admit_server (clock i) s)) (enumerate 0 (ug_servers g))\<rparr>,
     if \<exists>i. admitted clock g i then filter (admitted clock g) [0..<length (ug_servers g)]
     else filter (healthy_at g) [0..<length (ug_servers g)])"
proof -
  let ?scan = "map (\<lambda>(i, s). admit_server (clock i) s) (enumerate 0 (ug_servers g))"
  let ?n = "length (ug_servers g)"
  have "map fst (filter (snd \<circ> snd) (enumerate 0 ?scan)) = filter (\<lambda>i. snd (?scan ! i)) [0..<?n]"
    using map_fst_filter_enumerate [of snd 0 ?scan] by simp
  also have "\<dots> = filter (admitted clock g) [0..<?n]"
    by (rule filter_cong) (auto simp: admitted_def nth_enumerate_eq)
  finally have a: "map fst (filter (snd \<circ> snd) (enumerate 0 ?scan)) = filter (admitted clock g) [0..<?n]" .
  have "map fst (filter (us_healthy \<circ> snd) (enumerate 0 (map fst ?scan))) = filter (\<lambda>i. us_healthy (map fst ?scan ! i)) [0..<?n]"
    using map_fst_filter_enumerate [of us_healthy 0 "map fst ?scan"] by simp
  also have "\<dots> = filter (healthy_at g) [0..<?n]"
    by (rule filter_cong) (auto simp: healthy_at_def nth_enumerate_eq)
  finally have h: "map fst (filter (us_healthy \<circ> snd) (enumerate 0 (map fst ?scan))) = filter (healthy_at g) [0..<?n]" .
  have s: "map fst ?scan = map (\<lambda>(i, s). fst (admit_server (clock i) s)) (enumerate 0 (ug_servers g))" by auto
  have e: "filter (admitted clock g) [0..<?n] \<noteq> [] \<longleftrightarrow> (\<exists>i. admitted clock g i)"
    by (auto simp: filter_empty_conv admitted_def)
  have u: "ug_servers (g\<lparr>ug_servers := ss\<rparr>) = ss" for ss by simp
  show ?thesis unfolding candidates_def Let_def a e u h unfolding s by (simp only: if_distrib [of "Pair _"])
qed

lemma candidates_set:
  assumes "candidates clock g = (g', cs)"
  shows "i \<in> set cs \<Longrightarrow> healthy_at g i" and "cs = [] \<longleftrightarrow> (\<forall>i. \<not> healthy_at g i)"
    and "i \<in> set cs \<Longrightarrow> admitted clock g j \<Longrightarrow> admitted clock g i" and "distinct cs"
    and "ug_algorithm g' = ug_algorithm g"
proof -
  from assms have cs: "cs = (if \<exists>i. admitted clock g i then filter (admitted clock g) [0..<length (ug_servers g)]
     else filter (healthy_at g) [0..<length (ug_servers g)])" and g': "ug_algorithm g' = ug_algorithm g"
    by (auto simp: candidates_eq)
  show "i \<in> set cs \<Longrightarrow> healthy_at g i" using cs admitted_healthy by (auto split: if_splits)
  show "cs = [] \<longleftrightarrow> (\<forall>i. \<not> healthy_at g i)"
    using cs admitted_healthy by (auto simp: filter_empty_conv healthy_at_def admitted_def split: if_splits)
  show "i \<in> set cs \<Longrightarrow> admitted clock g j \<Longrightarrow> admitted clock g i" using cs by (auto split: if_splits)
  show "distinct cs" using cs by (simp split: if_splits)
  show "ug_algorithm g' = ug_algorithm g" by (rule g')
qed

section \<open>Selection stays among the candidates\<close>

lemma min_position_bound: "best < i \<Longrightarrow> min_position key best i m xs < i + length xs"
  by (induction key best i m xs rule: min_position.induct) (fastforce simp: less_Suc_eq)+

lemma length_cumulative [simp]: "length (cumulative w acc cs) = length cs"
  by (induction w acc cs rule: cumulative.induct) (auto simp: Let_def)

lemma select_weighted_in: "cs \<noteq> [] \<Longrightarrow> \<exists>i \<in> set cs. snd (select_weighted cs g) = Some i"
  by (auto simp: select_weighted_def Let_def)

lemma select_consistent_in: "cs \<noteq> [] \<Longrightarrow> \<exists>i \<in> set cs. select_consistent xxh3 key cs g = Some i"
  by (auto simp: select_consistent_def Let_def find_Some_iff split: option.splits)

lemma select_in_candidates:
  assumes "candidates clock g = (g', cs)"
  shows "snd (select_with_key xxh3 clock ip v g) = None \<longleftrightarrow> cs = []"
    and "snd (select_with_key xxh3 clock ip v g) = Some i \<Longrightarrow> i \<in> set cs"
proof -
  have "cs \<noteq> [] \<Longrightarrow> \<exists>i \<in> set cs. snd (select_with_key xxh3 clock ip v g) = Some i"
  proof (cases "ug_algorithm g'")
    case LeastConnections
    moreover assume "cs \<noteq> []"
    moreover have "min_position key 0 1 (hd cs) (tl cs) < length cs" for key
      using \<open>cs \<noteq> []\<close> min_position_bound [of 0 1 key "hd cs" "tl cs"] by (cases cs) auto
    ultimately show ?thesis using assms by (simp add: select_with_key_def)
  next
    case (ConsistentHash hk)
    moreover assume "cs \<noteq> []"
    ultimately show ?thesis using assms select_consistent_in [OF \<open>cs \<noteq> []\<close>] by (simp add: select_with_key_def Let_def)
  qed (use assms select_weighted_in in \<open>auto simp: select_with_key_def Let_def\<close>)
  moreover have "cs = [] \<Longrightarrow> snd (select_with_key xxh3 clock ip v g) = None" using assms by (simp add: select_with_key_def)
  ultimately show "snd (select_with_key xxh3 clock ip v g) = None \<longleftrightarrow> cs = []"
    and "snd (select_with_key xxh3 clock ip v g) = Some i \<Longrightarrow> i \<in> set cs" by fastforce+
qed

section \<open>Weighted round robin\<close>

text \<open>One cycle: every candidate as often as it weighs.\<close>

definition wrr_cycle :: "(nat \<Rightarrow> nat) \<Rightarrow> nat list \<Rightarrow> nat list" where
  "wrr_cycle weight cs = concat (map (\<lambda>i. replicate (weight i) i) cs)"

lemma length_wrr_cycle [simp]: "length (wrr_cycle weight cs) = sum_list (map weight cs)"
  by (simp add: wrr_cycle_def length_concat comp_def)

lemma count_wrr_cycle: "distinct cs \<Longrightarrow> count_list (wrr_cycle weight cs) i = (if i \<in> set cs then weight i else 0)"
proof (induction cs)
  case (Cons c cs)
  have "count_list (replicate n c) i = (if c = i then n else 0)" for n by (induction n) auto
  with Cons show ?case by (auto simp: wrr_cycle_def)
qed (simp add: wrr_cycle_def)

lemma u32_saturating_add_small:
  "unat a + unat b < 4294967296 \<Longrightarrow> unat (u32_saturating_add a b) = unat a + unat b"
  by (simp add: u32_saturating_add_def unat_word_ariths)

text \<open>The binary search in the running sums finds the candidate at this place of the cycle.\<close>

lemma cumulative_last:
  assumes "unat acc + sum_list (map (\<lambda>i. unat (w i)) cs) < 4294967296" "cs \<noteq> []"
  shows "unat (last (cumulative w acc cs)) = unat acc + sum_list (map (\<lambda>i. unat (w i)) cs)"
  using assms
proof (induction w acc cs rule: cumulative.induct)
  case (2 w acc i cs)
  then have a: "unat (u32_saturating_add acc (w i)) = unat acc + unat (w i)"
    by (intro u32_saturating_add_small) simp
  show ?case
  proof (cases cs)
    case Nil
    with a show ?thesis by simp
  next
    case (Cons j js)
    have ne: "cumulative w (u32_saturating_add acc (w i)) cs \<noteq> []"
      using Cons by (metis length_0_conv length_cumulative list.distinct(1))
    with 2 a Cons show ?thesis by (simp add: Let_def del: cumulative.simps(2)) (simp add: Let_def)
  qed
qed simp

lemma cumulative_search:
  assumes "unat acc + sum_list (map (\<lambda>i. unat (w i)) cs) < 4294967296"
    and "unat acc \<le> unat pos" "unat pos < unat acc + sum_list (map (\<lambda>i. unat (w i)) cs)"
  shows "length (takeWhile (\<lambda>off. off \<le> pos) (cumulative w acc cs)) < length cs
    \<and> cs ! length (takeWhile (\<lambda>off. off \<le> pos) (cumulative w acc cs)) = wrr_cycle (\<lambda>i. unat (w i)) cs ! (unat pos - unat acc)"
  using assms
proof (induction cs arbitrary: acc)
  case (Cons i cs)
  let ?acc = "u32_saturating_add acc (w i)"
  have a: "unat ?acc = unat acc + unat (w i)"
    using Cons.prems by (intro u32_saturating_add_small) simp
  show ?case
  proof (cases "unat acc + unat (w i) \<le> unat pos")
    case True
    then have "wrr_cycle (\<lambda>i. unat (w i)) (i # cs) ! (unat pos - unat acc) = wrr_cycle (\<lambda>i. unat (w i)) cs ! (unat pos - (unat acc + unat (w i)))"
      by (auto simp: wrr_cycle_def nth_append)
    with Cons.IH [of ?acc] True a Cons.prems show ?thesis by (simp add: Let_def word_le_nat_alt)
  next
    case False
    then have "unat pos - unat acc < unat (w i)" using Cons.prems(2) by linarith
    then have "wrr_cycle (\<lambda>i. unat (w i)) (i # cs) ! (unat pos - unat acc) = i"
      by (simp add: wrr_cycle_def nth_append)
    with False a show ?thesis by (simp add: Let_def word_le_nat_alt)
  qed
qed simp

lemma select_weighted_cycle:
  assumes "sum_list (map (\<lambda>i. unat (weight_of g i)) cs) < 4294967296" "0 < sum_list (map (\<lambda>i. unat (weight_of g i)) cs)"
  shows "select_weighted cs g = (g\<lparr>ug_rr_counter := ug_rr_counter g + 1\<rparr>,
    Some (wrr_cycle (\<lambda>i. unat (weight_of g i)) cs !
      (unat (ucast (ug_rr_counter g) :: u32) mod sum_list (map (\<lambda>i. unat (weight_of g i)) cs))))"
proof -
  let ?W = "sum_list (map (\<lambda>i. unat (weight_of g i)) cs)"
  let ?cum = "cumulative (weight_of g) 0 cs"
  have ne: "cs \<noteq> []" using assms(2) by auto
  then have "?cum \<noteq> []" by (metis length_0_conv length_cumulative)
  have total: "unat (last ?cum) = ?W" using cumulative_last [of 0 "weight_of g" cs] assms(1) ne by simp
  let ?pos = "ucast (ug_rr_counter g) mod last ?cum :: u32"
  have pos: "unat ?pos = unat (ucast (ug_rr_counter g) :: u32) mod ?W" using total by (simp add: unat_mod_distrib)
  then have "unat ?pos < ?W" using assms(2) by simp
  with cumulative_search [of 0 "weight_of g" cs ?pos] assms(1)
  have "length (takeWhile (\<lambda>off. off \<le> ?pos) ?cum) < length cs"
    "cs ! length (takeWhile (\<lambda>off. off \<le> ?pos) ?cum) = wrr_cycle (\<lambda>i. unat (weight_of g i)) cs ! unat ?pos" by auto
  moreover have "last ?cum \<noteq> 0" using total assms(2) by (metis less_numeral_extra(3) unsigned_0)
  ultimately show ?thesis using \<open>?cum \<noteq> []\<close> pos by (simp add: select_weighted_def Let_def)
qed

text \<open>The weights a group was configured with.\<close>

lemma running_offsets_nth:
  assumes "unat acc + sum_list (map (\<lambda>w. max (unat w) 1) ws) < 4294967296" "k < length ws"
  shows "unat (running_offsets acc ws ! k) = unat acc + sum_list (map (\<lambda>w. max (unat w) 1) (take (Suc k) ws))"
  using assms
proof (induction acc ws arbitrary: k rule: running_offsets.induct)
  case (2 acc w ws)
  have m: "unat (max w 1) = max (unat w) 1" by (auto simp: max_def word_le_nat_alt)
  have a: "unat (u32_saturating_add acc (max w 1)) = unat acc + max (unat w) 1"
    using 2 m by (subst u32_saturating_add_small) auto
  show ?case
  proof (cases k)
    case (Suc j)
    with 2 a show ?thesis by (simp add: Let_def)
  qed (simp add: a Let_def)
qed simp

lemma length_running_offsets [simp]: "length (running_offsets acc ws) = length ws"
  by (induction acc ws rule: running_offsets.induct) (auto simp: Let_def)

lemma weight_of_configured:
  assumes "ug_weighted_offsets g = running_offsets 0 ws" "sum_list (map (\<lambda>w. max (unat w) 1) ws) < 4294967296"
    and "i < length ws"
  shows "unat (weight_of g i) = max (unat (ws ! i)) 1"
proof -
  have nth: "k < length ws \<Longrightarrow> unat (running_offsets 0 ws ! k) = sum_list (map (\<lambda>w. max (unat w) 1) (take (Suc k) ws))" for k
    using running_offsets_nth [of 0 ws k] assms(2) by simp
  have cur: "unat (running_offsets 0 ws ! i) = sum_list (map (\<lambda>w. max (unat w) 1) (take i ws)) + max (unat (ws ! i)) 1"
    using nth [OF assms(3)] assms(3) by (simp add: take_Suc_conv_app_nth)
  define prev where "prev = (if i = 0 then 0 else running_offsets 0 ws ! (i - 1))"
  have p: "unat prev = sum_list (map (\<lambda>w. max (unat w) 1) (take i ws))"
    using nth [of "i - 1"] assms(3) by (cases i) (auto simp: prev_def)
  have "\<not> running_offsets 0 ws ! i < prev" using cur p by (simp add: word_less_nat_alt)
  moreover have "unat (running_offsets 0 ws ! i - prev) = max (unat (ws ! i)) 1"
    using cur p by (subst unat_sub) (simp_all add: word_le_nat_alt)
  ultimately show ?thesis
    using assms(1,3) by (auto simp: weight_of_def prev_def Let_def max_def word_le_nat_alt split: if_splits)
qed

text \<open>A group whose servers have no breaker and are not ejected offers its healthy servers.\<close>

lemma candidates_plain:
  assumes "\<forall>s \<in> set (ug_servers g). plain_server s"
  shows "candidates clock g = (g, filter (healthy_at g) [0..<length (ug_servers g)])"
proof -
  have adm: "admitted clock g = healthy_at g"
    using assms by (auto simp: fun_eq_iff admitted_def healthy_at_def admit_plain)
  have "map (\<lambda>(i, s). fst (admit_server (clock i) s)) (enumerate 0 (ug_servers g)) = map snd (enumerate 0 (ug_servers g))"
    using assms by (intro map_cong) (auto simp: admit_plain in_set_enumerate_eq)
  then have srv: "g\<lparr>ug_servers := map (\<lambda>(i, s). fst (admit_server (clock i) s)) (enumerate 0 (ug_servers g))\<rparr> = g" by simp
  have "\<not> (\<exists>i. healthy_at g i) \<Longrightarrow> filter (healthy_at g) [0..<length (ug_servers g)] = []" by (simp add: filter_empty_conv)
  then show ?thesis unfolding candidates_eq adm srv by simp
qed

fun select_times :: "(bytes \<Rightarrow> u64 \<Rightarrow> u64) \<Rightarrow> (nat \<Rightarrow> nat \<Rightarrow> nat \<times> nat) \<Rightarrow> bytes \<Rightarrow> nat \<Rightarrow> 'f upstream_group \<Rightarrow> nat option list" where
  "select_times xxh3 clock ip 0 g = []"
| "select_times xxh3 clock ip (Suc n) g =
    (case select xxh3 (clock n) ip g of (g, r) \<Rightarrow> r # select_times xxh3 clock ip n g)"

lemma u32_of_u64: "unat (ucast (c :: u64) :: u32) = unat c mod 4294967296"
  by (simp add: unsigned_ucast_eq unsigned_take_bit_eq take_bit_eq_mod)

lemma u32_of_counter: "unat (ucast (c + 1 :: u64) :: u32) = (unat (ucast c :: u32) + 1) mod 4294967296"
  by (simp add: u32_of_u64 unat_word_ariths mod_mod_cancel mod_simps)

lemma select_times_cycle:
  assumes "\<forall>s \<in> set (ug_servers g). plain_server s" "ug_algorithm g = Weighted"
    and "cs = filter (healthy_at g) [0..<length (ug_servers g)]"
    and "W = sum_list (map (\<lambda>i. unat (weight_of g i)) cs)" "0 < W" "W < 4294967296"
    and "unat (ucast (ug_rr_counter g) :: u32) + n \<le> 4294967296"
  shows "select_times xxh3 clock ip n g =
    map (\<lambda>k. Some (wrr_cycle (\<lambda>i. unat (weight_of g i)) cs ! ((unat (ucast (ug_rr_counter g) :: u32) + k) mod W))) [0..<n]"
  using assms
proof (induction n arbitrary: g)
  case (Suc n)
  let ?g = "g\<lparr>ug_rr_counter := ug_rr_counter g + 1\<rparr>"
  let ?u = "unat (ucast (ug_rr_counter g) :: u32)"
  have w: "weight_of ?g = weight_of g" and h: "healthy_at ?g = healthy_at g"
    by (auto simp: fun_eq_iff weight_of_def healthy_at_def)
  have "cs \<noteq> []" using Suc.prems by auto
  then have sel: "select xxh3 (clock n) ip g = (?g, Some (wrr_cycle (\<lambda>i. unat (weight_of g i)) cs ! (?u mod W)))"
    using Suc.prems candidates_plain [OF Suc.prems(1)] select_weighted_cycle [of g cs]
    by (simp add: select_def select_with_key_def)
  show ?case
  proof (cases n)
    case 0
    with sel show ?thesis by simp
  next
    case (Suc m)
    then have u: "unat (ucast (ug_rr_counter g + 1) :: u32) = Suc ?u" using Suc.prems(7) by (simp add: u32_of_counter)
    have "select_times xxh3 clock ip n ?g =
      map (\<lambda>k. Some (wrr_cycle (\<lambda>i. unat (weight_of g i)) cs ! ((Suc ?u + k) mod W))) [0..<n]"
      using Suc.IH [of ?g] Suc.prems u w h by simp
    moreover have "map f [0..<Suc n] = f 0 # map (\<lambda>k. f (Suc k)) [0..<n]" for f :: "nat \<Rightarrow> nat option"
      by (simp add: upt_conv_Cons map_Suc_upt [symmetric] comp_def del: upt_Suc)
    ultimately show ?thesis using sel by (simp del: upt_Suc)
  qed
qed simp

lemma select_times_count:
  assumes "\<forall>s \<in> set (ug_servers g). plain_server s" "ug_algorithm g = Weighted"
    and "cs = filter (healthy_at g) [0..<length (ug_servers g)]"
    and "W = sum_list (map (\<lambda>i. unat (weight_of g i)) cs)" "0 < W" "W < 4294967296"
    and "unat (ucast (ug_rr_counter g) :: u32) + W \<le> 4294967296" "i \<in> set cs"
  shows "count_list (select_times xxh3 clock ip W g) (Some i) = unat (weight_of g i)"
proof -
  let ?c = "wrr_cycle (\<lambda>i. unat (weight_of g i)) cs" and ?u = "unat (ucast (ug_rr_counter g) :: u32)"
  have len: "length ?c = W" using assms(4) by simp
  have "select_times xxh3 clock ip W g = map Some (map (\<lambda>k. ?c ! ((?u + k) mod W)) [0..<W])"
    using select_times_cycle [OF assms(1-7)] by simp
  also have "map (\<lambda>k. ?c ! ((?u + k) mod W)) [0..<W] = rotate ?u ?c"
    using len by (intro nth_equalityI) (auto simp: nth_rotate)
  finally have "count_list (select_times xxh3 clock ip W g) (Some i) = count_list (rotate ?u ?c) i"
    by (simp add: count_list_map_conv)
  also have "\<dots> = count_list ?c i"
  proof -
    have "count_list (rotate k xs) i = count_list xs i" for k xs
    proof (induction k)
      case (Suc k)
      have "count_list (rotate1 ys) i = count_list ys i" for ys by (cases ys) auto
      with Suc show ?case by simp
    qed simp
    then show ?thesis .
  qed
  also have "\<dots> = unat (weight_of g i)" using count_wrr_cycle [of cs] assms(3,8) by simp
  finally show ?thesis .
qed

text \<open>What construction establishes.\<close>

definition entry_weights :: "upstream_server_entry list \<Rightarrow> u32 list" where
  "entry_weights entries = map (use_weight \<circ> fst) (List.map_filter entry_server entries)"

lemma group_new_weights:
  assumes "upstream_group_new xxh3 oc name entries algorithm hc tls = Some g"
  shows "ug_weighted_offsets g = running_offsets 0 (entry_weights entries)"
    and "length (ug_servers g) = length (entry_weights entries)" "ug_algorithm g = algorithm"
  using assms by (auto simp: upstream_group_new_def entry_weights_def Let_def split: if_splits)

section \<open>Consistent hashing\<close>

lemma find_subset:
  "find P xs = Some x \<Longrightarrow> Q x \<Longrightarrow> (\<And>y. Q y \<Longrightarrow> P y) \<Longrightarrow> find Q xs = Some x"
  by (induction xs) (auto split: if_splits)

lemma ring_from_set: "set (ring_from h ring) = set ring"
proof (cases "ring = []")
  case False
  let ?k = "length (takeWhile (\<lambda>(vh, _). vh < h) ring)"
  have "ring_from h ring = rotate ?k ring"
    by (intro nth_equalityI) (auto simp: ring_from_def nth_rotate Let_def)
  then show ?thesis by simp
qed (simp add: ring_from_def)

lemma ring_has_every_server: "i < length ss \<Longrightarrow> \<exists>vh. (vh, i) \<in> set (build_ring xxh3 ss)"
proof -
  assume i: "i < length ss"
  then have "(i, ss ! i) \<in> set (enumerate 0 ss)" by (simp add: in_set_enumerate_eq)
  moreover have "\<exists>vh. (vh, i) \<in> set (server_vnodes xxh3 i (ss ! i))"
    by (auto simp: server_vnodes_def CONSISTENT_HASH_VNODES_def Let_def intro!: image_eqI [where x = 0])
  ultimately show ?thesis by (force simp: build_ring_def)
qed

lemma find_in_ring:
  assumes "\<And>i. i \<in> set cs \<Longrightarrow> \<exists>vh. (vh, i) \<in> set ring" "cs \<noteq> []"
  shows "\<exists>vh i. find (\<lambda>(_, server_idx). server_idx \<in> set cs) (ring_from h ring) = Some (vh, i)"
proof -
  from assms obtain vh i where "(vh, i) \<in> set (ring_from h ring)" "i \<in> set cs"
    by (metis list.set_intros(1) neq_Nil_conv ring_from_set)
  then show ?thesis by (cases "find (\<lambda>(_, server_idx). server_idx \<in> set cs) (ring_from h ring)") (auto simp: find_None_iff)
qed

lemma select_consistent_servers [simp]:
  "select_consistent xxh3 key cs (g\<lparr>ug_servers := ss\<rparr>) = select_consistent xxh3 key cs g"
  by (simp add: select_consistent_def Let_def)

lemma select_by_hash:
  assumes "candidates clock g = (g', cs)" "cs \<noteq> []" "ug_algorithm g = ConsistentHash hk"
  shows "snd (select_with_key xxh3 clock ip v g) =
    select_consistent xxh3 (case hk of HkIp \<Rightarrow> ip | _ \<Rightarrow> (case v of Some v \<Rightarrow> v | None \<Rightarrow> ip)) cs g'"
  using assms candidates_set(5) [OF assms(1)] by (simp add: select_with_key_def Let_def)

text \<open>Fewer candidates move only the keys of those that left.\<close>

lemma select_consistent_stable:
  assumes "select_consistent xxh3 key cs g = Some i" "i \<in> set cs'" "set cs' \<subseteq> set cs"
    and "\<And>i. i \<in> set cs \<Longrightarrow> \<exists>vh. (vh, i) \<in> set (ug_consistent_ring g)"
  shows "select_consistent xxh3 key cs' g = Some i"
proof -
  let ?ring = "ring_from (xxh3 key CONSISTENT_HASH_SEED) (ug_consistent_ring g)"
  have ne: "cs \<noteq> []" using assms(2,3) by auto
  then have r: "ug_consistent_ring g \<noteq> []" using assms(4) by (metis list.set_intros(1) list.set_sel(1) empty_iff list.set(1))
  from find_in_ring [OF assms(4) ne] obtain vh j where
    f: "find (\<lambda>(_, server_idx). server_idx \<in> set cs) ?ring = Some (vh, j)" by blast
  with assms(1) r have "j = i" by (simp add: select_consistent_def Let_def)
  with find_subset [OF f, of "\<lambda>(_, server_idx). server_idx \<in> set cs'"] assms(2,3)
  have "find (\<lambda>(_, server_idx). server_idx \<in> set cs') ?ring = Some (vh, i)" by auto
  with r show ?thesis by (simp add: select_consistent_def Let_def)
qed

text \<open>
  The filter of available servers asks every half-open breaker, and thereby spends a probe of a
  server that is then not selected.
\<close>

lemma select_spends_probe:
  assumes "i < length (ug_servers g)" "us_healthy (ug_servers g ! i)" "us_ejected_until (ug_servers g ! i) = None"
    and "us_circuit_breaker (ug_servers g ! i) = Some cb" "cb_state cb = CbHalfOpen p s"
    and "p < cb_half_open_probes (cb_config cb)"
  shows "us_circuit_breaker (ug_servers (fst (candidates clock g)) ! i) = Some (cb\<lparr>cb_state := CbHalfOpen (p + 1) s\<rparr>)"
  using assms by (simp add: candidates_eq nth_enumerate_eq admit_server_def is_ejected_def allow_request_def)

section \<open>A group of three\<close>

definition sample_entry :: "string \<Rightarrow> u32 \<Rightarrow> upstream_server_entry" where
  "sample_entry host weight = \<lparr>use_url = ascii ''http://'' @ ascii host, use_sni_name = None, use_use_h2c = False, use_weight = weight\<rparr>"

definition sample_server :: "string \<Rightarrow> upstream_server" where
  "sample_server host = upstream_server_new
    \<lparr>pt_host = ascii host, pt_port = 80, pt_use_tls = False, pt_path_prefix = ascii ''/'', pt_sni_name = None, pt_use_h2c = False\<rparr>"

definition sample_outlier :: "unit outlier_config" where
  "sample_outlier = \<lparr>oc_enabled = False, oc_error_rate_threshold = (), oc_interval_secs = 10,
    oc_base_ejection_time_secs = 30, oc_max_ejection_percent = 50\<rparr>"

definition sample_group :: "load_balance_algorithm \<Rightarrow> unit upstream_group" where
  "sample_group algorithm = the (upstream_group_new (\<lambda>bs seed. seed + of_nat (length bs)) sample_outlier []
    [sample_entry ''a'' 2, sample_entry ''b'' 1, sample_entry ''c'' 3] algorithm None False)"

lemma sample_entry_server:
  "entry_server (sample_entry ''a'' w) = Some (sample_entry ''a'' w, sample_server ''a'')"
  "entry_server (sample_entry ''b'' w) = Some (sample_entry ''b'' w, sample_server ''b'')"
  "entry_server (sample_entry ''c'' w) = Some (sample_entry ''c'' w, sample_server ''c'')"
  by (simp_all add: entry_server_def sample_entry_def sample_server_def proxy_target_parse_def strip_prefix_def
      target_with_h2c_def with_sni_name_def)

lemma sample_group_new:
  "upstream_group_new (\<lambda>bs seed. seed + of_nat (length bs)) sample_outlier []
    [sample_entry ''a'' 2, sample_entry ''b'' 1, sample_entry ''c'' 3] algorithm None False = Some (sample_group algorithm)"
  "ug_servers (sample_group algorithm) = [sample_server ''a'', sample_server ''b'', sample_server ''c'']"
  "ug_algorithm (sample_group algorithm) = algorithm" "ug_rr_counter (sample_group algorithm) = 0"
  "entry_weights [sample_entry ''a'' 2, sample_entry ''b'' 1, sample_entry ''c'' 3] = [2, 1, 3]"
  by (simp_all add: sample_group_def upstream_group_new_def List.map_filter_simps sample_entry_server entry_weights_def Let_def)
    (simp_all add: sample_entry_def)



text \<open>C37: Weighted round robin is exact.  Take a group as it is configured, with weights that sum to
  less than \<open>2^32\<close>, any of its servers healthy, none ejected or behind a breaker, and any position
  of the counter that does not wrap in the next round.  Among as many consecutive selections as the
  healthy servers weigh together, each healthy server is selected exactly as often as it weighs.\<close>

theorem weighted_fair:
  assumes "upstream_group_new xxh3 oc name entries Weighted hc tls = Some g0"
    and "sum_list (map (\<lambda>w. max (unat w) 1) (entry_weights entries)) < 4294967296"
    and "g = g0\<lparr>ug_servers := ss, ug_rr_counter := c\<rparr>" "length ss = length (ug_servers g0)" "\<forall>s \<in> set ss. plain_server s"
    and "W = sum_list (map (\<lambda>i. max (unat (entry_weights entries ! i)) 1) (filter (healthy_at g) [0..<length ss]))"
    and "unat (ucast c :: u32) + W \<le> 4294967296" "healthy_at g i"
  shows "count_list (select_times xxh3 clock ip W g) (Some i) = max (unat (entry_weights entries ! i)) 1"
proof -
  note new = group_new_weights [OF assms(1)]
  let ?cs = "filter (healthy_at g) [0..<length ss]"
  have w: "unat (weight_of g j) = max (unat (entry_weights entries ! j)) 1" if "j < length ss" for j
    using weight_of_configured [of g "entry_weights entries" j] new assms(2,3,4) that by simp
  have i: "i < length ss" "i \<in> set ?cs" using assms(3,8) by (auto simp: healthy_at_def)
  have W: "W = sum_list (map (\<lambda>i. unat (weight_of g i)) ?cs)"
    unfolding assms(6) using w by (intro arg_cong [where f = sum_list] map_cong) auto
  have "max (unat (entry_weights entries ! i)) 1 \<le> W"
    unfolding assms(6) using i(2) by (intro member_le_sum_list) auto
  then have "0 < W" by simp
  have "W \<le> sum_list (map (\<lambda>i. max (unat (entry_weights entries ! i)) 1) [0..<length ss])"
    unfolding assms(6) by (induction "[0..<length ss]") (auto intro: sum_list_filter_le_nat)
  also have "map (\<lambda>i. max (unat (entry_weights entries ! i)) 1) [0..<length ss] = map (\<lambda>w. max (unat w) 1) (entry_weights entries)"
    using new(2) assms(4) by (intro nth_equalityI) auto
  finally have "W < 4294967296" using assms(2) by simp
  with select_times_count [of g ?cs W i xxh3 clock ip] W \<open>0 < W\<close> i new(3) assms w show ?thesis by simp
qed

theorem weighted_fair_witness:
  "let g = (sample_group Weighted)\<lparr>ug_servers :=
         [sample_server ''a'', (sample_server ''b'')\<lparr>us_healthy := False\<rparr>, sample_server ''c''], ug_rr_counter := 7\<rparr>
   in count_list (select_times (\<lambda>bs seed. seed + of_nat (length bs)) (\<lambda>_ _. (0, 0)) [] 5 g) (Some 2) = 3"
proof -
  let ?ss = "[sample_server ''a'', (sample_server ''b'')\<lparr>us_healthy := False\<rparr>, sample_server ''c'']"
  let ?ws = "entry_weights [sample_entry ''a'' 2, sample_entry ''b'' 1, sample_entry ''c'' 3]"
  define g where "g = (sample_group Weighted)\<lparr>ug_servers := ?ss, ug_rr_counter := 7\<rparr>"
  have h: "healthy_at g 0" "\<not> healthy_at g 1" "healthy_at g 2"
    by (simp_all add: g_def healthy_at_def sample_server_def upstream_server_new_def)
  have "[0..<length ?ss] = [0, 1, 2]" by (simp add: upt_rec)
  with h have "filter (healthy_at g) [0..<length ?ss] = [0, 2]" by (simp add: numeral_2_eq_2)
  then have W: "5 = sum_list (map (\<lambda>i. max (unat (?ws ! i)) 1) (filter (healthy_at g) [0..<length ?ss]))"
    by (simp only: sample_group_new(5)) simp
  have "count_list (select_times (\<lambda>bs seed. seed + of_nat (length bs)) (\<lambda>_ _. (0, 0)) [] 5 g) (Some 2) = max (unat (?ws ! 2)) 1"
  proof (rule weighted_fair [OF sample_group_new(1) _ g_def _ _ W _ h(3)])
    show "sum_list (map (\<lambda>w. max (unat w) 1) ?ws) < 4294967296" by (simp only: sample_group_new(5)) simp
    show "length ?ss = length (ug_servers (sample_group Weighted))" by (simp add: sample_group_new(2))
    show "\<forall>s \<in> set ?ss. plain_server s" by (simp add: plain_server_def sample_server_def upstream_server_new_def)
    show "unat (ucast (7 :: u64) :: u32) + 5 \<le> 4294967296" by simp
  qed
  then show ?thesis unfolding Let_def g_def [symmetric] by (simp only: sample_group_new(5)) simp
qed

text \<open>C38: Consistent hashing moves no key without need.  For a configured group with consistent
  hashing, whatever the hash function: if servers become unhealthy, every client whose server is
  still healthy stays with it.\<close>

theorem consistent_stable:
  assumes "upstream_group_new xxh3 oc name entries (ConsistentHash hk) hc tls = Some g0"
    and "length ss = length (ug_servers g0)" "\<forall>s \<in> set ss. plain_server s"
    and "length ss' = length ss" "\<forall>s \<in> set ss'. plain_server s"
    and "\<forall>j < length ss. us_healthy (ss' ! j) \<longrightarrow> us_healthy (ss ! j)"
    and "snd (select_with_key xxh3 clock ip v (g0\<lparr>ug_servers := ss\<rparr>)) = Some i" "us_healthy (ss' ! i)"
  shows "snd (select_with_key xxh3 clock' ip v (g0\<lparr>ug_servers := ss'\<rparr>)) = Some i"
proof -
  let ?g = "g0\<lparr>ug_servers := ss\<rparr>" and ?g' = "g0\<lparr>ug_servers := ss'\<rparr>"
  let ?cs = "filter (healthy_at ?g) [0..<length ss]" and ?cs' = "filter (healthy_at ?g') [0..<length ss']"
  note new = group_new_weights [OF assms(1)]
  have ring: "ug_consistent_ring g0 = build_ring xxh3 (ug_servers g0)"
    using assms(1) by (auto simp: upstream_group_new_def Let_def split: if_splits)
  have c: "candidates clock ?g = (?g, ?cs)" "candidates clock' ?g' = (?g', ?cs')"
    using candidates_plain [of ?g] candidates_plain [of ?g'] assms(3,5) by simp_all
  let ?key = "case hk of HkIp \<Rightarrow> ip | _ \<Rightarrow> (case v of Some v \<Rightarrow> v | None \<Rightarrow> ip)"
  from select_in_candidates(2) [OF c(1) assms(7)] have i: "i \<in> set ?cs" .
  then have i': "i \<in> set ?cs'" using assms(4,8) by (auto simp: healthy_at_def)
  have ne: "?cs \<noteq> []" "?cs' \<noteq> []" using i i' by (metis empty_iff list.set(1))+
  have alg: "ug_algorithm ?g = ConsistentHash hk" "ug_algorithm ?g' = ConsistentHash hk" using new(3) by simp_all
  have "select_consistent xxh3 ?key ?cs g0 = Some i"
    using select_by_hash [OF c(1) ne(1) alg(1), of xxh3 ip v] assms(7) unfolding select_consistent_servers by metis
  moreover have "set ?cs' \<subseteq> set ?cs" using assms(4,6) by (auto simp: healthy_at_def)
  moreover have "j \<in> set ?cs \<Longrightarrow> \<exists>vh. (vh, j) \<in> set (ug_consistent_ring g0)" for j
    using ring ring_has_every_server [of j "ug_servers g0" xxh3] assms(2) by auto
  ultimately have "select_consistent xxh3 ?key ?cs' g0 = Some i" using select_consistent_stable i' by blast
  then show ?thesis
    using select_by_hash [OF c(2) ne(2) alg(2), of xxh3 ip v] unfolding select_consistent_servers by metis
qed

theorem consistent_stable_witness:
  "let g = sample_group (ConsistentHash HkIp); h = (\<lambda>bs seed. seed + of_nat (length bs))
   in \<exists>i < 3. snd (select_with_key h (\<lambda>_. (0, 0)) [] None g) = Some i
      \<and> snd (select_with_key h (\<lambda>_. (1, 1)) [] None (g\<lparr>ug_servers := (ug_servers g)[(i + 1) mod 3 :=
            (ug_servers g ! ((i + 1) mod 3))\<lparr>us_healthy := False\<rparr>]\<rparr>)) = Some i"
proof -
  define g where "g = sample_group (ConsistentHash HkIp)"
  let ?h = "\<lambda>bs seed :: u64. seed + of_nat (length (bs :: bytes))" and ?ss = "ug_servers g"
  have len: "length ?ss = 3" by (simp add: g_def sample_group_new(2))
  have p: "plain_server s" "us_healthy s" if "s \<in> set ?ss" for s
    using that by (auto simp: g_def sample_group_new(2) plain_server_def sample_server_def upstream_server_new_def)
  have c: "candidates (\<lambda>_. (0, 0)) g = (g, filter (healthy_at g) [0..<length ?ss])" using candidates_plain p(1) by blast
  have "healthy_at g 0" using p(2) [of "?ss ! 0"] len by (simp add: healthy_at_def)
  then obtain i where i: "snd (select_with_key ?h (\<lambda>_. (0, 0)) [] None g) = Some i"
    using select_in_candidates(1) [OF c] candidates_set(2) [OF c] by (metis not_None_eq)
  then have "i < 3" using select_in_candidates(2) [OF c] len by force
  define j where "j = (i + 1) mod 3"
  have j: "j < length ?ss" "i \<noteq> j" using len \<open>i < 3\<close> by (auto simp: j_def mod_Suc)
  let ?ss' = "?ss[j := (?ss ! j)\<lparr>us_healthy := False\<rparr>]"
  have "snd (select_with_key ?h (\<lambda>_. (1, 1)) [] None (g\<lparr>ug_servers := ?ss'\<rparr>)) = Some i"
  proof (rule consistent_stable [OF sample_group_new(1) [of "ConsistentHash HkIp", folded g_def]])
    show "\<forall>s \<in> set ?ss. plain_server s" using p(1) by blast
    have "plain_server ((?ss ! j)\<lparr>us_healthy := False\<rparr>)" using p(1) [of "?ss ! j"] j(1) by (simp add: plain_server_def)
    then show "\<forall>s \<in> set ?ss'. plain_server s" using p(1) set_update_subset_insert by fastforce
    show "\<forall>k < length ?ss. us_healthy (?ss' ! k) \<longrightarrow> us_healthy (?ss ! k)" using p(2) by simp
    show "us_healthy (?ss' ! i)" using p(2) [of "?ss ! i"] len \<open>i < 3\<close> j(2) by simp
    show "snd (select_with_key ?h (\<lambda>_. (0, 0)) [] None (g\<lparr>ug_servers := ?ss\<rparr>)) = Some i" using i by simp
  qed simp_all
  with i \<open>i < 3\<close> show ?thesis unfolding Let_def g_def [symmetric] j_def by blast
qed

end
