(* ===== verification/Router.thy ===== *)
theory Router
  imports Rust_Str Keyed_Store
begin

text \<open>
  The optimised router (\<open>routing/mod.rs\<close>): host groups, the path router, the CIDR matcher and their
  combination, which yields the routes whose host, path and source address conditions a request
  meets.  The radix tree \<open>matchit\<close> is a library and a parameter: a record of its operations.  So is
  the parser of IP addresses; no property depends on their syntax.  Patterns are ASCII, where
  \<open>to_lowercase\<close> is the folding of ASCII letters.  Arithmetic wraps and shift distances are taken
  modulo the width, as in a release build.
\<close>

type_synonym u128 = "128 word"

section \<open>Host groups\<close>

record host_router =
  hr_exact :: "(bytes, nat list) store"
  hr_wildcard :: "(bytes \<times> nat list) list"
  hr_any_host :: "nat list"

definition host_router_new :: host_router where
  "host_router_new = \<lparr>hr_exact = [], hr_wildcard = [], hr_any_host = []\<rparr>"

text \<open>Appending to the first entry with this key, or a new entry.\<close>

fun push_entry :: "bytes \<Rightarrow> bytes \<Rightarrow> nat \<Rightarrow> (bytes \<times> nat list) list \<Rightarrow> (bytes \<times> nat list) list" where
  "push_entry wanted key idx [] = [(key, [idx])]"
| "push_entry wanted key idx ((s, idxs) # entries) =
    (if s = wanted then (s, idxs @ [idx]) # entries else (s, idxs) # push_entry wanted key idx entries)"

definition PREFIX_MARK :: bytes where
  "PREFIX_MARK = ascii ''__prefix__:''"

definition host_add_route :: "nat \<Rightarrow> bytes option \<Rightarrow> host_router \<Rightarrow> host_router" where
  "host_add_route route_idx host_condition r =
    (case host_condition of
       None \<Rightarrow> r\<lparr>hr_any_host := hr_any_host r @ [route_idx]\<rparr>
     | Some pattern \<Rightarrow>
        (case strip_prefix (ascii ''*.'') pattern of
           Some suffix \<Rightarrow>
             r\<lparr>hr_wildcard := push_entry suffix (to_ascii_lowercase suffix) route_idx (hr_wildcard r)\<rparr>
         | None \<Rightarrow>
            (case strip_suffix (ascii ''.*'') pattern of
               Some prefix \<Rightarrow>
                 let key = PREFIX_MARK @ to_ascii_lowercase prefix
                 in r\<lparr>hr_wildcard := push_entry key key route_idx (hr_wildcard r)\<rparr>
             | None \<Rightarrow>
                 let key = to_ascii_lowercase pattern;
                     old = (case store_get (hr_exact r) key of Some idxs \<Rightarrow> idxs | None \<Rightarrow> [])
                 in r\<lparr>hr_exact := store_put key (old @ [route_idx]) (hr_exact r)\<rparr>)))"

definition u8_is_ascii_uppercase :: "u8 \<Rightarrow> bool" where
  "u8_is_ascii_uppercase b \<longleftrightarrow> 0x41 \<le> b \<and> b \<le> 0x5A"

definition host_key :: "bytes \<Rightarrow> bytes" where
  "host_key host =
    (let host_lower = (if list_ex u8_is_ascii_uppercase host then to_ascii_lowercase host else host)
     in hd (split_on 0x3A host_lower))"

definition alt_host :: "bytes \<Rightarrow> bytes option" where
  "alt_host host_only =
    (if host_only = ascii ''localhost'' then Some (ascii ''127.0.0.1'')
     else if host_only = ascii ''127.0.0.1'' then Some (ascii ''localhost'')
     else None)"

definition wildcard_matches :: "bytes \<Rightarrow> bytes \<Rightarrow> bool" where
  "wildcard_matches pattern host_only =
    (case strip_prefix PREFIX_MARK pattern of
       Some prefix \<Rightarrow>
         starts_with prefix host_only \<and> length host_only > length prefix
         \<and> starts_with [0x2E] (drop (length prefix) host_only)
     | None \<Rightarrow>
         ends_with pattern host_only
         \<and> (let prefix_len = length host_only - length pattern
            in prefix_len > 0 \<and> host_only ! (prefix_len - 1) = 0x2E \<and> 0x2E \<notin> set (take (prefix_len - 1) host_only)))"

definition exact_indices :: "host_router \<Rightarrow> bytes \<Rightarrow> nat list" where
  "exact_indices r h = (case store_get (hr_exact r) h of Some idxs \<Rightarrow> idxs | None \<Rightarrow> [])"

definition host_candidates :: "host_router \<Rightarrow> bytes \<Rightarrow> nat list" where
  "host_candidates r host =
    (let host_only = host_key host
     in exact_indices r host_only
        @ (case alt_host host_only of Some alt \<Rightarrow> exact_indices r alt | None \<Rightarrow> [])
        @ concat (map (\<lambda>(pattern, idxs). if wildcard_matches pattern host_only then idxs else []) (hr_wildcard r))
        @ hr_any_host r)"

section \<open>Paths\<close>

record 'm matchit =
  mi_new :: 'm
  mi_insert :: "bytes \<Rightarrow> nat list \<Rightarrow> 'm \<Rightarrow> 'm option"
  mi_at :: "'m \<Rightarrow> bytes \<Rightarrow> nat list option"

record 'm path_router =
  pr_router :: 'm
  pr_patterns :: "(bytes \<times> nat) list"
  pr_any_path :: "nat list"

definition path_router_new :: "'m matchit \<Rightarrow> 'm path_router" where
  "path_router_new mi = \<lparr>pr_router = mi_new mi, pr_patterns = [], pr_any_path = []\<rparr>"

definition convert_pattern :: "bytes \<Rightarrow> bytes" where
  "convert_pattern pattern =
    (case strip_suffix (ascii ''/*'') pattern of
       Some prefix \<Rightarrow> prefix @ ascii ''/{*rest}''
     | None \<Rightarrow> pattern)"

definition path_add_route :: "'m matchit \<Rightarrow> nat \<Rightarrow> bytes option \<Rightarrow> 'm path_router \<Rightarrow> 'm path_router" where
  "path_add_route mi route_idx path_condition r =
    (case path_condition of
       None \<Rightarrow> r\<lparr>pr_any_path := pr_any_path r @ [route_idx]\<rparr>
     | Some pattern \<Rightarrow>
         if pattern = ascii ''/'' then r\<lparr>pr_any_path := pr_any_path r @ [route_idx]\<rparr>
         else if 0x3A \<in> set pattern \<or> 0x7B \<in> set pattern
         then r\<lparr>pr_patterns := pr_patterns r @ [(pattern, route_idx)]\<rparr>
         else
           case mi_insert mi (convert_pattern pattern) [route_idx] (pr_router r) of
             None \<Rightarrow> r\<lparr>pr_patterns := pr_patterns r @ [(pattern, route_idx)]\<rparr>
           | Some m \<Rightarrow>
               if ends_with (ascii ''/*'') pattern
               then r\<lparr>pr_router := m, pr_patterns := pr_patterns r @ [(pattern, route_idx)]\<rparr>
               else r\<lparr>pr_router := m\<rparr>)"

definition matches_pattern :: "bytes \<Rightarrow> bytes \<Rightarrow> bool" where
  "matches_pattern pattern path =
    (if pattern = path then True
     else
       case strip_suffix (ascii ''/*'') pattern of
         Some prefix \<Rightarrow>
           starts_with prefix path
           \<and> (length path = length prefix \<or> length prefix < length path \<and> path ! length prefix = 0x2F)
       | None \<Rightarrow>
          (case strip_prefix pattern path of
             Some remaining \<Rightarrow> remaining = [] \<or> starts_with [0x2F] remaining
           | None \<Rightarrow> False))"

definition path_candidates :: "'m matchit \<Rightarrow> 'm path_router \<Rightarrow> bytes \<Rightarrow> nat list" where
  "path_candidates mi r path =
    (case mi_at mi (pr_router r) path of Some idxs \<Rightarrow> idxs | None \<Rightarrow> [])
    @ map snd (filter (\<lambda>(pattern, idx). matches_pattern pattern path) (pr_patterns r))
    @ pr_any_path r"

section \<open>Source addresses\<close>

datatype ip_addr = IpV4 u32 | IpV6 u128

record cidr_matcher =
  cm_v4_ranges :: "(u32 \<times> u8 \<times> nat list) list"
  cm_v6_ranges :: "(u128 \<times> u8 \<times> nat list) list"
  cm_exact_ips :: "(ip_addr, nat list) store"
  cm_any_ip :: "nat list"

definition cidr_matcher_new :: cidr_matcher where
  "cidr_matcher_new = \<lparr>cm_v4_ranges = [], cm_v6_ranges = [], cm_exact_ips = [], cm_any_ip = []\<rparr>"

fun push_range :: "'n \<Rightarrow> u8 \<Rightarrow> nat \<Rightarrow> ('n \<times> u8 \<times> nat list) list \<Rightarrow> ('n \<times> u8 \<times> nat list) list" where
  "push_range network prefix_len idx [] = [(network, prefix_len, [idx])]"
| "push_range network prefix_len idx ((n, p, idxs) # ranges) =
    (if n = network \<and> p = prefix_len
     then (n, p, if idx \<in> set idxs then idxs else idxs @ [idx]) # ranges
     else (n, p, idxs) # push_range network prefix_len idx ranges)"

definition add_cidr :: "(bytes \<Rightarrow> ip_addr option) \<Rightarrow> nat \<Rightarrow> bytes \<Rightarrow> cidr_matcher \<Rightarrow> cidr_matcher" where
  "add_cidr parse_ip route_idx cidr m =
    (case split_once 0x2F cidr of
       Some (network_str, prefix_len_str) \<Rightarrow>
         (case (parse_ip network_str, parse_u8 prefix_len_str) of
            (Some (IpV4 network), Some p) \<Rightarrow>
              m\<lparr>cm_v4_ranges := push_range network (of_nat p) route_idx (cm_v4_ranges m)\<rparr>
          | (Some (IpV6 network), Some p) \<Rightarrow>
              m\<lparr>cm_v6_ranges := push_range network (of_nat p) route_idx (cm_v6_ranges m)\<rparr>
          | _ \<Rightarrow> m)
     | None \<Rightarrow>
         (case parse_ip cidr of
            Some ip \<Rightarrow>
              let old = (case store_get (cm_exact_ips m) ip of Some idxs \<Rightarrow> idxs | None \<Rightarrow> [])
              in m\<lparr>cm_exact_ips := store_put ip (old @ [route_idx]) (cm_exact_ips m)\<rparr>
          | None \<Rightarrow> m))"

definition cidr_add_route :: "(bytes \<Rightarrow> ip_addr option) \<Rightarrow> nat \<Rightarrow> bytes list option \<Rightarrow> cidr_matcher \<Rightarrow> cidr_matcher" where
  "cidr_add_route parse_ip route_idx ip_ranges m =
    (case ip_ranges of
       None \<Rightarrow> m\<lparr>cm_any_ip := cm_any_ip m @ [route_idx]\<rparr>
     | Some ranges \<Rightarrow> fold (add_cidr parse_ip route_idx) ranges m)"

definition by_prefix_len :: "('n \<times> u8 \<times> nat list) list \<Rightarrow> ('n \<times> u8 \<times> nat list) list" where
  "by_prefix_len ranges = sort_key (\<lambda>(_, p, _). 255 - unat p) ranges"

definition cidr_optimize :: "cidr_matcher \<Rightarrow> cidr_matcher" where
  "cidr_optimize m = m\<lparr>cm_v4_ranges := by_prefix_len (cm_v4_ranges m), cm_v6_ranges := by_prefix_len (cm_v6_ranges m)\<rparr>"

definition v4_mask :: "u8 \<Rightarrow> u32" where
  "v4_mask prefix_len =
    (if prefix_len = 0 then 0 else NOT (push_bit (unat (32 - prefix_len) mod 32) 1 - 1))"

definition v6_mask :: "u8 \<Rightarrow> u128" where
  "v6_mask prefix_len =
    (if prefix_len = 0 then 0 else NOT (push_bit (unat (128 - prefix_len) mod 128) 1 - 1))"

definition range_indices :: "(u8 \<Rightarrow> 'a::len word) \<Rightarrow> 'a word \<Rightarrow> ('a word \<times> u8 \<times> nat list) list \<Rightarrow> nat list" where
  "range_indices netmask ip ranges =
    concat (map (\<lambda>(network, prefix_len, idxs). if ip AND netmask prefix_len = network AND netmask prefix_len then idxs else []) ranges)"

definition cidr_candidates :: "cidr_matcher \<Rightarrow> ip_addr \<Rightarrow> nat list" where
  "cidr_candidates m ip =
    remdups_adj (sort
      ((case store_get (cm_exact_ips m) ip of Some idxs \<Rightarrow> idxs | None \<Rightarrow> [])
       @ (case ip of
            IpV4 a \<Rightarrow> range_indices v4_mask a (cm_v4_ranges m)
          | IpV6 a \<Rightarrow> range_indices v6_mask a (cm_v6_ranges m))
       @ cm_any_ip m))"

definition has_conditions :: "cidr_matcher \<Rightarrow> bool" where
  "has_conditions m \<longleftrightarrow> cm_v4_ranges m \<noteq> [] \<or> cm_v6_ranges m \<noteq> [] \<or> cm_exact_ips m \<noteq> []"

section \<open>The combined router\<close>

record 'm optimized_router =
  or_host_router :: host_router
  or_path_router :: "'m path_router"
  or_cidr_matcher :: cidr_matcher
  or_route_count :: nat

definition optimized_router_new :: "'m matchit \<Rightarrow> 'm optimized_router" where
  "optimized_router_new mi =
    \<lparr>or_host_router = host_router_new, or_path_router = path_router_new mi, or_cidr_matcher = cidr_matcher_new,
     or_route_count = 0\<rparr>"

definition router_add_route ::
    "'m matchit \<Rightarrow> (bytes \<Rightarrow> ip_addr option) \<Rightarrow> nat \<Rightarrow> bytes option \<Rightarrow> bytes option \<Rightarrow> bytes list option
      \<Rightarrow> 'm optimized_router \<Rightarrow> 'm optimized_router" where
  "router_add_route mi parse_ip route_idx host path source_ip r =
    r\<lparr>or_host_router := host_add_route route_idx host (or_host_router r),
      or_path_router := path_add_route mi route_idx path (or_path_router r),
      or_cidr_matcher := cidr_add_route parse_ip route_idx source_ip (or_cidr_matcher r),
      or_route_count := max (or_route_count r) (route_idx + 1)\<rparr>"

definition router_finalize :: "'m optimized_router \<Rightarrow> 'm optimized_router" where
  "router_finalize r = r\<lparr>or_cidr_matcher := cidr_optimize (or_cidr_matcher r)\<rparr>"

text \<open>\<open>binary_search\<close> in a sorted slice succeeds for the members of the slice.\<close>

definition router_candidates :: "'m matchit \<Rightarrow> 'm optimized_router \<Rightarrow> bytes \<Rightarrow> bytes \<Rightarrow> ip_addr \<Rightarrow> nat list" where
  "router_candidates mi r host path source_ip =
    (let host_cands = host_candidates (or_host_router r) host;
         path_sorted = sort (path_candidates mi (or_path_router r) path);
         ip_cands = (if has_conditions (or_cidr_matcher r) then cidr_candidates (or_cidr_matcher r) source_ip
                     else [0..<or_route_count r]);
         ip_sorted = sort ip_cands
     in remdups_adj (sort (filter (\<lambda>idx. idx \<in> set path_sorted \<and> idx \<in> set ip_sorted) host_cands)))"

section \<open>Indices over conditions\<close>

text \<open>
  What the three parts promise to the combined router: routes are added in order, each with its
  condition, and the candidates of a request are the positions whose condition it meets.  The
  meaning of a condition may depend on the conditions before it.
\<close>

locale condition_index =
  fixes empty :: 'r
    and add :: "nat \<Rightarrow> 'c \<Rightarrow> 'r \<Rightarrow> 'r"
    and cands :: "'r \<Rightarrow> 'q \<Rightarrow> nat list"
    and reps :: "'r \<Rightarrow> 'c list \<Rightarrow> bool"
    and valid :: "'c \<Rightarrow> bool"
    and meets :: "'c list \<Rightarrow> nat \<Rightarrow> 'q \<Rightarrow> bool"
  assumes reps_empty: "reps empty []"
    and reps_add: "reps r cs \<Longrightarrow> valid c \<Longrightarrow> reps (add (length cs) c r) (cs @ [c])"
    and cands_reps: "reps r cs \<Longrightarrow> set (cands r q) = {i. i < length cs \<and> meets cs i q}"
begin

definition indexed :: "'c list \<Rightarrow> 'r" where
  "indexed cs = fold (\<lambda>(i, c). add i c) (enumerate 0 cs) empty"

lemma indexed_snoc: "indexed (cs @ [c]) = add (length cs) c (indexed cs)"
  by (simp add: indexed_def enumerate_append_eq)

lemma reps_indexed: "\<forall>c \<in> set cs. valid c \<Longrightarrow> reps (indexed cs) cs"
proof (induction cs rule: rev_induct)
  case Nil
  show ?case using reps_empty by (simp add: indexed_def)
next
  case (snoc c cs)
  then show ?case using reps_add by (simp add: indexed_snoc)
qed

lemma candidates_exact: "\<forall>c \<in> set cs. valid c \<Longrightarrow> i \<in> set (cands (indexed cs) q) \<longleftrightarrow> i < length cs \<and> meets cs i q"
  using cands_reps [OF reps_indexed] by blast

end

section \<open>Host conditions\<close>

definition host_cond_ok :: "bytes option \<Rightarrow> bytes \<Rightarrow> bool" where
  "host_cond_ok c host \<longleftrightarrow>
    (case c of
       None \<Rightarrow> True
     | Some p \<Rightarrow>
         let h = takeWhile (\<lambda>b. b \<noteq> 0x3A) (to_ascii_lowercase host)
         in case strip_prefix (ascii ''*.'') p of
              Some suffix \<Rightarrow> \<exists>sub. h = sub @ 0x2E # to_ascii_lowercase suffix \<and> 0x2E \<notin> set sub
            | None \<Rightarrow>
               (case strip_suffix (ascii ''.*'') p of
                  Some prefix \<Rightarrow> \<exists>rest. h = to_ascii_lowercase prefix @ 0x2E # rest
                | None \<Rightarrow> h = to_ascii_lowercase p \<or> alt_host h = Some (to_ascii_lowercase p)))"

definition host_valid :: "bytes option \<Rightarrow> bool" where
  "host_valid c \<longleftrightarrow> (case c of Some p \<Rightarrow> 0x3A \<notin> set p | None \<Rightarrow> True)"

lemma hd_split_on: "hd (split_on x ys) = takeWhile (\<lambda>y. y \<noteq> x) ys"
  by (induction ys) (auto split: list.splits)

lemma lowercase_fixed: "\<not> list_ex u8_is_ascii_uppercase s \<Longrightarrow> to_ascii_lowercase s = s"
  by (induction s) (auto simp: to_ascii_lowercase_def u8_to_ascii_lowercase_def u8_is_ascii_uppercase_def)

lemma host_key_eq: "host_key host = takeWhile (\<lambda>b. b \<noteq> 0x3A) (to_ascii_lowercase host)"
  by (simp add: host_key_def Let_def hd_split_on lowercase_fixed)

lemma lowercase_idem [simp]: "to_ascii_lowercase (to_ascii_lowercase s) = to_ascii_lowercase s"
proof -
  have "u8_to_ascii_lowercase (u8_to_ascii_lowercase b) = u8_to_ascii_lowercase b" for b
  proof (cases "0x41 \<le> b \<and> b \<le> 0x5A")
    case True
    then have "unat (b + 32) = unat b + 32" by (simp add: word_le_nat_alt unat_word_ariths)
    with True show ?thesis by (auto simp: u8_to_ascii_lowercase_def word_le_nat_alt)
  qed (simp add: u8_to_ascii_lowercase_def)
  then show ?thesis by (simp add: to_ascii_lowercase_def)
qed

lemma lowercase_colon: "0x3A \<notin> set s \<Longrightarrow> 0x3A \<notin> set (to_ascii_lowercase s)"
proof -
  assume s: "0x3A \<notin> set s"
  have "u8_to_ascii_lowercase b \<noteq> 0x3A" if "b \<noteq> 0x3A" for b
  proof (cases "0x41 \<le> b \<and> b \<le> 0x5A")
    case True
    then have "unat (b + 32) = unat b + 32" by (simp add: word_le_nat_alt unat_word_ariths)
    with True have "b + 32 \<noteq> 0x3A" by (auto simp: word_le_nat_alt dest: arg_cong [of _ _ unat])
    with True show ?thesis by (simp add: u8_to_ascii_lowercase_def)
  qed (use that in \<open>auto simp: u8_to_ascii_lowercase_def\<close>)
  with s show ?thesis by (auto simp: to_ascii_lowercase_def) (metis)
qed

text \<open>The entries of a wildcard pattern.\<close>

definition entry_at :: "(bytes \<times> nat list) list \<Rightarrow> bytes \<Rightarrow> nat \<Rightarrow> bool" where
  "entry_at entries key i \<longleftrightarrow> (\<exists>idxs. (key, idxs) \<in> set entries \<and> i \<in> set idxs)"

lemma entry_at_Nil [simp]: "\<not> entry_at [] key i"
  by (simp add: entry_at_def)

lemma entry_at_push:
  assumes "wanted \<in> fst ` set entries \<Longrightarrow> wanted = key"
  shows "entry_at (push_entry wanted key idx entries) k i \<longleftrightarrow> entry_at entries k i \<or> k = key \<and> i = idx"
  using assms by (induction wanted key idx entries rule: push_entry.induct) (auto simp: entry_at_def)

lemma push_entry_keys: "fst ` set (push_entry wanted key idx entries) \<subseteq> insert key (fst ` set entries)"
  by (induction wanted key idx entries rule: push_entry.induct) auto

text \<open>The key under which a wildcard pattern is stored.\<close>

fun wildcard_key :: "bytes option \<Rightarrow> bytes option" where
  "wildcard_key None = None"
| "wildcard_key (Some p) =
    (case strip_prefix (ascii ''*.'') p of
       Some suffix \<Rightarrow> Some (to_ascii_lowercase suffix)
     | None \<Rightarrow> map_option (\<lambda>prefix. PREFIX_MARK @ to_ascii_lowercase prefix) (strip_suffix (ascii ''.*'') p))"

fun exact_key :: "bytes option \<Rightarrow> bytes option" where
  "exact_key None = None"
| "exact_key (Some p) =
    (if strip_prefix (ascii ''*.'') p = None \<and> strip_suffix (ascii ''.*'') p = None then Some (to_ascii_lowercase p) else None)"

definition host_reps :: "host_router \<Rightarrow> bytes option list \<Rightarrow> bool" where
  "host_reps r cs \<longleftrightarrow>
    (\<forall>k i. i \<in> set (exact_indices r k) \<longleftrightarrow> i < length cs \<and> exact_key (cs ! i) = Some k)
    \<and> (\<forall>k i. entry_at (hr_wildcard r) k i \<longleftrightarrow> i < length cs \<and> wildcard_key (cs ! i) = Some k)
    \<and> (\<forall>k \<in> fst ` set (hr_wildcard r). to_ascii_lowercase k = k)
    \<and> set (hr_any_host r) = {i. i < length cs \<and> cs ! i = None}
    \<and> (\<forall>c \<in> set cs. host_valid c)"

lemma wildcard_matches_prefix: "wildcard_matches (PREFIX_MARK @ l) h \<longleftrightarrow> (\<exists>rest. h = l @ 0x2E # rest)"
  by (auto simp: wildcard_matches_def starts_with_iff)

lemma wildcard_matches_suffix:
  assumes "0x3A \<notin> set k"
  shows "wildcard_matches k h \<longleftrightarrow> (\<exists>sub. h = sub @ 0x2E # k \<and> 0x2E \<notin> set sub)"
proof -
  have "strip_prefix PREFIX_MARK k = None"
    using assms by (auto simp: strip_prefix_None PREFIX_MARK_def)
  moreover have "ends_with k h \<and> (let n = length h - length k in n > 0 \<and> h ! (n - 1) = 0x2E \<and> 0x2E \<notin> set (take (n - 1) h))
      \<longleftrightarrow> (\<exists>sub. h = sub @ 0x2E # k \<and> 0x2E \<notin> set sub)"
  proof
    assume "ends_with k h \<and> (let n = length h - length k in n > 0 \<and> h ! (n - 1) = 0x2E \<and> 0x2E \<notin> set (take (n - 1) h))"
    then obtain r where r: "h = r @ k" "r \<noteq> []" "h ! (length r - 1) = 0x2E" "0x2E \<notin> set (take (length r - 1) h)"
      by (auto simp: ends_with_iff Let_def)
    then have "last r = 0x2E" "0x2E \<notin> set (butlast r)"
      by (auto simp: nth_append last_conv_nth butlast_conv_take)
    then have "h = butlast r @ 0x2E # k" using r(1,2) by (metis append_butlast_last_id append.assoc append_Cons append_Nil)
    with \<open>0x2E \<notin> set (butlast r)\<close> show "\<exists>sub. h = sub @ 0x2E # k \<and> 0x2E \<notin> set sub" by blast
  next
    assume "\<exists>sub. h = sub @ 0x2E # k \<and> 0x2E \<notin> set sub"
    then show "ends_with k h \<and> (let n = length h - length k in n > 0 \<and> h ! (n - 1) = 0x2E \<and> 0x2E \<notin> set (take (n - 1) h))"
      by (auto simp: ends_with_def Let_def)
  qed
  ultimately show ?thesis by (simp add: wildcard_matches_def)
qed

lemma host_cond_ok_keys:
  assumes "host_valid c"
  shows "host_cond_ok c host \<longleftrightarrow> c = None \<or> (\<exists>k. wildcard_key c = Some k \<and> wildcard_matches k (host_key host))
    \<or> exact_key c = Some (host_key host) \<or> (\<exists>a. alt_host (host_key host) = Some a \<and> exact_key c = Some a)"
proof (cases c)
  case (Some p)
  have "0x3A \<notin> set (to_ascii_lowercase suffix)" if "strip_prefix (ascii ''*.'') p = Some suffix" for suffix
    using assms Some that by (intro lowercase_colon) (auto simp: host_valid_def strip_prefix_Some)
  then show ?thesis
    by (auto simp: host_cond_ok_def Some Let_def host_key_eq [symmetric] wildcard_matches_suffix wildcard_matches_prefix
        split: option.splits)
qed (simp add: host_cond_ok_def)

lemma exact_indices_put:
  "exact_indices (r\<lparr>hr_exact := store_put key (exact_indices r key @ [idx]) (hr_exact r)\<rparr>) k =
    (if k = key then exact_indices r key @ [idx] else exact_indices r k)"
  by (simp add: exact_indices_def hashmap.get_put)

lemma nth_snoc_cond: "(i < length (cs @ [c]) \<and> P ((cs @ [c]) ! i)) \<longleftrightarrow> i < length cs \<and> P (cs ! i) \<or> i = length cs \<and> P c"
  by (auto simp: nth_append less_Suc_eq)

lemma host_add_exact:
  "set (exact_indices (host_add_route idx c r) k) = set (exact_indices r k) \<union> (if exact_key c = Some k then {idx} else {})"
  using exact_indices_put [where r = r and idx = idx and k = k]
  by (auto simp: host_add_route_def Let_def exact_indices_def [symmetric] split: option.splits) (auto simp: exact_indices_def)

lemma host_add_wildcard:
  assumes "\<forall>k \<in> fst ` set (hr_wildcard r). to_ascii_lowercase k = k"
  shows "entry_at (hr_wildcard (host_add_route idx c r)) k i \<longleftrightarrow>
    entry_at (hr_wildcard r) k i \<or> wildcard_key c = Some k \<and> i = idx"
proof -
  have "suffix \<in> fst ` set (hr_wildcard r) \<Longrightarrow> suffix = to_ascii_lowercase suffix" for suffix using assms by metis
  then show ?thesis by (auto simp: host_add_route_def Let_def entry_at_push split: option.splits)
qed

lemma host_add_keys:
  assumes "\<forall>k \<in> fst ` set (hr_wildcard r). to_ascii_lowercase k = k"
  shows "\<forall>k \<in> fst ` set (hr_wildcard (host_add_route idx c r)). to_ascii_lowercase k = k"
proof -
  have mark: "to_ascii_lowercase PREFIX_MARK = PREFIX_MARK"
    by (simp add: PREFIX_MARK_def to_ascii_lowercase_def u8_to_ascii_lowercase_def)
  have "to_ascii_lowercase (PREFIX_MARK @ to_ascii_lowercase s) = PREFIX_MARK @ to_ascii_lowercase s" for s
    using mark lowercase_idem [of s] by (simp add: to_ascii_lowercase_def)
  then show ?thesis
    using assms push_entry_keys
    by (fastforce simp: host_add_route_def Let_def split: option.splits)
qed

lemma host_add_any:
  "set (hr_any_host (host_add_route idx c r)) = set (hr_any_host r) \<union> (if c = None then {idx} else {})"
  by (auto simp: host_add_route_def Let_def split: option.splits)

lemma host_reps_add:
  assumes "host_reps r cs" "host_valid c"
  shows "host_reps (host_add_route (length cs) c r) (cs @ [c])"
  unfolding host_reps_def
proof (intro conjI allI)
  fix k i
  show "i \<in> set (exact_indices (host_add_route (length cs) c r) k) \<longleftrightarrow>
      i < length (cs @ [c]) \<and> exact_key ((cs @ [c]) ! i) = Some k"
    unfolding nth_snoc_cond [where P = "\<lambda>c. exact_key c = Some k"] host_add_exact using assms(1) by (auto simp: host_reps_def)
  show "entry_at (hr_wildcard (host_add_route (length cs) c r)) k i \<longleftrightarrow>
      i < length (cs @ [c]) \<and> wildcard_key ((cs @ [c]) ! i) = Some k"
    unfolding nth_snoc_cond [where P = "\<lambda>c. wildcard_key c = Some k"]
    using assms(1) host_add_wildcard [where r = r and c = c and k = k] by (auto simp: host_reps_def)
next
  show "\<forall>k \<in> fst ` set (hr_wildcard (host_add_route (length cs) c r)). to_ascii_lowercase k = k"
    using assms(1) by (intro host_add_keys) (simp add: host_reps_def)
  have "set (hr_any_host (host_add_route (length cs) c r)) = {i. i < length cs \<and> cs ! i = None} \<union> (if c = None then {length cs} else {})"
    using assms(1) by (simp add: host_add_any host_reps_def)
  also have "\<dots> = {i. i < length (cs @ [c]) \<and> (cs @ [c]) ! i = None}"
    unfolding nth_snoc_cond [where P = "\<lambda>c. c = None"] by auto
  finally show "set (hr_any_host (host_add_route (length cs) c r)) = {i. i < length (cs @ [c]) \<and> (cs @ [c]) ! i = None}" .
  show "\<forall>c' \<in> set (cs @ [c]). host_valid c'" using assms by (auto simp: host_reps_def)
qed

interpretation host_index: condition_index host_router_new host_add_route host_candidates host_reps host_valid
  "\<lambda>cs i host. host_cond_ok (cs ! i) host"
proof
  show "host_reps host_router_new []"
    by (simp add: host_reps_def host_router_new_def exact_indices_def hashmap.get_empty)
next
  fix r cs c
  assume "host_reps r cs" "host_valid c"
  then show "host_reps (host_add_route (length cs) c r) (cs @ [c])" by (rule host_reps_add)
next
  fix r cs host
  assume reps: "host_reps r cs"
  let ?h = "host_key host"
  have w: "i \<in> set (concat (map (\<lambda>(pattern, idxs). if wildcard_matches pattern ?h then idxs else []) (hr_wildcard r)))
      \<longleftrightarrow> (\<exists>k. entry_at (hr_wildcard r) k i \<and> wildcard_matches k ?h)" for i
    by (fastforce simp: entry_at_def split: if_splits)
  show "set (host_candidates r host) = {i. i < length cs \<and> host_cond_ok (cs ! i) host}"
  proof (intro set_eqI)
    fix i
    have "i \<in> set (host_candidates r host) \<longleftrightarrow> i \<in> set (exact_indices r ?h)
      \<or> (\<exists>a. alt_host ?h = Some a \<and> i \<in> set (exact_indices r a))
      \<or> (\<exists>k. entry_at (hr_wildcard r) k i \<and> wildcard_matches k ?h) \<or> i \<in> set (hr_any_host r)"
      unfolding host_candidates_def Let_def set_append Un_iff w by (auto split: option.splits)
    also have "\<dots> \<longleftrightarrow> i < length cs \<and> host_cond_ok (cs ! i) host"
    proof (cases "i < length cs")
      case True
      then have "host_valid (cs ! i)" using reps by (simp add: host_reps_def)
      from host_cond_ok_keys [OF this] True reps show ?thesis by (auto simp: host_reps_def)
    next
      case False
      with reps show ?thesis by (auto simp: host_reps_def)
    qed
    finally show "i \<in> set (host_candidates r host) \<longleftrightarrow> i \<in> {i. i < length cs \<and> host_cond_ok (cs ! i) host}" by simp
  qed
qed

section \<open>Path conditions\<close>

text \<open>
  A path without a wildcard and without the characters \<open>:\<close> and \<open>{\<close> goes to the radix tree, if the
  tree does not hold it already, and is then matched exactly.  Every other pattern is matched by
  \<open>matches_pattern\<close>, also below its path.
\<close>

definition literal_path :: "bytes \<Rightarrow> bool" where
  "literal_path p \<longleftrightarrow> 0x3A \<notin> set p \<and> 0x7B \<notin> set p \<and> \<not> ends_with (ascii ''/*'') p"

definition path_cond_ok :: "bytes option list \<Rightarrow> nat \<Rightarrow> bytes \<Rightarrow> bool" where
  "path_cond_ok cs i path \<longleftrightarrow>
    (case cs ! i of
       None \<Rightarrow> True
     | Some p \<Rightarrow>
         if p = ascii ''/'' then True
         else if literal_path p \<and> Some p \<notin> set (take i cs) then p = path
         else matches_pattern p path)"

definition path_valid :: "bytes option \<Rightarrow> bool" where
  "path_valid c \<longleftrightarrow> (case c of Some p \<Rightarrow> 0x7D \<notin> set p | None \<Rightarrow> True)"

text \<open>
  What the router relies on of \<open>matchit\<close>.  \<open>stored\<close> are the patterns inserted so far.  A pattern
  without parameters is refused exactly if it is stored already; a lookup yields a stored pattern
  that matches; and a stored pattern without parameters has priority for the path it spells.
\<close>

definition matchit_match :: "bytes \<Rightarrow> bytes \<Rightarrow> bool" where
  "matchit_match pattern path \<longleftrightarrow>
    (case strip_suffix (ascii ''/{*rest}'') pattern of
       Some prefix \<Rightarrow> (case strip_prefix (prefix @ ascii ''/'') path of Some rest \<Rightarrow> rest \<noteq> [] | None \<Rightarrow> False)
     | None \<Rightarrow> pattern = path)"

definition parameter_free :: "bytes \<Rightarrow> bool" where
  "parameter_free p \<longleftrightarrow> 0x7B \<notin> set p \<and> 0x7D \<notin> set p"

locale matchit_contract =
  fixes mi :: "'m matchit"
    and stored :: "'m \<Rightarrow> (bytes \<times> nat list) list"
  assumes stored_new: "stored (mi_new mi) = []"
    and stored_insert: "mi_insert mi p v m = Some m' \<Longrightarrow> stored m' = stored m @ [(p, v)]"
    and insert_conflict: "parameter_free p \<Longrightarrow> mi_insert mi p v m = None \<longleftrightarrow> p \<in> fst ` set (stored m)"
    and at_sound: "mi_at mi m path = Some v \<Longrightarrow> \<exists>p. (p, v) \<in> set (stored m) \<and> matchit_match p path"
    and at_static: "parameter_free path \<Longrightarrow> map_of (stored m) path = Some v \<Longrightarrow> mi_at mi m path = Some v"
begin

definition tree_ok :: "(bytes \<times> nat list) list \<Rightarrow> bytes option list \<Rightarrow> bool" where
  "tree_ok ps cs \<longleftrightarrow>
    (\<forall>q v. (q, v) \<in> set ps \<longrightarrow> (\<exists>i p. i < length cs \<and> cs ! i = Some p \<and> v = [i] \<and> q = convert_pattern p \<and> p \<noteq> ascii ''/''
       \<and> 0x7B \<notin> set p \<and> (literal_path p \<longrightarrow> Some p \<notin> set (take i cs))))
    \<and> (\<forall>i p. i < length cs \<and> cs ! i = Some p \<and> p \<noteq> ascii ''/'' \<and> literal_path p \<and> Some p \<notin> set (take i cs) \<longrightarrow>
       map_of ps p = Some [i])"

definition fallback :: "bytes option list \<Rightarrow> nat \<Rightarrow> bytes \<Rightarrow> bool" where
  "fallback cs i p \<longleftrightarrow> i < length cs \<and> cs ! i = Some p \<and> p \<noteq> ascii ''/'' \<and> \<not> (literal_path p \<and> Some p \<notin> set (take i cs))"

definition any_positions :: "bytes option list \<Rightarrow> nat set" where
  "any_positions cs = {i. i < length cs \<and> (cs ! i = None \<or> cs ! i = Some (ascii ''/''))}"

definition path_reps :: "'m path_router \<Rightarrow> bytes option list \<Rightarrow> bool" where
  "path_reps r cs \<longleftrightarrow>
    tree_ok (stored (pr_router r)) cs
    \<and> (\<forall>p i. (p, i) \<in> set (pr_patterns r) \<longleftrightarrow> fallback cs i p)
    \<and> set (pr_any_path r) = any_positions cs
    \<and> (\<forall>c \<in> set cs. path_valid c)"

lemma convert_literal: "\<not> ends_with (ascii ''/*'') p \<Longrightarrow> convert_pattern p = p"
  by (auto simp: convert_pattern_def ends_with_iff strip_suffix_Some split: option.splits)

lemma convert_wildcard: "ends_with (ascii ''/*'') p \<Longrightarrow> 0x7B \<in> set (convert_pattern p)"
  by (auto simp: convert_pattern_def ends_with_iff)

lemma convert_inj_literal:
  assumes "convert_pattern p = q" "0x7B \<notin> set q"
  shows "p = q"
  using assms convert_literal convert_wildcard by metis

text \<open>The tree refuses a path exactly if an earlier route has it.\<close>

lemma tree_has_literal:
  assumes "tree_ok ps cs" "literal_path p" "p \<noteq> ascii ''/''"
  shows "p \<in> fst ` set ps \<longleftrightarrow> Some p \<in> set cs"
proof
  assume "p \<in> fst ` set ps"
  then obtain v where "(p, v) \<in> set ps" by force
  with assms(1) obtain i p' where "i < length cs" "cs ! i = Some p'" "p = convert_pattern p'"
    unfolding tree_ok_def by blast
  moreover from this assms(2) have "p' = p" using convert_inj_literal by (metis literal_path_def)
  ultimately show "Some p \<in> set cs" by (metis nth_mem)
next
  assume "Some p \<in> set cs"
  then have "\<exists>i. i < length cs \<and> cs ! i = Some p" by (metis in_set_conv_nth)
  then obtain i where i: "i < length cs" "cs ! i = Some p" "\<forall>j < i. \<not> (j < length cs \<and> cs ! j = Some p)"
    using exists_least_iff [where P = "\<lambda>i. i < length cs \<and> cs ! i = Some p"] by blast
  then have "Some p \<notin> set (take i cs)" by (auto simp: in_set_conv_nth)
  with i assms have "map_of ps p = Some [i]" by (auto simp: tree_ok_def)
  then show "p \<in> fst ` set ps" by (metis map_of_SomeD image_eqI fst_conv)
qed

lemma tree_ok_skip: "tree_ok ps cs \<Longrightarrow> (\<And>p. c = Some p \<Longrightarrow> p = ascii ''/'' \<or> \<not> literal_path p \<or> Some p \<in> set cs) \<Longrightarrow> tree_ok ps (cs @ [c])"
  unfolding tree_ok_def by (auto simp: nth_append less_Suc_eq) (metis less_SucI nth_append take_append)+

lemma tree_ok_insert:
  assumes "tree_ok ps cs" "p \<noteq> ascii ''/''" "0x7B \<notin> set p" "literal_path p \<Longrightarrow> Some p \<notin> set cs"
  shows "tree_ok (ps @ [(convert_pattern p, [length cs])]) (cs @ [Some p])"
proof -
  have old: "map_of (ps @ xs) q = Some v" if "map_of ps q = Some v" for xs q v using that by (simp add: map_of_append)
  have new: "map_of (ps @ [(p, [length cs])]) p = Some [length cs]" if "literal_path p"
  proof -
    have "map_of ps p = None" using tree_has_literal [OF assms(1) that assms(2)] assms(4) [OF that] by (simp add: map_of_eq_None_iff)
    then show ?thesis by (simp add: map_of_append map_add_def)
  qed
  show ?thesis
    unfolding tree_ok_def
  proof (intro conjI allI impI)
    fix q v
    assume "(q, v) \<in> set (ps @ [(convert_pattern p, [length cs])])"
    then consider "(q, v) \<in> set ps" | "q = convert_pattern p" "v = [length cs]" by auto
    then show "\<exists>i p'. i < length (cs @ [Some p]) \<and> (cs @ [Some p]) ! i = Some p' \<and> v = [i] \<and> q = convert_pattern p'
        \<and> p' \<noteq> ascii ''/'' \<and> 0x7B \<notin> set p' \<and> (literal_path p' \<longrightarrow> Some p' \<notin> set (take i (cs @ [Some p])))"
    proof cases
      case 1
      with assms(1) obtain i p' where "i < length cs" "cs ! i = Some p'" "v = [i]" "q = convert_pattern p'" "p' \<noteq> ascii ''/''"
        "0x7B \<notin> set p'" "literal_path p' \<longrightarrow> Some p' \<notin> set (take i cs)" unfolding tree_ok_def by blast
      then show ?thesis by (intro exI [of _ i] exI [of _ p']) (simp add: nth_append)
    next
      case 2
      then show ?thesis using assms by (intro exI [of _ "length cs"] exI [of _ p]) simp
    qed
  next
    fix i p'
    assume a: "i < length (cs @ [Some p]) \<and> (cs @ [Some p]) ! i = Some p' \<and> p' \<noteq> ascii ''/'' \<and> literal_path p'
      \<and> Some p' \<notin> set (take i (cs @ [Some p]))"
    show "map_of (ps @ [(convert_pattern p, [length cs])]) p' = Some [i]"
    proof (cases "i < length cs")
      case True
      with a assms(1) have "map_of ps p' = Some [i]" unfolding tree_ok_def by (simp add: nth_append)
      then show ?thesis by (rule old)
    next
      case False
      with a have "i = length cs" "p' = p" by (auto simp: nth_append)
      with a new convert_literal [of p] show ?thesis by (simp add: literal_path_def)
    qed
  qed
qed

lemma fallback_snoc:
  "fallback (cs @ [c]) i p \<longleftrightarrow> fallback cs i p
    \<or> i = length cs \<and> c = Some p \<and> p \<noteq> ascii ''/'' \<and> \<not> (literal_path p \<and> Some p \<notin> set cs)"
  by (auto simp: fallback_def nth_append less_Suc_eq)

lemma any_snoc:
  "any_positions (cs @ [c]) = any_positions cs \<union> (if c = None \<or> c = Some (ascii ''/'') then {length cs} else {})"
  by (auto simp: any_positions_def nth_append less_Suc_eq)

lemma path_reps_kept:
  assumes "path_reps r cs" "path_valid (Some p)" "p \<noteq> ascii ''/''" "\<not> (literal_path p \<and> Some p \<notin> set cs)"
  shows "path_reps (r\<lparr>pr_patterns := pr_patterns r @ [(p, length cs)]\<rparr>) (cs @ [Some p])"
proof -
  from assms(1) have t: "tree_ok (stored (pr_router r)) cs" by (simp add: path_reps_def)
  have "tree_ok (stored (pr_router r)) (cs @ [Some p])" using tree_ok_skip [OF t] assms(3,4) by blast
  with assms show ?thesis by (auto simp: path_reps_def fallback_snoc any_snoc)
qed

lemma path_reps_taken:
  assumes "path_reps r cs" "path_valid (Some p)" "p \<noteq> ascii ''/''" "0x3A \<notin> set p" "0x7B \<notin> set p"
    and "mi_insert mi (convert_pattern p) [length cs] (pr_router r) = Some m"
  shows "path_reps (r\<lparr>pr_router := m, pr_patterns := pr_patterns r @ (if ends_with (ascii ''/*'') p then [(p, length cs)] else [])\<rparr>)
    (cs @ [Some p])"
proof -
  from assms(1) have t: "tree_ok (stored (pr_router r)) cs" by (simp add: path_reps_def)
  have new: "literal_path p \<Longrightarrow> Some p \<notin> set cs"
  proof
    assume l: "literal_path p" "Some p \<in> set cs"
    then have "parameter_free p" "convert_pattern p = p"
      using assms(2) convert_literal by (auto simp: literal_path_def parameter_free_def path_valid_def)
    with assms(6) insert_conflict tree_has_literal [OF t l(1) assms(3)] l(2) show False by (metis option.distinct(1))
  qed
  have t': "tree_ok (stored m) (cs @ [Some p])"
    using tree_ok_insert [OF t assms(3,5) new] stored_insert [OF assms(6)] by simp
  have "literal_path p \<longleftrightarrow> \<not> ends_with (ascii ''/*'') p" using assms(4,5) by (simp add: literal_path_def)
  with assms(1-3) t' new show ?thesis by (auto simp: path_reps_def fallback_snoc any_snoc)
qed

lemma path_reps_add:
  assumes "path_reps r cs" "path_valid c"
  shows "path_reps (path_add_route mi (length cs) c r) (cs @ [c])"
proof -
  from assms(1) have t: "tree_ok (stored (pr_router r)) cs" by (simp add: path_reps_def)
  consider (any) "c = None \<or> c = Some (ascii ''/'')"
    | (special) p where "c = Some p" "p \<noteq> ascii ''/''" "0x3A \<in> set p \<or> 0x7B \<in> set p"
    | (refused) p where "c = Some p" "p \<noteq> ascii ''/''" "0x3A \<notin> set p" "0x7B \<notin> set p"
        "mi_insert mi (convert_pattern p) [length cs] (pr_router r) = None"
    | (taken) p m where "c = Some p" "p \<noteq> ascii ''/''" "0x3A \<notin> set p" "0x7B \<notin> set p"
        "mi_insert mi (convert_pattern p) [length cs] (pr_router r) = Some m"
    by (cases c) fastforce+
  then show ?thesis
  proof cases
    case any
    then have "path_add_route mi (length cs) c r = r\<lparr>pr_any_path := pr_any_path r @ [length cs]\<rparr>"
      by (auto simp: path_add_route_def)
    moreover have "tree_ok (stored (pr_router r)) (cs @ [c])" using tree_ok_skip [OF t] any by blast
    ultimately show ?thesis using any assms by (auto simp: path_reps_def any_snoc fallback_snoc)
  next
    case special
    with path_reps_kept [OF assms(1)] assms(2) show ?thesis by (auto simp: path_add_route_def literal_path_def)
  next
    case refused
    have "\<not> (literal_path p \<and> Some p \<notin> set cs)"
    proof
      assume l: "literal_path p \<and> Some p \<notin> set cs"
      then have "parameter_free p" "convert_pattern p = p"
        using assms(2) refused(1) convert_literal by (auto simp: literal_path_def parameter_free_def path_valid_def)
      with refused(5) insert_conflict have "p \<in> fst ` set (stored (pr_router r))" by simp
      with tree_has_literal [OF t] l refused(2) show False by blast
    qed
    with path_reps_kept [OF assms(1)] assms(2) refused show ?thesis by (auto simp: path_add_route_def)
  next
    case taken
    with path_reps_taken [OF assms(1), of p m] assms(2) show ?thesis by (auto simp: path_add_route_def split: if_splits)
  qed
qed

lemma matchit_match_sound:
  assumes "matchit_match (convert_pattern p) path" "0x7B \<notin> set p"
  shows "if ends_with (ascii ''/*'') p then matches_pattern p path else p = path"
proof (cases "ends_with (ascii ''/*'') p")
  case True
  then obtain pre where p: "p = pre @ ascii ''/*''" by (auto simp: ends_with_iff)
  then have "convert_pattern p = pre @ ascii ''/{*rest}''" unfolding convert_pattern_def p strip_suffix_append by simp
  with assms(1) obtain rest where "path = pre @ ascii ''/'' @ rest"
    unfolding matchit_match_def by (auto simp: strip_prefix_Some simp del: ascii_Cons split: option.splits)
  then have "matches_pattern p path"
    unfolding matches_pattern_def p strip_suffix_append by (auto simp: starts_with_def)
  with True show ?thesis by simp
next
  case False
  have "strip_suffix (ascii ''/{*rest}'') p = None"
    using assms(2) by (auto simp: strip_suffix_None)
  with False assms(1) convert_literal [OF False] show ?thesis by (simp add: matchit_match_def)
qed

lemma path_cands_sound:
  assumes "path_reps r cs" "i \<in> set (path_candidates mi r path)"
  shows "i < length cs \<and> path_cond_ok cs i path"
proof -
  from assms(1) have t: "tree_ok (stored (pr_router r)) cs"
    and f: "(p, i) \<in> set (pr_patterns r) \<longleftrightarrow> fallback cs i p"
    and a: "set (pr_any_path r) = any_positions cs" for p i
    unfolding path_reps_def by blast+
  from assms(2) consider idxs where "mi_at mi (pr_router r) path = Some idxs" "i \<in> set idxs"
    | p where "(p, i) \<in> set (pr_patterns r)" "matches_pattern p path" | "i \<in> set (pr_any_path r)"
    by (cases "mi_at mi (pr_router r) path") (auto simp: path_candidates_def)
  then show ?thesis
  proof cases
    case 1
    from at_sound [OF 1(1)] obtain q where q: "(q, idxs) \<in> set (stored (pr_router r))" "matchit_match q path" by blast
    with t obtain j p where j: "j < length cs" "cs ! j = Some p" "idxs = [j]" "q = convert_pattern p" "0x7B \<notin> set p"
      "literal_path p \<longrightarrow> Some p \<notin> set (take j cs)" unfolding tree_ok_def by blast
    from matchit_match_sound [of p path] j q have m: "if ends_with (ascii ''/*'') p then matches_pattern p path else p = path" by simp
    have "p = path \<Longrightarrow> matches_pattern p path" by (simp add: matches_pattern_def)
    with m j 1(2) show ?thesis by (auto simp: path_cond_ok_def literal_path_def split: if_splits)
  next
    case 2
    from 2(1) f have "fallback cs i p" by blast
    with 2(2) show ?thesis by (auto simp: fallback_def path_cond_ok_def)
  next
    case 3
    with a have "i \<in> any_positions cs" by simp
    then show ?thesis unfolding any_positions_def path_cond_ok_def by auto
  qed
qed

lemma path_cands_complete:
  assumes "path_reps r cs" "i < length cs" "path_cond_ok cs i path"
  shows "i \<in> set (path_candidates mi r path)"
proof -
  from assms(1) have t: "tree_ok (stored (pr_router r)) cs"
    and f: "(p, i) \<in> set (pr_patterns r) \<longleftrightarrow> fallback cs i p"
    and a: "set (pr_any_path r) = any_positions cs"
    and v: "\<forall>c \<in> set cs. path_valid c" for p i
    unfolding path_reps_def by blast+
  consider "cs ! i = None \<or> cs ! i = Some (ascii ''/'')"
    | p where "cs ! i = Some p" "p \<noteq> ascii ''/''" "literal_path p" "Some p \<notin> set (take i cs)"
    | p where "cs ! i = Some p" "p \<noteq> ascii ''/''" "\<not> (literal_path p \<and> Some p \<notin> set (take i cs))"
    by (cases "cs ! i") auto
  then show ?thesis
  proof cases
    case 1
    with assms(2) a show ?thesis by (auto simp: any_positions_def path_candidates_def)
  next
    case 2
    with assms(3) have "p = path" by (simp add: path_cond_ok_def)
    moreover have "path_valid (Some p)" using v assms(2) 2(1) by (metis nth_mem)
    then have "parameter_free p" using 2(3) by (simp add: literal_path_def parameter_free_def path_valid_def)
    moreover have "map_of (stored (pr_router r)) p = Some [i]" using t assms(2) 2 unfolding tree_ok_def by blast
    ultimately have "mi_at mi (pr_router r) path = Some [i]" using at_static by blast
    then show ?thesis by (simp add: path_candidates_def)
  next
    case 3
    with assms(3) have "matches_pattern p path" by (auto simp: path_cond_ok_def)
    moreover have "fallback cs i p" using 3 assms(2) by (simp add: fallback_def)
    then have "(p, i) \<in> set (pr_patterns r)" using f by blast
    ultimately show ?thesis by (force simp: path_candidates_def)
  qed
qed

lemma path_cands_exact: "path_reps r cs \<Longrightarrow> set (path_candidates mi r path) = {i. i < length cs \<and> path_cond_ok cs i path}"
  using path_cands_sound path_cands_complete by blast

end

sublocale matchit_contract \<subseteq> path_index: condition_index "path_router_new mi" "path_add_route mi" "path_candidates mi"
  path_reps path_valid path_cond_ok
proof
  show "path_reps (path_router_new mi) []"
    by (simp add: path_reps_def path_router_new_def stored_new tree_ok_def fallback_def any_positions_def)
qed (rule path_reps_add path_cands_exact; assumption)+

section \<open>Address conditions\<close>

definition same_prefix :: "nat \<Rightarrow> 'a::len word \<Rightarrow> 'a word \<Rightarrow> bool" where
  "same_prefix p a b \<longleftrightarrow> drop_bit (LENGTH('a) - p) a = drop_bit (LENGTH('a) - p) b"

definition parse_range :: "(bytes \<Rightarrow> ip_addr option) \<Rightarrow> bytes \<Rightarrow> (ip_addr \<times> nat option) option" where
  "parse_range parse_ip r =
    (case split_once 0x2F r of
       Some (net, len) \<Rightarrow>
         (case (parse_ip net, parse_u8 len) of (Some ip, Some p) \<Rightarrow> Some (ip, Some p) | _ \<Rightarrow> None)
     | None \<Rightarrow> map_option (\<lambda>ip. (ip, None)) (parse_ip r))"

fun in_range :: "ip_addr \<Rightarrow> ip_addr \<times> nat option \<Rightarrow> bool" where
  "in_range ip (net, None) \<longleftrightarrow> ip = net"
| "in_range (IpV4 a) (IpV4 net, Some p) \<longleftrightarrow> same_prefix p a net"
| "in_range (IpV6 a) (IpV6 net, Some p) \<longleftrightarrow> same_prefix p a net"
| "in_range _ _ \<longleftrightarrow> False"

definition ip_cond_ok :: "(bytes \<Rightarrow> ip_addr option) \<Rightarrow> bytes list option \<Rightarrow> ip_addr \<Rightarrow> bool" where
  "ip_cond_ok parse_ip c ip \<longleftrightarrow>
    (case c of
       None \<Rightarrow> True
     | Some ranges \<Rightarrow> \<exists>r \<in> set ranges. \<exists>x. parse_range parse_ip r = Some x \<and> in_range ip x)"

text \<open>A condition the matcher understands: some ranges, all well formed and within the width of their addresses.\<close>

definition range_valid :: "(bytes \<Rightarrow> ip_addr option) \<Rightarrow> bytes \<Rightarrow> bool" where
  "range_valid parse_ip r \<longleftrightarrow>
    (case parse_range parse_ip r of
       Some (IpV4 _, Some p) \<Rightarrow> p \<le> 32
     | Some (IpV6 _, Some p) \<Rightarrow> p \<le> 128
     | Some (_, None) \<Rightarrow> True
     | None \<Rightarrow> False)"

definition ip_valid :: "(bytes \<Rightarrow> ip_addr option) \<Rightarrow> bytes list option \<Rightarrow> bool" where
  "ip_valid parse_ip c \<longleftrightarrow> (case c of None \<Rightarrow> True | Some ranges \<Rightarrow> ranges \<noteq> [] \<and> list_all (range_valid parse_ip) ranges)"

lemma masked_eq:
  assumes "n < LENGTH('a::len)"
  shows "(a :: 'a word) AND NOT (push_bit n 1 - 1) = b AND NOT (push_bit n 1 - 1) \<longleftrightarrow> drop_bit n a = drop_bit n b"
proof -
  have m: "push_bit n 1 - 1 = (mask n :: 'a word)" by (simp add: mask_eq_exp_minus_1 push_bit_eq_mult)
  show ?thesis
  proof
    assume "a AND NOT (push_bit n 1 - 1) = b AND NOT (push_bit n 1 - 1)"
    then have eq: "bit (a AND NOT (mask n)) k = bit (b AND NOT (mask n)) k" for k by (simp only: m)
    show "drop_bit n a = drop_bit n b"
    proof (rule bit_word_eqI)
      fix k
      assume "k < LENGTH('a)"
      show "bit (drop_bit n a) k = bit (drop_bit n b) k"
        using eq [of "n + k"] by (cases "n + k < LENGTH('a)") (auto simp: bit_simps dest: bit_imp_le_length)
    qed
  next
    assume d: "drop_bit n a = drop_bit n b"
    have "bit a (n + k) = bit b (n + k)" for k using arg_cong [OF d, of "\<lambda>w. bit w k"] by (simp add: bit_simps)
    then have "bit a k = bit b k" if "n \<le> k" for k using that by (metis le_add_diff_inverse)
    then show "a AND NOT (push_bit n 1 - 1) = b AND NOT (push_bit n 1 - 1)"
      unfolding m by (intro bit_word_eqI) (auto simp: bit_simps)
  qed
qed

lemma v4_mask_prefix:
  assumes "p \<le> 32"
  shows "a AND v4_mask (of_nat p) = b AND v4_mask (of_nat p) \<longleftrightarrow> same_prefix p a b"
proof (cases "p = 0")
  case False
  have p: "unat (of_nat p :: u8) = p" using assms by (intro unat_u8_of_nat) simp
  then have "(of_nat p :: u8) \<noteq> 0" using False by auto
  moreover have "unat (32 - of_nat p :: u8) = 32 - p"
    using p assms by (subst unat_sub) (simp_all add: word_le_nat_alt)
  moreover have "(32 - p) mod 32 = 32 - p" using False assms by simp
  ultimately show ?thesis using masked_eq [of "32 - p" a b] False assms by (simp add: v4_mask_def same_prefix_def)
qed (simp add: v4_mask_def same_prefix_def)

lemma v6_mask_prefix:
  assumes "p \<le> 128"
  shows "a AND v6_mask (of_nat p) = b AND v6_mask (of_nat p) \<longleftrightarrow> same_prefix p a b"
proof (cases "p = 0")
  case False
  have p: "unat (of_nat p :: u8) = p" using assms by (intro unat_u8_of_nat) simp
  then have "(of_nat p :: u8) \<noteq> 0" using False by auto
  moreover have "unat (128 - of_nat p :: u8) = 128 - p"
    using p assms by (subst unat_sub) (simp_all add: word_le_nat_alt)
  moreover have "(128 - p) mod 128 = 128 - p" using False assms by simp
  ultimately show ?thesis using masked_eq [of "128 - p" a b] False assms by (simp add: v6_mask_def same_prefix_def)
qed (simp add: v6_mask_def same_prefix_def)

text \<open>Where an index is held.\<close>

definition range_at :: "('n \<times> u8 \<times> nat list) list \<Rightarrow> 'n \<Rightarrow> u8 \<Rightarrow> nat \<Rightarrow> bool" where
  "range_at ranges n p i \<longleftrightarrow> (\<exists>idxs. (n, p, idxs) \<in> set ranges \<and> i \<in> set idxs)"

lemma range_at_Nil [simp]: "\<not> range_at [] n p i"
  by (simp add: range_at_def)

lemma range_at_push [simp]:
  "range_at (push_range network prefix_len idx ranges) n p i \<longleftrightarrow> range_at ranges n p i \<or> n = network \<and> p = prefix_len \<and> i = idx"
  by (induction network prefix_len idx ranges rule: push_range.induct) (auto simp: range_at_def)

lemma range_at_sort [simp]: "range_at (by_prefix_len ranges) n p i \<longleftrightarrow> range_at ranges n p i"
  by (simp add: range_at_def by_prefix_len_def)

lemma set_range_indices:
  "i \<in> set (range_indices netmask ip ranges) \<longleftrightarrow> (\<exists>n p. range_at ranges n p i \<and> ip AND netmask p = n AND netmask p)"
  by (fastforce simp: range_indices_def range_at_def split: if_splits)

definition ips_at :: "(ip_addr, nat list) store \<Rightarrow> ip_addr \<Rightarrow> nat list" where
  "ips_at m ip = (case store_get m ip of Some idxs \<Rightarrow> idxs | None \<Rightarrow> [])"

lemma ips_at_put [simp]: "ips_at (store_put ip v m) k = (if k = ip then v else ips_at m k)"
  by (simp add: ips_at_def hashmap.get_put)

text \<open>The ranges a condition contributes.\<close>

definition cond_ranges :: "(bytes \<Rightarrow> ip_addr option) \<Rightarrow> bytes list option \<Rightarrow> (ip_addr \<times> nat option) set" where
  "cond_ranges parse_ip c = (case c of None \<Rightarrow> {} | Some ranges \<Rightarrow> {x. \<exists>r \<in> set ranges. parse_range parse_ip r = Some x})"

definition holds_ranges :: "cidr_matcher \<Rightarrow> (nat \<Rightarrow> (ip_addr \<times> nat option) set) \<Rightarrow> bool" where
  "holds_ranges m R \<longleftrightarrow>
    (\<forall>n p i. range_at (cm_v4_ranges m) n p i \<longleftrightarrow> (IpV4 n, Some (unat p)) \<in> R i)
    \<and> (\<forall>n p i. range_at (cm_v6_ranges m) n p i \<longleftrightarrow> (IpV6 n, Some (unat p)) \<in> R i)
    \<and> (\<forall>ip i. i \<in> set (ips_at (cm_exact_ips m) ip) \<longleftrightarrow> (ip, None) \<in> R i)"

lemma add_cidr_holds:
  assumes "holds_ranges m R" "range_valid parse_ip r"
  shows "holds_ranges (add_cidr parse_ip idx r m) (R(idx := R idx \<union> {x. parse_range parse_ip r = Some x}))"
proof (cases "split_once 0x2F r")
  case None
  with assms show ?thesis
    by (auto simp: holds_ranges_def add_cidr_def ips_at_def [symmetric] Let_def range_valid_def parse_range_def split: option.splits)
next
  case (Some nl)
  obtain net len where nl: "nl = (net, len)" by (cases nl)
  have u: "unat (of_nat p :: u8) = p" if "parse_u8 len = Some p" for p
    using that from_str_radix_bound [of 10 256 len p] by (intro unat_u8_of_nat) (simp add: parse_u8_def)
  have v: "(q = of_nat p) = (unat q = p)" if "parse_u8 len = Some p" for p and q :: u8
    using u [OF that] by (metis unsigned_word_eqI)
  from assms(2) obtain ip p where x: "parse_ip net = Some ip" "parse_u8 len = Some p"
    using Some nl by (auto simp: range_valid_def parse_range_def split: option.splits)
  with assms(1) Some nl v [OF x(2)] show ?thesis
    by (cases ip) (auto simp: holds_ranges_def add_cidr_def parse_range_def split: option.splits)
qed

lemma fold_add_cidr_holds:
  assumes "holds_ranges m R" "list_all (range_valid parse_ip) ranges"
  shows "holds_ranges (fold (add_cidr parse_ip idx) ranges m)
    (R(idx := R idx \<union> {x. \<exists>r \<in> set ranges. parse_range parse_ip r = Some x}))"
  using assms
proof (induction ranges arbitrary: m R)
  case (Cons r ranges)
  let ?R = "R(idx := R idx \<union> {x. parse_range parse_ip r = Some x})"
  have "holds_ranges (add_cidr parse_ip idx r m) ?R" using add_cidr_holds Cons.prems by simp
  moreover have "list_all (range_valid parse_ip) ranges" using Cons.prems(2) by simp
  ultimately have "holds_ranges (fold (add_cidr parse_ip idx) (r # ranges) m)
      (?R(idx := ?R idx \<union> {x. \<exists>r \<in> set ranges. parse_range parse_ip r = Some x}))"
    unfolding fold_simps by (rule Cons.IH)
  moreover have "?R(idx := ?R idx \<union> {x. \<exists>r \<in> set ranges. parse_range parse_ip r = Some x}) =
      R(idx := R idx \<union> {x. \<exists>r \<in> set (r # ranges). parse_range parse_ip r = Some x})" by (intro ext) auto
  ultimately show ?case by (simp only:)
qed simp

lemma push_range_ne [simp]: "push_range n p i ranges \<noteq> []"
  by (induction n p i ranges rule: push_range.induct) auto

lemma store_put_ne [simp]: "store_put k v m \<noteq> []"
  by (cases m) (auto simp: store_put_def)

lemma add_cidr_conditions:
  "has_conditions m \<or> range_valid parse_ip r \<Longrightarrow> has_conditions (add_cidr parse_ip idx r m)"
  by (auto simp: has_conditions_def add_cidr_def range_valid_def parse_range_def Let_def split: option.splits ip_addr.splits prod.splits)

lemma fold_add_cidr_conditions:
  "has_conditions m \<or> ranges \<noteq> [] \<Longrightarrow> list_all (range_valid parse_ip) ranges \<Longrightarrow>
    has_conditions (fold (add_cidr parse_ip idx) ranges m)"
  by (induction ranges arbitrary: m) (auto simp: add_cidr_conditions)

lemma fold_add_cidr_any [simp]: "cm_any_ip (fold (add_cidr parse_ip idx) ranges m) = cm_any_ip m"
proof (induction ranges arbitrary: m)
  case (Cons r ranges)
  have "cm_any_ip (add_cidr parse_ip idx r m) = cm_any_ip m"
    by (auto simp: add_cidr_def Let_def split: option.splits ip_addr.splits prod.splits)
  with Cons show ?case by simp
qed simp

definition ranges_of :: "(bytes \<Rightarrow> ip_addr option) \<Rightarrow> bytes list option list \<Rightarrow> nat \<Rightarrow> (ip_addr \<times> nat option) set" where
  "ranges_of parse_ip cs i = (if i < length cs then cond_ranges parse_ip (cs ! i) else {})"

lemma ranges_of_snoc: "ranges_of parse_ip (cs @ [c]) = (ranges_of parse_ip cs)(length cs := cond_ranges parse_ip c)"
  by (auto simp: ranges_of_def fun_eq_iff nth_append)

definition cidr_reps :: "(bytes \<Rightarrow> ip_addr option) \<Rightarrow> cidr_matcher \<Rightarrow> bytes list option list \<Rightarrow> bool" where
  "cidr_reps parse_ip m cs \<longleftrightarrow>
    holds_ranges m (ranges_of parse_ip cs) \<and> set (cm_any_ip m) = {i. i < length cs \<and> cs ! i = None}
    \<and> (has_conditions m \<longleftrightarrow> (\<exists>c \<in> set cs. c \<noteq> None)) \<and> (\<forall>c \<in> set cs. ip_valid parse_ip c)"

lemma none_positions_snoc:
  "{i. i < length (cs @ [c]) \<and> (cs @ [c]) ! i = None} = {i. i < length cs \<and> cs ! i = None} \<union> (if c = None then {length cs} else {})"
  by (auto simp: nth_append less_Suc_eq)

lemma cidr_reps_add:
  assumes "cidr_reps parse_ip m cs" "ip_valid parse_ip c"
  shows "cidr_reps parse_ip (cidr_add_route parse_ip (length cs) c m) (cs @ [c])"
proof (cases c)
  case None
  have "ranges_of parse_ip (cs @ [None]) = ranges_of parse_ip cs"
    unfolding ranges_of_snoc by (auto simp: ranges_of_def cond_ranges_def fun_eq_iff)
  with assms None show ?thesis
    unfolding cidr_reps_def none_positions_snoc by (auto simp: cidr_add_route_def holds_ranges_def has_conditions_def)
next
  case (Some ranges)
  then have v: "ranges \<noteq> []" "list_all (range_valid parse_ip) ranges" using assms(2) by (auto simp: ip_valid_def)
  from assms(1) have h: "holds_ranges m (ranges_of parse_ip cs)" by (simp add: cidr_reps_def)
  have "ranges_of parse_ip (cs @ [c]) = (ranges_of parse_ip cs)(length cs := ranges_of parse_ip cs (length cs)
      \<union> {x. \<exists>r \<in> set ranges. parse_range parse_ip r = Some x})"
    unfolding ranges_of_snoc Some by (simp add: ranges_of_def cond_ranges_def)
  then have "holds_ranges (fold (add_cidr parse_ip (length cs)) ranges m) (ranges_of parse_ip (cs @ [c]))"
    using fold_add_cidr_holds [OF h v(2)] by simp
  moreover have "has_conditions (fold (add_cidr parse_ip (length cs)) ranges m)"
    using fold_add_cidr_conditions v by blast
  ultimately show ?thesis
    using assms Some unfolding cidr_reps_def none_positions_snoc by (auto simp: cidr_add_route_def)
qed

lemma cond_ranges_valid:
  assumes "ip_valid parse_ip c" "x \<in> cond_ranges parse_ip c"
  shows "\<exists>r. range_valid parse_ip r \<and> parse_range parse_ip r = Some x"
  using assms by (auto simp: cond_ranges_def ip_valid_def list_all_iff split: option.splits)

lemma in_range_v4:
  assumes "ip_valid parse_ip c" "(IpV4 n, Some p) \<in> cond_ranges parse_ip c"
  shows "in_range (IpV4 b) (IpV4 n, Some p) \<longleftrightarrow> b AND v4_mask (of_nat p) = n AND v4_mask (of_nat p)"
  using cond_ranges_valid [OF assms] by (auto simp: range_valid_def v4_mask_prefix)

lemma in_range_v6:
  assumes "ip_valid parse_ip c" "(IpV6 n, Some p) \<in> cond_ranges parse_ip c"
  shows "in_range (IpV6 b) (IpV6 n, Some p) \<longleftrightarrow> b AND v6_mask (of_nat p) = n AND v6_mask (of_nat p)"
  using cond_ranges_valid [OF assms] by (auto simp: range_valid_def v6_mask_prefix)

lemma word_unat_id: "of_nat (unat w) = w"
  by simp

lemma parse_range_u8: "parse_range parse_ip r = Some (n, Some p) \<Longrightarrow> p < 256"
proof (cases "split_once 0x2F r")
  case (Some nl)
  assume "parse_range parse_ip r = Some (n, Some p)"
  with Some have "parse_u8 (snd nl) = Some p"
    by (cases nl; cases "parse_ip (fst nl)"; cases "parse_u8 (snd nl)") (auto simp: parse_range_def)
  then show ?thesis by (simp add: parse_u8_def from_str_radix_bound)
qed (auto simp: parse_range_def)

text \<open>The masks decide membership in the ranges of a condition.\<close>

lemma in_some_range:
  assumes "ip_valid parse_ip c" "R = cond_ranges parse_ip c"
  shows "(\<exists>x \<in> R. in_range ip x) \<longleftrightarrow> (ip, None) \<in> R \<or> (case ip of
        IpV4 b \<Rightarrow> \<exists>n p. (IpV4 n, Some (unat p)) \<in> R \<and> b AND v4_mask p = n AND v4_mask p
      | IpV6 b \<Rightarrow> \<exists>n p. (IpV6 n, Some (unat p)) \<in> R \<and> b AND v6_mask p = n AND v6_mask p)"
proof -
  have u: "unat (of_nat p :: u8) = p" if "(n, Some p) \<in> R" for n p
    using that parse_range_u8 cond_ranges_valid [OF assms(1)] assms(2) by (metis unat_u8_of_nat)
  note v4 = in_range_v4 [OF assms(1), folded assms(2)] and v6 = in_range_v6 [OF assms(1), folded assms(2)]
  have "(\<exists>x \<in> R. in_range ip x) \<longleftrightarrow> (ip, None) \<in> R \<or> (\<exists>n p. (n, Some p) \<in> R \<and> in_range ip (n, Some p))"
    by (metis in_range.simps(1) not_Some_eq surj_pair)
  also have "(\<exists>n p. (n, Some p) \<in> R \<and> in_range ip (n, Some p)) \<longleftrightarrow> (case ip of
        IpV4 b \<Rightarrow> \<exists>n p. (IpV4 n, Some p) \<in> R \<and> in_range (IpV4 b) (IpV4 n, Some p)
      | IpV6 b \<Rightarrow> \<exists>n p. (IpV6 n, Some p) \<in> R \<and> in_range (IpV6 b) (IpV6 n, Some p))"
    by (cases ip) (auto, (metis in_range.simps ip_addr.exhaust)+)
  also have "\<dots> \<longleftrightarrow> (case ip of
        IpV4 b \<Rightarrow> \<exists>n p. (IpV4 n, Some (unat p)) \<in> R \<and> b AND v4_mask p = n AND v4_mask p
      | IpV6 b \<Rightarrow> \<exists>n p. (IpV6 n, Some (unat p)) \<in> R \<and> b AND v6_mask p = n AND v6_mask p)"
    using u v4 v6 by (cases ip) (simp_all, (metis word_unat_id)+)
  finally show ?thesis .
qed

lemma cidr_cands_exact:
  assumes "cidr_reps parse_ip m cs"
  shows "set (cidr_candidates m ip) = {i. i < length cs \<and> ip_cond_ok parse_ip (cs ! i) ip}"
proof (intro set_eqI)
  fix i
  let ?R = "ranges_of parse_ip cs i"
  from assms have h: "holds_ranges m (ranges_of parse_ip cs)" and a: "set (cm_any_ip m) = {i. i < length cs \<and> cs ! i = None}"
    and v: "\<forall>c \<in> set cs. ip_valid parse_ip c" by (auto simp: cidr_reps_def)
  have "i \<in> set (cidr_candidates m ip) \<longleftrightarrow> (ip, None) \<in> ?R \<or> (case ip of
        IpV4 b \<Rightarrow> \<exists>n p. (IpV4 n, Some (unat p)) \<in> ?R \<and> b AND v4_mask p = n AND v4_mask p
      | IpV6 b \<Rightarrow> \<exists>n p. (IpV6 n, Some (unat p)) \<in> ?R \<and> b AND v6_mask p = n AND v6_mask p)
      \<or> i < length cs \<and> cs ! i = None"
    using h a by (cases ip) (auto simp: cidr_candidates_def set_range_indices holds_ranges_def ips_at_def)
  also have "\<dots> \<longleftrightarrow> i < length cs \<and> ip_cond_ok parse_ip (cs ! i) ip"
  proof (cases "i < length cs")
    case True
    with v have vi: "ip_valid parse_ip (cs ! i)" by simp
    have R: "?R = cond_ranges parse_ip (cs ! i)" using True by (simp add: ranges_of_def)
    have ok: "ip_cond_ok parse_ip (cs ! i) ip \<longleftrightarrow> cs ! i = None \<or> (\<exists>x \<in> ?R. in_range ip x)"
      unfolding R by (auto simp: ip_cond_ok_def cond_ranges_def split: option.splits)
    with True in_some_range [OF vi R, of ip] show ?thesis by auto
  qed (simp add: ranges_of_def split: ip_addr.splits)
  finally show "i \<in> set (cidr_candidates m ip) \<longleftrightarrow> i \<in> {i. i < length cs \<and> ip_cond_ok parse_ip (cs ! i) ip}" by simp
qed

interpretation ip_index: condition_index cidr_matcher_new "cidr_add_route parse_ip" cidr_candidates "cidr_reps parse_ip"
  "ip_valid parse_ip" "\<lambda>cs i ip. ip_cond_ok parse_ip (cs ! i) ip" for parse_ip
proof
  show "cidr_reps parse_ip cidr_matcher_new []"
    by (simp add: cidr_reps_def holds_ranges_def ranges_of_def cidr_matcher_new_def ips_at_def hashmap.get_empty has_conditions_def)
qed (rule cidr_reps_add cidr_cands_exact; assumption)+

lemma by_prefix_len_Nil [simp]: "by_prefix_len rs = [] \<longleftrightarrow> rs = []"
  by (metis by_prefix_len_def length_0_conv length_sort)

lemma cidr_reps_optimize: "cidr_reps parse_ip m cs \<Longrightarrow> cidr_reps parse_ip (cidr_optimize m) cs"
  by (simp add: cidr_reps_def holds_ranges_def cidr_optimize_def has_conditions_def)

section \<open>The combined router is exact\<close>

type_synonym route_key = "bytes option \<times> bytes option \<times> bytes list option"

definition build_optimized_router ::
    "'m matchit \<Rightarrow> (bytes \<Rightarrow> ip_addr option) \<Rightarrow> route_key list \<Rightarrow> 'm optimized_router" where
  "build_optimized_router mi parse_ip keys =
    router_finalize (fold (\<lambda>(idx, host, path, source_ip). router_add_route mi parse_ip idx host path source_ip)
      (enumerate 0 keys) (optimized_router_new mi))"

definition route_applies :: "(bytes \<Rightarrow> ip_addr option) \<Rightarrow> route_key list \<Rightarrow> bytes \<Rightarrow> bytes \<Rightarrow> ip_addr \<Rightarrow> nat \<Rightarrow> bool" where
  "route_applies parse_ip keys host path ip i \<longleftrightarrow>
    host_cond_ok (fst (keys ! i)) host \<and> path_cond_ok (map (fst \<circ> snd) keys) i path \<and> ip_cond_ok parse_ip (snd (snd (keys ! i))) ip"

definition route_key_valid :: "(bytes \<Rightarrow> ip_addr option) \<Rightarrow> route_key \<Rightarrow> bool" where
  "route_key_valid parse_ip k \<longleftrightarrow> host_valid (fst k) \<and> path_valid (fst (snd k)) \<and> ip_valid parse_ip (snd (snd k))"

lemma distinct_remdups_adj_sorted: "sorted xs \<Longrightarrow> distinct (remdups_adj xs)"
  by (induction xs rule: remdups_adj.induct) (auto simp: less_le_not_le)

lemma sorted_candidates:
  assumes "\<And>i. i \<in> set xs \<longleftrightarrow> i < n \<and> P i"
  shows "remdups_adj (sort xs) = filter P [0..<n]"
proof (rule sorted_distinct_set_unique)
  show "sorted (remdups_adj (sort xs))" "distinct (remdups_adj (sort xs))"
    by (auto simp: sorted_remdups_adj intro: distinct_remdups_adj_sorted)
  show "set (remdups_adj (sort xs)) = set (filter P [0..<n])" using assms by auto
qed (auto simp: sorted_wrt_filter)

context matchit_contract
begin

lemma fold_router_add:
  "fold (\<lambda>(idx, host, path, source_ip). router_add_route mi parse_ip idx host path source_ip) (enumerate 0 keys)
      (optimized_router_new mi) =
    \<lparr>or_host_router = host_index.indexed (map fst keys), or_path_router = path_index.indexed (map (fst \<circ> snd) keys),
     or_cidr_matcher = ip_index.indexed parse_ip (map (snd \<circ> snd) keys), or_route_count = length keys\<rparr>"
proof (induction keys rule: rev_induct)
  case Nil
  show ?case
    by (simp add: optimized_router_new_def host_index.indexed_def path_index.indexed_def ip_index.indexed_def)
next
  case (snoc k keys)
  then show ?case
    by (cases k) (simp add: enumerate_append_eq router_add_route_def host_index.indexed_snoc path_index.indexed_snoc
        ip_index.indexed_snoc)
qed

lemma candidates_are_applicable:
  assumes "\<forall>k \<in> set keys. route_key_valid parse_ip k"
  shows "router_candidates mi (build_optimized_router mi parse_ip keys) host path ip =
    filter (route_applies parse_ip keys host path ip) [0..<length keys]"
proof -
  let ?hs = "map fst keys" and ?ps = "map (fst \<circ> snd) keys" and ?is = "map (snd \<circ> snd) keys"
  from assms have v: "\<forall>c \<in> set ?hs. host_valid c" "\<forall>c \<in> set ?ps. path_valid c" "\<forall>c \<in> set ?is. ip_valid parse_ip c"
    by (auto simp: route_key_valid_def)
  let ?m = "cidr_optimize (ip_index.indexed parse_ip ?is)"
  have reps: "cidr_reps parse_ip ?m ?is" using cidr_reps_optimize [OF ip_index.reps_indexed [OF v(3)]] .
  have ip: "i \<in> set (if has_conditions ?m then cidr_candidates ?m ip else [0..<length keys])
      \<longleftrightarrow> i < length keys \<and> ip_cond_ok parse_ip (snd (snd (keys ! i))) ip" for i
  proof (cases "has_conditions ?m")
    case True
    have "i \<in> set (cidr_candidates ?m ip) \<longleftrightarrow> i < length keys \<and> ip_cond_ok parse_ip (?is ! i) ip"
      unfolding cidr_cands_exact [OF reps, of ip] by simp
    with True show ?thesis by (cases "i < length keys") simp_all
  next
    case False
    then have n: "\<forall>c \<in> set ?is. c = None" using reps unfolding cidr_reps_def by blast
    have "i < length keys \<Longrightarrow> ip_cond_ok parse_ip (?is ! i) ip" using n by (simp add: ip_cond_ok_def)
    with False show ?thesis by (cases "i < length keys") simp_all
  qed
  have host: "i \<in> set (host_candidates (host_index.indexed ?hs) host) \<longleftrightarrow> i < length keys \<and> host_cond_ok (fst (keys ! i)) host" for i
    using host_index.candidates_exact [OF v(1), of i host] by (cases "i < length keys") simp_all
  have path: "i \<in> set (path_candidates mi (path_index.indexed ?ps) path) \<longleftrightarrow> i < length keys \<and> path_cond_ok ?ps i path" for i
    using path_index.candidates_exact [OF v(2), of i path] by simp
  have sel: "or_host_router (router_finalize r) = or_host_router r" "or_path_router (router_finalize r) = or_path_router r"
    "or_cidr_matcher (router_finalize r) = cidr_optimize (or_cidr_matcher r)" "or_route_count (router_finalize r) = or_route_count r"
    for r :: "'m optimized_router" by (simp_all add: router_finalize_def)
  show ?thesis
    unfolding router_candidates_def Let_def build_optimized_router_def fold_router_add sel optimized_router.select_convs
  proof (rule sorted_candidates)
    fix i
    show "i \<in> set (filter (\<lambda>idx. idx \<in> set (sort (path_candidates mi (path_index.indexed ?ps) path))
          \<and> idx \<in> set (sort (if has_conditions ?m then cidr_candidates ?m ip else [0..<length keys])))
          (host_candidates (host_index.indexed ?hs) host))
        \<longleftrightarrow> i < length keys \<and> route_applies parse_ip keys host path ip i"
      unfolding set_filter mem_Collect_eq set_sort host path ip route_applies_def by blast
  qed
qed

end

text \<open>A radix tree that keeps the promises: a list of patterns.\<close>

definition list_matchit :: "(bytes \<times> nat list) list matchit" where
  "list_matchit =
    \<lparr>mi_new = [],
     mi_insert = (\<lambda>p v m. if p \<in> fst ` set m then None else Some (m @ [(p, v)])),
     mi_at = (\<lambda>m path.
       case map_of m path of
         Some v \<Rightarrow> Some v
       | None \<Rightarrow> map_option snd (find (\<lambda>(p, _). matchit_match p path) m))\<rparr>"

lemma matchit_match_self: "matchit_match path path"
  by (auto simp: matchit_match_def strip_suffix_Some strip_prefix_def split: option.splits)

interpretation listed_tree: matchit_contract list_matchit "\<lambda>m. m"
proof
  fix m path and v :: "nat list"
  assume at: "mi_at list_matchit m path = Some v"
  show "\<exists>p. (p, v) \<in> set m \<and> matchit_match p path"
  proof (cases "map_of m path")
    case None
    with at obtain e where "find (\<lambda>(p, _). matchit_match p path) m = Some e" "v = snd e" by (auto simp: list_matchit_def)
    then show ?thesis by (cases e) (auto simp: find_Some_iff, metis nth_mem)
  next
    case (Some w)
    with at have "(path, v) \<in> set m" by (auto simp: list_matchit_def dest: map_of_SomeD)
    with matchit_match_self show ?thesis by blast
  qed
qed (auto simp: list_matchit_def split: if_splits)

text \<open>
  A condition whose ranges cannot be read is dropped.  If no other route has one, the router does
  not look at addresses at all, and the restricted route is open to every client.
\<close>

lemma unreadable_ranges_dropped:
  assumes "list_all (\<lambda>r. parse_range parse_ip r = None) ranges"
  shows "cidr_add_route parse_ip idx (Some ranges) m = m"
proof -
  have "add_cidr parse_ip idx r m = m" if "parse_range parse_ip r = None" for r m
    using that by (auto simp: add_cidr_def parse_range_def split: option.splits ip_addr.splits prod.splits)
  then have "fold (add_cidr parse_ip idx) ranges m = m" using assms by (induction ranges arbitrary: m) auto
  then show ?thesis by (simp add: cidr_add_route_def)
qed

lemma unreadable_source_ip_open:
  assumes "list_all (\<lambda>r. parse_range parse_ip r = None) ranges"
  shows "router_candidates mi (build_optimized_router mi parse_ip [(None, None, Some ranges)]) host path ip = [0]"
proof -
  have m: "cidr_add_route parse_ip 0 (Some ranges) cidr_matcher_new = cidr_matcher_new"
    using unreadable_ranges_dropped [OF assms] .
  have h: "host_candidates (host_add_route 0 None host_router_new) host = [0]"
    by (simp add: host_candidates_def host_add_route_def host_router_new_def exact_indices_def hashmap.get_empty split: option.splits)
  have "0 \<in> set (path_candidates mi (path_add_route mi 0 None (path_router_new mi)) path)"
    by (simp add: path_candidates_def path_add_route_def)
  with m h show ?thesis
    by (simp add: router_candidates_def build_optimized_router_def router_add_route_def router_finalize_def
        optimized_router_new_def has_conditions_def cidr_optimize_def by_prefix_len_def cidr_matcher_new_def)
qed

text \<open>A prefix length beyond the width is not refused: in a release build it compares one bit.\<close>

lemma v4_prefix_33: "v4_mask 33 = 0x80000000"
  by code_simp

text \<open>The second of two routes with the same path also serves the paths below it; the first does not.\<close>

lemma duplicate_path_differs:
  "\<not> path_cond_ok [Some (ascii ''/api''), Some (ascii ''/api'')] 0 (ascii ''/api/v1'')"
  "path_cond_ok [Some (ascii ''/api''), Some (ascii ''/api'')] 1 (ascii ''/api/v1'')"
  by (simp_all add: path_cond_ok_def literal_path_def ends_with_def matches_pattern_def strip_suffix_def strip_prefix_def starts_with_def)



end
