(* ===== verification/Lru.thy ===== *)
theory Lru
  imports Prelude
begin

text \<open>
  The interface of the LRU cache, a library: its operations as a record, and the contract its
  documentation gives.  \<open>lru_iter\<close> lists the entries, the one used last in front; every operation
  is described by what it does to this list.
\<close>

record ('l, 'v) lru =
  lru_new :: "nat \<Rightarrow> 'l"
  lru_cap :: "'l \<Rightarrow> nat"
  lru_iter :: "'l \<Rightarrow> (u64 \<times> 'v) list"
  lru_get :: "u64 \<Rightarrow> 'l \<Rightarrow> 'l \<times> 'v option"
  lru_put :: "u64 \<Rightarrow> 'v \<Rightarrow> 'l \<Rightarrow> 'l \<times> 'v option"
  lru_pop :: "u64 \<Rightarrow> 'l \<Rightarrow> 'l \<times> 'v option"
  lru_pop_lru :: "'l \<Rightarrow> 'l \<times> (u64 \<times> 'v) option"
  lru_clear :: "'l \<Rightarrow> 'l"

definition without :: "u64 \<Rightarrow> (u64 \<times> 'v) list \<Rightarrow> (u64 \<times> 'v) list" where
  "without k es = filter (\<lambda>e. fst e \<noteq> k) es"

definition to_front :: "u64 \<Rightarrow> (u64 \<times> 'v) list \<Rightarrow> (u64 \<times> 'v) list" where
  "to_front k es = (case map_of es k of Some v \<Rightarrow> (k, v) # without k es | None \<Rightarrow> es)"

definition put_front :: "nat \<Rightarrow> u64 \<Rightarrow> 'v \<Rightarrow> (u64 \<times> 'v) list \<Rightarrow> (u64 \<times> 'v) list" where
  "put_front n k v es = (k, v) # (if map_of es k = None \<and> n \<le> length es then butlast es else without k es)"

locale lru_contract =
  fixes lru :: "('l, 'v) lru"
    and usable :: "'l \<Rightarrow> bool"
  assumes usable_new: "0 < n \<Longrightarrow> usable (lru_new lru n)"
    and iter_new: "0 < n \<Longrightarrow> lru_iter lru (lru_new lru n) = []"
    and cap_new: "0 < n \<Longrightarrow> lru_cap lru (lru_new lru n) = n"
    and cap_pos: "usable l \<Longrightarrow> 0 < lru_cap lru l"
    and one_entry: "usable l \<Longrightarrow> distinct (map fst (lru_iter lru l))"
    and within_cap: "usable l \<Longrightarrow> length (lru_iter lru l) \<le> lru_cap lru l"
    and get: "usable l \<Longrightarrow> lru_get lru k l = (l', r) \<Longrightarrow>
      usable l' \<and> lru_cap lru l' = lru_cap lru l \<and> r = map_of (lru_iter lru l) k \<and> lru_iter lru l' = to_front k (lru_iter lru l)"
    and put: "usable l \<Longrightarrow> lru_put lru k v l = (l', r) \<Longrightarrow>
      usable l' \<and> lru_cap lru l' = lru_cap lru l \<and> r = map_of (lru_iter lru l) k
      \<and> lru_iter lru l' = put_front (lru_cap lru l) k v (lru_iter lru l)"
    and pop: "usable l \<Longrightarrow> lru_pop lru k l = (l', r) \<Longrightarrow>
      usable l' \<and> lru_cap lru l' = lru_cap lru l \<and> r = map_of (lru_iter lru l) k \<and> lru_iter lru l' = without k (lru_iter lru l)"
    and pop_lru: "usable l \<Longrightarrow> lru_pop_lru lru l = (l', e) \<Longrightarrow>
      usable l' \<and> lru_cap lru l' = lru_cap lru l \<and> lru_iter lru l' = butlast (lru_iter lru l)
      \<and> e = (if lru_iter lru l = [] then None else Some (last (lru_iter lru l)))"
    and clear: "usable l \<Longrightarrow>
      usable (lru_clear lru l) \<and> lru_cap lru (lru_clear lru l) = lru_cap lru l \<and> lru_iter lru (lru_clear lru l) = []"

text \<open>Entries as a list and the capacity: the reference cache.\<close>

definition list_lru :: "(nat \<times> (u64 \<times> 'v) list, 'v) lru" where
  "list_lru =
    \<lparr>lru_new = (\<lambda>n. (n, [])), lru_cap = fst, lru_iter = snd,
     lru_get = (\<lambda>k (n, es). ((n, to_front k es), map_of es k)),
     lru_put = (\<lambda>k v (n, es). ((n, put_front n k v es), map_of es k)),
     lru_pop = (\<lambda>k (n, es). ((n, without k es), map_of es k)),
     lru_pop_lru = (\<lambda>(n, es). ((n, butlast es), if es = [] then None else Some (last es))),
     lru_clear = (\<lambda>(n, es). (n, []))\<rparr>"

definition list_usable :: "nat \<times> (u64 \<times> 'v) list \<Rightarrow> bool" where
  "list_usable l \<longleftrightarrow> 0 < fst l \<and> distinct (map fst (snd l)) \<and> length (snd l) \<le> fst l"

lemma distinct_without: "distinct (map fst es) \<Longrightarrow> distinct (map fst (without k es))"
  by (simp add: without_def distinct_map_filter)

lemma keys_without [simp]: "k \<notin> fst ` set (without k es)"
  by (auto simp: without_def)

lemma length_without: "length (without k es) \<le> length es"
  by (simp add: without_def)

lemma length_without_less:
  assumes "map_of es k \<noteq> None"
  shows "length (without k es) < length es"
proof -
  from assms obtain v where "(k, v) \<in> set es" by (auto dest: map_of_SomeD)
  from length_filter_less [OF this, of "\<lambda>e. fst e \<noteq> k"] show ?thesis by (simp add: without_def)
qed

lemma distinct_butlast_keys: "distinct (map fst es) \<Longrightarrow> distinct (map fst (butlast es))"
  by (simp add: map_butlast distinct_butlast)

lemma usable_to_front:
  assumes "distinct (map fst es)"
  shows "distinct (map fst (to_front k es)) \<and> length (to_front k es) \<le> length es"
  using assms distinct_without [OF assms, of k] length_without_less [of es k]
  by (auto simp: to_front_def Suc_le_eq split: option.splits)

lemma butlast_no_key: "map_of es k = None \<Longrightarrow> k \<notin> fst ` set (butlast es)"
  by (auto simp: map_of_eq_None_iff dest: in_set_butlastD)

lemma usable_put_front:
  assumes "0 < n" "distinct (map fst es)" "length es \<le> n"
  shows "distinct (map fst (put_front n k v es)) \<and> length (put_front n k v es) \<le> n"
proof (cases "map_of es k = None \<and> n \<le> length es")
  case True
  with butlast_no_key [of es k] assms show ?thesis
    by (simp add: put_front_def distinct_butlast_keys)
next
  case False
  have "length (without k es) < n"
  proof (cases "map_of es k = None")
    case True
    with False assms(3) show ?thesis using length_without [of k es] by linarith
  next
    case False
    with length_without_less [of es k] assms(3) show ?thesis by linarith
  qed
  with False distinct_without [OF assms(2), of k] keys_without [of k es] show ?thesis
    by (auto simp: put_front_def)
qed

interpretation listed_lru: lru_contract list_lru list_usable
proof unfold_locales
  fix l l' :: "nat \<times> (u64 \<times> 'v) list" and k v r
  assume u: "list_usable l"
  then obtain n es where l: "l = (n, es)" "0 < n" "distinct (map fst es)" "length es \<le> n"
    by (cases l) (auto simp: list_usable_def)
  show "0 < lru_cap list_lru l" "distinct (map fst (lru_iter list_lru l))" "length (lru_iter list_lru l) \<le> lru_cap list_lru l"
    using l by (auto simp: list_lru_def)
  show "list_usable (lru_clear list_lru l) \<and> lru_cap list_lru (lru_clear list_lru l) = lru_cap list_lru l
      \<and> lru_iter list_lru (lru_clear list_lru l) = []"
    using l by (auto simp: list_lru_def list_usable_def)
  show "list_usable l' \<and> lru_cap list_lru l' = lru_cap list_lru l \<and> r = map_of (lru_iter list_lru l) k
      \<and> lru_iter list_lru l' = to_front k (lru_iter list_lru l)" if "lru_get list_lru k l = (l', r)"
    using that l usable_to_front [OF l(3), of k] by (auto simp: list_lru_def list_usable_def)
  show "list_usable l' \<and> lru_cap list_lru l' = lru_cap list_lru l \<and> r = map_of (lru_iter list_lru l) k
      \<and> lru_iter list_lru l' = put_front (lru_cap list_lru l) k v (lru_iter list_lru l)" if "lru_put list_lru k v l = (l', r)"
    using that l usable_put_front [OF l(2,3,4), of k v] by (auto simp: list_lru_def list_usable_def)
  show "list_usable l' \<and> lru_cap list_lru l' = lru_cap list_lru l \<and> r = map_of (lru_iter list_lru l) k
      \<and> lru_iter list_lru l' = without k (lru_iter list_lru l)" if "lru_pop list_lru k l = (l', r)"
    using that l distinct_without [OF l(3), of k] length_without [of k es] by (auto simp: list_lru_def list_usable_def)
next
  fix l l' :: "nat \<times> (u64 \<times> 'v) list" and r
  assume u: "list_usable l" and r: "lru_pop_lru list_lru l = (l', r)"
  then show "list_usable l' \<and> lru_cap list_lru l' = lru_cap list_lru l \<and> lru_iter list_lru l' = butlast (lru_iter list_lru l)
      \<and> r = (if lru_iter list_lru l = [] then None else Some (last (lru_iter list_lru l)))"
    by (cases l) (auto simp: list_lru_def list_usable_def distinct_butlast_keys)
qed (auto simp: list_lru_def list_usable_def)

end
