(* ===== verification/Route_Lookup.thy ===== *)
theory Route_Lookup
  imports Router Lru
begin

text \<open>
  The choice of a route for a request (\<open>upstream.rs\<close>): the conditions on header, method and query,
  the lookup through the route cache and the optimised router, and the linear search behind it.
  Libraries are parameters: the LRU cache and the hash \<open>xxh3_64_with_seed\<close>.  So is \<open>load_backend\<close>,
  which opens files; it yields a backend or fails.  The rest of a route's settings is opaque.
\<close>

section \<open>Conditions\<close>

record route_conditions =
  rc_host :: "bytes option"
  rc_path :: "bytes option"
  rc_header :: "(bytes, bytes) store option"
  rc_method :: "bytes list option"
  rc_query :: "(bytes, bytes) store option"
  rc_source_ip :: "bytes list option"

record ('a, 'c) route =
  rt_conditions :: route_conditions
  rt_action :: 'a
  rt_compression :: "'c option"

definition utf8_or_empty :: "bytes \<Rightarrow> bytes" where
  "utf8_or_empty s = (if is_utf8 s then s else [])"

definition find_header_value :: "(bytes \<times> bytes) list \<Rightarrow> bytes \<Rightarrow> bytes" where
  "find_header_value headers name =
    (case find (\<lambda>(n, _). eq_ignore_ascii_case n name) headers of
       Some (_, v) \<Rightarrow> utf8_or_empty v
     | None \<Rightarrow> [])"

definition to_digit_16 :: "nat \<Rightarrow> nat option" where
  "to_digit_16 c = (if c < 128 then digit_value 16 (of_nat c) else None)"

fun url_decode_chars :: "nat list \<Rightarrow> nat list" where
  "url_decode_chars [] = []"
| "url_decode_chars (ch # rest) =
    (if ch = 0x25 then
       (case rest of
          d1 # d2 # rest2 \<Rightarrow>
            (case (to_digit_16 d1, to_digit_16 d2) of
               (Some n1, Some n2) \<Rightarrow> (n1 * 16 + n2) # url_decode_chars rest2
             | _ \<Rightarrow> 0x25 # take 2 rest2 @ url_decode_chars (drop 2 rest2))
        | _ \<Rightarrow> [0x25])
     else if ch = 0x2B then 0x20 # url_decode_chars rest
     else ch # url_decode_chars rest)"

definition url_decode :: "bytes \<Rightarrow> bytes" where
  "url_decode input = (case utf8_chars input of Some cs \<Rightarrow> utf8_encode (url_decode_chars cs) | None \<Rightarrow> [])"

fun find_query_loop :: "bytes list \<Rightarrow> bytes \<Rightarrow> bytes" where
  "find_query_loop [] key = []"
| "find_query_loop (pair # pairs) key =
    (if pair = [] then find_query_loop pairs key
     else
       case find_byte 0x3D pair of
         Some eq_pos \<Rightarrow>
           if eq_ignore_ascii_case (take eq_pos pair) key then url_decode (drop (eq_pos + 1) pair)
           else find_query_loop pairs key
       | None \<Rightarrow> if eq_ignore_ascii_case pair key then [] else find_query_loop pairs key)"

definition find_query_value :: "bytes \<Rightarrow> bytes \<Rightarrow> bytes" where
  "find_query_value raw_query key = find_query_loop (split_on 0x26 (utf8_or_empty raw_query)) key"

definition matches_wildcard :: "bytes \<Rightarrow> bytes \<Rightarrow> bool" where
  "matches_wildcard pattern text =
    (if pattern = text then True
     else
       case Option.bind (strip_prefix (ascii ''*.'') pattern) (\<lambda>rest. strip_suffix rest text) of
         Some subdomain \<Rightarrow> subdomain \<noteq> [] \<and> 0x2E \<notin> set subdomain
       | None \<Rightarrow>
          (case Option.bind (strip_suffix (ascii ''.*'') pattern) (\<lambda>rest. strip_prefix rest text) of
             Some domain \<Rightarrow> domain \<noteq> [] \<and> starts_with [0x2E] domain
           | None \<Rightarrow> False))"

definition matches_path_pattern :: "bytes \<Rightarrow> bytes \<Rightarrow> bool" where
  "matches_path_pattern pattern path =
    (if \<not> is_utf8 path then False
     else if pattern = path then True
     else
       case strip_suffix (ascii ''/*'') pattern of
         Some prefix \<Rightarrow> starts_with prefix path \<and> (length path = length prefix \<or> path ! length prefix = 0x2F)
       | None \<Rightarrow>
          (case strip_prefix pattern path of
             Some remaining \<Rightarrow> remaining = [] \<or> starts_with [0x2F] remaining
           | None \<Rightarrow> False))"

definition cidr_matches_one :: "(bytes \<Rightarrow> ip_addr option) \<Rightarrow> ip_addr \<Rightarrow> bytes \<Rightarrow> bool" where
  "cidr_matches_one parse_ip ip cidr =
    (case split_once 0x2F cidr of
       Some (network_str, prefix_len_str) \<Rightarrow>
         (case (parse_ip network_str, parse_u8 prefix_len_str, ip) of
            (Some (IpV4 network), Some p, IpV4 a) \<Rightarrow>
              let m = NOT (push_bit (unat (32 - of_nat p :: u8) mod 32) 1 - 1)
              in network AND m = a AND m
          | _ \<Rightarrow> False)
     | None \<Rightarrow> parse_ip cidr = Some ip)"

definition matches_cidr :: "(bytes \<Rightarrow> ip_addr option) \<Rightarrow> ip_addr \<Rightarrow> bytes list \<Rightarrow> bool" where
  "matches_cidr parse_ip ip cidr_ranges = list_ex (cidr_matches_one parse_ip ip) cidr_ranges"

definition matches_remaining_conditions :: "route_conditions \<Rightarrow> bytes \<Rightarrow> (bytes \<times> bytes) list \<Rightarrow> bytes \<Rightarrow> bool" where
  "matches_remaining_conditions c mthd headers raw_query \<longleftrightarrow>
    (case rc_header c of
       Some conds \<Rightarrow> list_all (\<lambda>(key, pattern). matches_wildcard pattern (find_header_value headers key)) conds
     | None \<Rightarrow> True)
    \<and> (case rc_method c of
         Some methods \<Rightarrow> list_ex (\<lambda>m. eq_ignore_ascii_case m (utf8_or_empty mthd)) methods
       | None \<Rightarrow> True)
    \<and> (case rc_query c of
         Some conds \<Rightarrow> list_all (\<lambda>(key, pattern). matches_wildcard pattern (find_query_value raw_query key)) conds
       | None \<Rightarrow> True)"

definition matches_conditions ::
    "(bytes \<Rightarrow> ip_addr option) \<Rightarrow> route_conditions \<Rightarrow> bytes \<Rightarrow> bytes \<Rightarrow> bytes \<Rightarrow> (bytes \<times> bytes) list \<Rightarrow> bytes \<Rightarrow> ip_addr \<Rightarrow> bool" where
  "matches_conditions parse_ip c host path mthd headers raw_query source_ip \<longleftrightarrow>
    (case rc_host c of
       Some host_pattern \<Rightarrow>
         is_utf8 host
         \<and> matches_wildcard host_pattern (case find_byte 0x3A host of Some colon_pos \<Rightarrow> take colon_pos host | None \<Rightarrow> host)
     | None \<Rightarrow> True)
    \<and> (case rc_path c of Some path_pattern \<Rightarrow> matches_path_pattern path_pattern path | None \<Rightarrow> True)
    \<and> matches_remaining_conditions c mthd headers raw_query
    \<and> (case rc_source_ip c of Some ip_ranges \<Rightarrow> matches_cidr parse_ip source_ip ip_ranges | None \<Rightarrow> True)"

section \<open>Route cache\<close>

text \<open>The generation and the capacity are shared by all threads, the cache belongs to one.\<close>

record 'l route_cache =
  rch_generation :: u64
  rch_capacity :: nat
  rch_local :: "u64 \<times> 'l"
  rch_hits :: u64
  rch_misses :: u64

definition ip_octets :: "ip_addr \<Rightarrow> bytes" where
  "ip_octets ip =
    (case ip of
       IpV4 a \<Rightarrow> map (\<lambda>k. ucast (drop_bit (8 * k) a)) (rev [0..<4])
     | IpV6 a \<Rightarrow> map (\<lambda>k. ucast (drop_bit (8 * k) a)) (rev [0..<16]))"

definition route_cache_key :: "(bytes \<Rightarrow> u64 \<Rightarrow> u64) \<Rightarrow> bytes \<Rightarrow> bytes \<Rightarrow> bytes \<Rightarrow> ip_addr \<Rightarrow> u64" where
  "route_cache_key xxh3 host path mthd source_ip =
    (let h1 = xxh3 host 0xdeadbeefcafe0000;
         h2 = xxh3 path h1;
         h3 = xxh3 mthd h2
     in xxh3 (ip_octets source_ip) h3)"

definition route_cache_refresh :: "('l, nat option) lru \<Rightarrow> 'l route_cache \<Rightarrow> 'l route_cache" where
  "route_cache_refresh lru s =
    (if fst (rch_local s) \<noteq> rch_generation s
     then s\<lparr>rch_local := (rch_generation s, lru_new lru (if rch_capacity s = 0 then 10000 else rch_capacity s))\<rparr>
     else s)"

definition route_cache_get :: "('l, nat option) lru \<Rightarrow> u64 \<Rightarrow> 'l route_cache \<Rightarrow> 'l route_cache \<times> nat option option" where
  "route_cache_get lru key s =
    (let s = route_cache_refresh lru s
     in case lru_get lru key (snd (rch_local s)) of
          (l, Some result) \<Rightarrow> (s\<lparr>rch_local := (fst (rch_local s), l), rch_hits := rch_hits s + 1\<rparr>, Some result)
        | (l, None) \<Rightarrow> (s\<lparr>rch_local := (fst (rch_local s), l), rch_misses := rch_misses s + 1\<rparr>, None))"

definition route_cache_put :: "('l, nat option) lru \<Rightarrow> u64 \<Rightarrow> nat option \<Rightarrow> 'l route_cache \<Rightarrow> 'l route_cache" where
  "route_cache_put lru key route_idx s =
    (let s = route_cache_refresh lru s
     in s\<lparr>rch_local := (fst (rch_local s), fst (lru_put lru key route_idx (snd (rch_local s))))\<rparr>)"

definition route_cache_clear :: "'l route_cache \<Rightarrow> 'l route_cache" where
  "route_cache_clear s = s\<lparr>rch_generation := rch_generation s + 1\<rparr>"

section \<open>Lookup\<close>

definition REPLACEMENT :: bytes where
  "REPLACEMENT = [0xEF, 0xBF, 0xBD]"

text \<open>\<open>String::from_utf8_lossy\<close>: each maximal part of an ill-formed sequence becomes one replacement character.\<close>

fun from_utf8_lossy :: "bytes \<Rightarrow> bytes" where
  "from_utf8_lossy [] = []"
| "from_utf8_lossy (b0 # r) =
    (if b0 < 0x80 then b0 # from_utf8_lossy r
     else if 0xC2 \<le> b0 \<and> b0 \<le> 0xDF then
       (case r of
          b1 # r1 \<Rightarrow> if is_cont b1 then b0 # b1 # from_utf8_lossy r1 else REPLACEMENT @ from_utf8_lossy r
        | [] \<Rightarrow> REPLACEMENT)
     else if 0xE0 \<le> b0 \<and> b0 \<le> 0xEF then
       (case r of
          b1 # r1 \<Rightarrow>
            if utf8_second_ok b0 b1
            then (case r1 of
                    b2 # r2 \<Rightarrow> if is_cont b2 then b0 # b1 # b2 # from_utf8_lossy r2 else REPLACEMENT @ from_utf8_lossy r1
                  | [] \<Rightarrow> REPLACEMENT)
            else REPLACEMENT @ from_utf8_lossy r
        | [] \<Rightarrow> REPLACEMENT)
     else if 0xF0 \<le> b0 \<and> b0 \<le> 0xF4 then
       (case r of
          b1 # r1 \<Rightarrow>
            if utf8_second_ok b0 b1
            then (case r1 of
                    b2 # r2 \<Rightarrow>
                      if is_cont b2
                      then (case r2 of
                              b3 # r3 \<Rightarrow>
                                if is_cont b3 then b0 # b1 # b2 # b3 # from_utf8_lossy r3 else REPLACEMENT @ from_utf8_lossy r2
                            | [] \<Rightarrow> REPLACEMENT)
                      else REPLACEMENT @ from_utf8_lossy r1
                  | [] \<Rightarrow> REPLACEMENT)
            else REPLACEMENT @ from_utf8_lossy r
        | [] \<Rightarrow> REPLACEMENT)
     else REPLACEMENT @ from_utf8_lossy r)"

record request =
  rq_host :: bytes
  rq_path :: bytes
  rq_method :: bytes
  rq_headers :: "(bytes \<times> bytes) list"
  rq_query :: bytes
  rq_source :: ip_addr

definition extract_path_prefix :: "('a, 'c) route \<Rightarrow> bytes" where
  "extract_path_prefix rt =
    (case rc_path (rt_conditions rt) of
       Some path_pattern \<Rightarrow>
         (case strip_suffix (ascii ''/*'') path_pattern of Some prefix_str \<Rightarrow> prefix_str | None \<Rightarrow> path_pattern)
     | None \<Rightarrow> [])"

type_synonym ('b, 'c) found = "(bytes \<times> 'b \<times> 'c) option"

definition serve_route :: "(('a, 'c) route \<Rightarrow> 'b option) \<Rightarrow> 'c \<Rightarrow> ('a, 'c) route \<Rightarrow> ('b, 'c) found" where
  "serve_route load_backend compression_default rt =
    map_option (\<lambda>backend. (extract_path_prefix rt, backend,
        case rt_compression rt of Some c \<Rightarrow> c | None \<Rightarrow> compression_default))
      (load_backend rt)"

definition request_matches :: "(bytes \<Rightarrow> ip_addr option) \<Rightarrow> request \<Rightarrow> ('a, 'c) route \<Rightarrow> bool" where
  "request_matches parse_ip rq rt \<longleftrightarrow>
    matches_conditions parse_ip (rt_conditions rt) (rq_host rq) (rq_path rq) (rq_method rq) (rq_headers rq) (rq_query rq)
      (rq_source rq)"

text \<open>The two loops: the first index whose route matches and can be served.\<close>

fun try_routes :: "(('a, 'c) route \<Rightarrow> bool) \<Rightarrow> (('a, 'c) route \<Rightarrow> ('b, 'c) found) \<Rightarrow> ('a, 'c) route list \<Rightarrow> nat list
    \<Rightarrow> (nat \<times> bytes \<times> 'b \<times> 'c) option" where
  "try_routes matched serve routes [] = None"
| "try_routes matched serve routes (i # is) =
    (if i < length routes \<and> matched (routes ! i)
     then (case serve (routes ! i) of Some res \<Rightarrow> Some (i, res) | None \<Rightarrow> try_routes matched serve routes is)
     else try_routes matched serve routes is)"

definition remember :: "('l, nat option) lru \<Rightarrow> u64 \<Rightarrow> (nat \<times> bytes \<times> 'b \<times> 'c) option \<Rightarrow> 'l route_cache \<Rightarrow> 'l route_cache \<times> ('b, 'c) found" where
  "remember lru key res s =
    (case res of
       Some (i, found) \<Rightarrow> (route_cache_put lru key (Some i) s, Some found)
     | None \<Rightarrow> (route_cache_put lru key None s, None))"

definition find_backend_linear ::
    "('l, nat option) lru \<Rightarrow> (bytes \<Rightarrow> ip_addr option) \<Rightarrow> (('a, 'c) route \<Rightarrow> ('b, 'c) found) \<Rightarrow> request \<Rightarrow> ('a, 'c) route list
      \<Rightarrow> u64 \<Rightarrow> 'l route_cache \<Rightarrow> 'l route_cache \<times> ('b, 'c) found" where
  "find_backend_linear lru parse_ip serve rq routes cache_key s =
    remember lru cache_key (try_routes (request_matches parse_ip rq) serve routes [0..<length routes]) s"

definition find_backend_unified ::
    "('l, nat option) lru \<Rightarrow> (bytes \<Rightarrow> u64 \<Rightarrow> u64) \<Rightarrow> 'm matchit \<Rightarrow> (bytes \<Rightarrow> ip_addr option) \<Rightarrow> (('a, 'c) route \<Rightarrow> ('b, 'c) found)
      \<Rightarrow> 'm optimized_router \<Rightarrow> request \<Rightarrow> ('a, 'c) route list \<Rightarrow> 'l route_cache \<Rightarrow> 'l route_cache \<times> ('b, 'c) found" where
  "find_backend_unified lru xxh3 mi parse_ip serve router rq routes s =
    (let cache_key = route_cache_key xxh3 (rq_host rq) (rq_path rq) (rq_method rq) (rq_source rq);
         (s, cached) = route_cache_get lru cache_key s;
         hit = (case cached of
                  Some (Some route_idx) \<Rightarrow>
                    if route_idx < length routes \<and> request_matches parse_ip rq (routes ! route_idx)
                    then serve (routes ! route_idx) else None
                | _ \<Rightarrow> None)
     in case hit of
          Some found \<Rightarrow> (s, Some found)
        | None \<Rightarrow>
            let cands = router_candidates mi router (from_utf8_lossy (rq_host rq)) (from_utf8_lossy (rq_path rq)) (rq_source rq)
            in if cands = []
               then find_backend_linear lru parse_ip serve rq routes cache_key s
               else
                 remember lru cache_key
                   (try_routes (\<lambda>rt. matches_remaining_conditions (rt_conditions rt) (rq_method rq) (rq_headers rq) (rq_query rq))
                      serve routes cands) s)"

definition route_keys :: "('a, 'c) route list \<Rightarrow> route_key list" where
  "route_keys routes = map (\<lambda>rt. (rc_host (rt_conditions rt), rc_path (rt_conditions rt), rc_source_ip (rt_conditions rt))) routes"

definition lookup_matches ::
    "(bytes \<Rightarrow> ip_addr option) \<Rightarrow> (('a, 'c) route \<Rightarrow> ('b, 'c) found) \<Rightarrow> ('a, 'c) route list \<Rightarrow> request \<Rightarrow> nat \<Rightarrow> bool" where
  "lookup_matches parse_ip serve routes rq i \<longleftrightarrow>
    route_applies parse_ip (route_keys routes) (from_utf8_lossy (rq_host rq)) (from_utf8_lossy (rq_path rq)) (rq_source rq) i
    \<and> matches_remaining_conditions (rt_conditions (routes ! i)) (rq_method rq) (rq_headers rq) (rq_query rq)
    \<and> serve (routes ! i) \<noteq> None"

definition request_key :: "(bytes \<Rightarrow> u64 \<Rightarrow> u64) \<Rightarrow> request \<Rightarrow> u64" where
  "request_key xxh3 rq = route_cache_key xxh3 (rq_host rq) (rq_path rq) (rq_method rq) (rq_source rq)"

definition cold :: "('l, nat option) lru \<Rightarrow> u64 \<Rightarrow> 'l route_cache \<Rightarrow> bool" where
  "cold lru key s \<longleftrightarrow> snd (route_cache_get lru key s) \<in> {None, Some None}"

lemma length_route_keys [simp]: "length (route_keys routes) = length routes"
  by (simp add: route_keys_def)

lemma find_filter: "find P (filter Q xs) = find (\<lambda>x. Q x \<and> P x) xs"
  by (induction xs) auto

lemma find_upt_bound: "find P [0..<n] = find (\<lambda>i. i < n \<and> P i) [0..<n]"
  by (rule find_cong) auto

lemma try_routes_find:
  "try_routes matched serve routes is =
    map_option (\<lambda>i. (i, the (serve (routes ! i))))
      (find (\<lambda>i. i < length routes \<and> matched (routes ! i) \<and> serve (routes ! i) \<noteq> None) is)"
  by (induction "is") (auto split: option.splits)

lemma snd_remember: "snd (remember lru key res s) = map_option snd res"
  by (cases res) (auto simp: remember_def)

lemma try_routes_Some:
  assumes "try_routes matched serve routes is = Some (i, res)"
  shows "i \<in> set is" "i < length routes" "matched (routes ! i)" "serve (routes ! i) = Some res"
  using assms by (induction "is") (auto split: if_splits option.splits)

lemma utf8_chars_split:
  assumes "utf8_chars (b0 # r) \<noteq> None"
  obtains (1) "b0 < 0x80" "utf8_chars r \<noteq> None"
  | (2) b1 r1 where "\<not> b0 < 0x80" "0xC2 \<le> b0 \<and> b0 \<le> 0xDF" "r = b1 # r1" "is_cont b1" "utf8_chars r1 \<noteq> None"
  | (3) b1 b2 r2 where "\<not> b0 < 0x80" "\<not> (0xC2 \<le> b0 \<and> b0 \<le> 0xDF)" "0xE0 \<le> b0 \<and> b0 \<le> 0xEF" "r = b1 # b2 # r2"
      "utf8_second_ok b0 b1" "is_cont b2" "utf8_chars r2 \<noteq> None"
  | (4) b1 b2 b3 r3 where "\<not> b0 < 0x80" "\<not> (0xC2 \<le> b0 \<and> b0 \<le> 0xDF)" "\<not> (0xE0 \<le> b0 \<and> b0 \<le> 0xEF)"
      "0xF0 \<le> b0 \<and> b0 \<le> 0xF4" "r = b1 # b2 # b3 # r3" "utf8_second_ok b0 b1" "is_cont b2" "is_cont b3" "utf8_chars r3 \<noteq> None"
  using assms unfolding utf8_chars.simps(2) [of b0 r]
  by (simp only: map_option_is_None not_False_eq_True split: if_split_asm list.split_asm) blast+

lemma utf8_lossy_id: "utf8_chars s \<noteq> None \<Longrightarrow> from_utf8_lossy s = s"
proof (induction "length s" arbitrary: s rule: less_induct)
  case less
  show ?case
  proof (cases s)
    case (Cons b0 r)
    from less.prems [unfolded Cons] show ?thesis
    proof (cases rule: utf8_chars_split)
      case 1
      have "from_utf8_lossy r = r" using less.hyps 1(2) Cons by simp
      then show ?thesis unfolding Cons from_utf8_lossy.simps(2) if_P [OF 1(1)] by simp
    next
      case (2 b1 r1)
      have "from_utf8_lossy r1 = r1" using less.hyps 2(5) Cons 2(3) by simp
      then show ?thesis
        unfolding Cons 2(3) from_utf8_lossy.simps(2) [of b0] if_not_P [OF 2(1)] if_P [OF 2(2)] list.case if_P [OF 2(4)] by simp
    next
      case (3 b1 b2 r2)
      have "from_utf8_lossy r2 = r2" using less.hyps 3(7) Cons 3(4) by simp
      then show ?thesis
        unfolding Cons 3(4) from_utf8_lossy.simps(2) [of b0] if_not_P [OF 3(1)] if_not_P [OF 3(2)] if_P [OF 3(3)] list.case
          if_P [OF 3(5)] if_P [OF 3(6)] by simp
    next
      case (4 b1 b2 b3 r3)
      have "from_utf8_lossy r3 = r3" using less.hyps 4(9) Cons 4(5) by simp
      then show ?thesis
        unfolding Cons 4(5) from_utf8_lossy.simps(2) [of b0] if_not_P [OF 4(1)] if_not_P [OF 4(2)] if_not_P [OF 4(3)] if_P [OF 4(4)]
          list.case if_P [OF 4(6)] if_P [OF 4(7)] if_P [OF 4(8)] by simp
    qed
  qed simp
qed

definition lookup_uncached ::
    "'m matchit \<Rightarrow> (bytes \<Rightarrow> ip_addr option) \<Rightarrow> (('a, 'c) route \<Rightarrow> ('b, 'c) found) \<Rightarrow> 'm optimized_router \<Rightarrow> request
      \<Rightarrow> ('a, 'c) route list \<Rightarrow> (nat \<times> bytes \<times> 'b \<times> 'c) option" where
  "lookup_uncached mi parse_ip serve router rq routes =
    (let cands = router_candidates mi router (from_utf8_lossy (rq_host rq)) (from_utf8_lossy (rq_path rq)) (rq_source rq)
     in if cands = [] then try_routes (request_matches parse_ip rq) serve routes [0..<length routes]
        else try_routes (\<lambda>rt. matches_remaining_conditions (rt_conditions rt) (rq_method rq) (rq_headers rq) (rq_query rq))
               serve routes cands)"

lemma cold_lookup:
  assumes "cold lru (request_key xxh3 rq) s"
  shows "find_backend_unified lru xxh3 mi parse_ip serve router rq routes s =
    remember lru (request_key xxh3 rq) (lookup_uncached mi parse_ip serve router rq routes)
      (fst (route_cache_get lru (request_key xxh3 rq) s))"
  using assms
  by (auto simp: find_backend_unified_def cold_def request_key_def Let_def find_backend_linear_def lookup_uncached_def split: prod.splits)

lemma lookup_cases:
  assumes "snd (find_backend_unified lru xxh3 mi parse_ip serve router rq routes s) = Some found"
  obtains (cached) i where "i < length routes" "request_matches parse_ip rq (routes ! i)" "serve (routes ! i) = Some found"
  | (searched) i where "lookup_uncached mi parse_ip serve router rq routes = Some (i, found)"
  using assms
  by (auto simp: find_backend_unified_def request_key_def Let_def find_backend_linear_def lookup_uncached_def snd_remember
      split: prod.splits option.splits if_splits)

lemma warm_lookup:
  assumes "snd (route_cache_get lru (request_key xxh3 rq) s) = Some (Some i)"
    and "i < length routes" "request_matches parse_ip rq (routes ! i)" "serve (routes ! i) = Some found"
  shows "find_backend_unified lru xxh3 mi parse_ip serve router rq routes s =
    (fst (route_cache_get lru (request_key xxh3 rq) s), Some found)"
  using assms by (auto simp: find_backend_unified_def request_key_def Let_def split: prod.splits)

lemma map_the_serve:
  "(\<And>i. P i \<Longrightarrow> serve (routes ! i) \<noteq> None) \<Longrightarrow>
    map_option (\<lambda>i. the (serve (routes ! i))) (find P is) = Option.bind (find P is) (\<lambda>i. serve (routes ! i))"
  by (induction "is") auto

lemma lookup_candidates:
  assumes "matchit_contract mi stored" "\<forall>k \<in> set (route_keys routes). route_key_valid parse_ip k"
  shows "router_candidates mi (build_optimized_router mi parse_ip (route_keys routes)) host path ip =
    filter (route_applies parse_ip (route_keys routes) host path ip) [0..<length routes]"
  using matchit_contract.candidates_are_applicable [OF assms] by simp

lemma lookup_uncached_Some:
  assumes "matchit_contract mi stored" "\<forall>k \<in> set (route_keys routes). route_key_valid parse_ip k"
    and "lookup_uncached mi parse_ip serve (build_optimized_router mi parse_ip (route_keys routes)) rq routes = Some (i, found)"
  shows "i < length routes \<and> serve (routes ! i) = Some found
    \<and> (request_matches parse_ip rq (routes ! i) \<or> lookup_matches parse_ip serve routes rq i)"
proof -
  let ?ap = "route_applies parse_ip (route_keys routes) (from_utf8_lossy (rq_host rq)) (from_utf8_lossy (rq_path rq)) (rq_source rq)"
  note res = assms(3) [unfolded lookup_uncached_def lookup_candidates [OF assms(1,2)] Let_def]
  show ?thesis
  proof (cases "filter ?ap [0..<length routes] = []")
    case True
    from try_routes_Some [OF res [unfolded if_P [OF True]]] show ?thesis by blast
  next
    case False
    from try_routes_Some [OF res [unfolded if_not_P [OF False]]] show ?thesis by (simp add: lookup_matches_def)
  qed
qed

section \<open>The cache of answers\<close>

lemma snd_cache_get:
  "snd (route_cache_get lru key s) = snd (lru_get lru key (snd (rch_local (route_cache_refresh lru s))))"
  by (auto simp: route_cache_get_def Let_def split: prod.splits option.splits)

lemma refresh_fresh: "fst (rch_local s) = rch_generation s \<Longrightarrow> route_cache_refresh lru s = s"
  by (simp add: route_cache_refresh_def)

text \<open>The answers of a thread are kept in an LRU cache; \<open>cache_usable\<close> says that it is one.\<close>

locale answer_cache = lru_contract lru usable
  for lru :: "('l, nat option) lru" and usable :: "'l \<Rightarrow> bool"
begin

definition cache_usable :: "'l route_cache \<Rightarrow> bool" where
  "cache_usable s \<longleftrightarrow> usable (snd (rch_local s))"

lemma usable_refresh: "cache_usable s \<Longrightarrow> cache_usable (route_cache_refresh lru s)"
  by (simp add: cache_usable_def route_cache_refresh_def usable_new)

lemma usable_cache_get: "cache_usable s \<Longrightarrow> cache_usable (fst (route_cache_get lru key s))"
  using usable_refresh [of s] get [of "snd (rch_local (route_cache_refresh lru s))" key]
  by (auto simp: cache_usable_def route_cache_get_def Let_def split: prod.splits option.splits)

lemma get_after_put:
  assumes "cache_usable s"
  shows "snd (route_cache_get lru key (route_cache_put lru key v s)) = Some v"
proof -
  let ?l = "snd (rch_local (route_cache_refresh lru s))"
  obtain l r where put_eq: "lru_put lru key v ?l = (l, r)" by (cases "lru_put lru key v ?l")
  have "usable ?l" using usable_refresh [OF assms] by (simp add: cache_usable_def)
  from put [OF this put_eq] have l: "usable l" "map_of (lru_iter lru l) key = Some v" by (simp_all add: put_front_def)
  have "snd (rch_local (route_cache_put lru key v s)) = l" by (simp add: route_cache_put_def Let_def put_eq)
  moreover have "route_cache_refresh lru (route_cache_put lru key v s) = route_cache_put lru key v s"
    by (rule refresh_fresh) (simp add: route_cache_refresh_def route_cache_put_def)
  ultimately have "snd (route_cache_get lru key (route_cache_put lru key v s)) = snd (lru_get lru key l)"
    by (simp add: snd_cache_get)
  with get [OF l(1), of key] l(2) show ?thesis by (cases "lru_get lru key l") auto
qed

text \<open>A reload makes every entry of this thread unreachable.\<close>

lemma clear_is_cold:
  assumes "fst (rch_local s) = rch_generation s"
  shows "cold lru key (route_cache_clear s)"
proof -
  have "snd (lru_get lru key (lru_new lru n)) = None" if "0 < n" for n
    using get [OF usable_new [OF that], of key] iter_new [OF that] by (cases "lru_get lru key (lru_new lru n)") auto
  with assms show ?thesis by (simp add: cold_def snd_cache_get route_cache_refresh_def route_cache_clear_def)
qed

text \<open>
  The key of the cache does not contain the headers and the query.  A request that differs only in
  these is served by the route stored for the first one if it meets its conditions, whichever routes
  before it it also meets.
\<close>

lemma cached_answer:
  assumes "cache_usable s" "cold lru (request_key xxh3 rq) s" "lookup_uncached mi parse_ip serve router rq routes = Some (i, found)"
    and "request_key xxh3 rq' = request_key xxh3 rq" "request_matches parse_ip rq' (routes ! i)"
  shows "snd (find_backend_unified lru xxh3 mi parse_ip serve router rq' routes
    (fst (find_backend_unified lru xxh3 mi parse_ip serve router rq routes s))) = Some found"
proof -
  from assms(3) have i: "i < length routes" "serve (routes ! i) = Some found"
    unfolding lookup_uncached_def Let_def by (auto dest: try_routes_Some split: if_splits)
  have "fst (find_backend_unified lru xxh3 mi parse_ip serve router rq routes s) =
      route_cache_put lru (request_key xxh3 rq) (Some i) (fst (route_cache_get lru (request_key xxh3 rq) s))"
    unfolding cold_lookup [OF assms(2)] assms(3) remember_def by simp
  then have "snd (route_cache_get lru (request_key xxh3 rq') (fst (find_backend_unified lru xxh3 mi parse_ip serve router rq routes s)))
      = Some (Some i)" using get_after_put [OF usable_cache_get [OF assms(1)]] assms(4) by simp
  from warm_lookup [where serve = serve and mi = mi and router = router, OF this i(1) assms(5) i(2)] show ?thesis by simp
qed

end

interpretation listed_answers: answer_cache list_lru list_usable
  by unfold_locales

section \<open>Example: two versions of a service\<close>

text \<open>The first route serves requests with the header \<open>x-version: v2\<close>, the second all others.\<close>

definition no_conditions :: route_conditions where
  "no_conditions = \<lparr>rc_host = None, rc_path = None, rc_header = None, rc_method = None, rc_query = None, rc_source_ip = None\<rparr>"

definition version_routes :: "(nat, nat) route list" where
  "version_routes =
    [\<lparr>rt_conditions = no_conditions\<lparr>rc_header := Some [(ascii ''x-version'', ascii ''v2'')]\<rparr>, rt_action = 0, rt_compression = None\<rparr>,
     \<lparr>rt_conditions = no_conditions, rt_action = 1, rt_compression = None\<rparr>]"

definition request_with :: "(bytes \<times> bytes) list \<Rightarrow> request" where
  "request_with headers =
    \<lparr>rq_host = ascii ''example.com'', rq_path = ascii ''/'', rq_method = ascii ''GET'', rq_headers = headers, rq_query = [],
     rq_source = IpV4 0x7F000001\<rparr>"

definition no_answers :: "(nat \<times> (u64 \<times> nat option) list) route_cache" where
  "no_answers = \<lparr>rch_generation = 0, rch_capacity = 10000, rch_local = (0, 10000, []), rch_hits = 0, rch_misses = 0\<rparr>"

abbreviation version_serve :: "(nat, nat) route \<Rightarrow> (nat, nat) found" where
  "version_serve \<equiv> serve_route (\<lambda>rt. Some (rt_action rt)) 0"

lemma version_keys: "route_keys version_routes = [(None, None, None), (None, None, None)]"
  by (simp add: route_keys_def version_routes_def no_conditions_def)

lemma version_valid: "\<forall>k \<in> set (route_keys version_routes). route_key_valid parse_ip k"
  by (simp add: version_keys route_key_valid_def host_valid_def path_valid_def ip_valid_def)

lemma version_applies: "i < 2 \<Longrightarrow> route_applies parse_ip (route_keys version_routes) host path ip i"
  by (auto simp: less_2_cases_iff route_applies_def version_keys host_cond_ok_def path_cond_ok_def ip_cond_ok_def)

lemma version_served:
  "length version_routes = 2" "version_serve (version_routes ! 0) = Some ([], 0, 0)" "version_serve (version_routes ! 1) = Some ([], 1, 0)"
  by (simp_all add: version_routes_def serve_route_def extract_path_prefix_def no_conditions_def)

lemma version_remaining:
  "matches_remaining_conditions (rt_conditions (version_routes ! 0)) m [(ascii ''X-Version'', ascii ''v2'')] q"
  "\<not> matches_remaining_conditions (rt_conditions (version_routes ! 0)) m [] q"
  "matches_remaining_conditions (rt_conditions (version_routes ! 1)) m h q"
proof -
  have e: "eq_ignore_ascii_case (ascii ''X-Version'') (ascii ''x-version'')" "is_utf8 (ascii ''v2'')"
    "\<not> matches_wildcard (ascii ''v2'') []" by code_simp+
  show "matches_remaining_conditions (rt_conditions (version_routes ! 0)) m [(ascii ''X-Version'', ascii ''v2'')] q"
    using e by (simp add: version_routes_def no_conditions_def matches_remaining_conditions_def find_header_value_def utf8_or_empty_def
        matches_wildcard_def)
  show "\<not> matches_remaining_conditions (rt_conditions (version_routes ! 0)) m [] q"
    using e(3) by (simp add: version_routes_def no_conditions_def matches_remaining_conditions_def find_header_value_def)
  show "matches_remaining_conditions (rt_conditions (version_routes ! 1)) m h q"
    by (simp add: version_routes_def no_conditions_def matches_remaining_conditions_def)
qed

lemma version_cold: "cold list_lru key no_answers"
  by (simp add: cold_def snd_cache_get route_cache_refresh_def no_answers_def list_lru_def)

lemma version_usable: "listed_answers.cache_usable no_answers"
  by (simp add: listed_answers.cache_usable_def no_answers_def list_usable_def)

lemma upto_2: "[0..<2] = [0, 1 :: nat]"
  by (simp add: upt_rec)

lemma version_lookup:
  "find (lookup_matches parse_ip version_serve version_routes (request_with [(ascii ''X-Version'', ascii ''v2'')])) [0..<2] = Some 0"
  "find (lookup_matches parse_ip version_serve version_routes (request_with [])) [0..<2] = Some 1"
  using version_remaining version_served version_applies [of 0] version_applies [of 1]
  by (simp_all add: upto_2 lookup_matches_def request_with_def)

lemma version_uncached:
  "lookup_uncached list_matchit parse_ip version_serve (build_optimized_router list_matchit parse_ip (route_keys version_routes))
    (request_with []) version_routes = Some (1, [], 1, 0)"
proof -
  have "filter (route_applies parse_ip (route_keys version_routes) host path ip) [0..<length version_routes] = [0, 1]" for host path ip
    using version_applies [of 0] version_applies [of 1] by (simp add: version_served(1) upto_2)
  then show ?thesis
    unfolding lookup_uncached_def lookup_candidates [OF listed_tree.matchit_contract_axioms version_valid] Let_def
    using version_remaining version_served by (simp add: request_with_def)
qed

text \<open>
  A request without the header makes the second route the cached answer; the next request with the
  header is then served by the second route, although it meets the conditions of the first.
\<close>

lemma header_route_shadowed:
  "let find_backend = find_backend_unified list_lru xxh3 list_matchit parse_ip version_serve
         (build_optimized_router list_matchit parse_ip (route_keys version_routes))
   in snd (find_backend (request_with [(ascii ''X-Version'', ascii ''v2'')]) version_routes
        (fst (find_backend (request_with []) version_routes no_answers))) = Some ([], 1, 0)"
  unfolding Let_def
proof (rule listed_answers.cached_answer [OF version_usable version_cold version_uncached])
  show "request_key xxh3 (request_with [(ascii ''X-Version'', ascii ''v2'')]) = request_key xxh3 (request_with [])"
    by (simp add: request_key_def request_with_def)
  show "request_matches parse_ip (request_with [(ascii ''X-Version'', ascii ''v2'')]) (version_routes ! 1)"
    using version_remaining(3) by (simp add: request_matches_def matches_conditions_def version_routes_def no_conditions_def)
qed

section \<open>The conditions of the linear search\<close>

text \<open>
  The linear search strips \<open>*.\<close> from a wildcard and asks the rest of the host to have no dot.  It
  therefore refuses the subdomains the pattern is meant for and accepts hosts that merely end in the
  domain.  The optimised router does neither.
\<close>

lemma wildcard_of_linear_search:
  "\<not> matches_wildcard (ascii ''*.example.com'') (ascii ''api.example.com'')"
  "matches_wildcard (ascii ''*.example.com'') (ascii ''evilexample.com'')"
  by code_simp+

text \<open>So a request for a foreign host reaches the route when no candidate is left and the linear search takes over.\<close>

lemma foreign_host_refused: "\<not> host_cond_ok (Some (ascii ''*.example.com'')) (ascii ''evilexample.com'')"
proof
  assume "host_cond_ok (Some (ascii ''*.example.com'')) (ascii ''evilexample.com'')"
  moreover have "strip_prefix (ascii ''*.'') (ascii ''*.example.com'') = Some (ascii ''example.com'')"
    "takeWhile (\<lambda>b. b \<noteq> 0x3A) (to_ascii_lowercase (ascii ''evilexample.com'')) = ascii ''evilexample.com''"
    "to_ascii_lowercase (ascii ''example.com'') = ascii ''example.com''" by code_simp+
  ultimately obtain sub where sub: "ascii ''evilexample.com'' = sub @ 0x2E # ascii ''example.com''"
    by (auto simp: host_cond_ok_def Let_def)
  then have "length (ascii ''evilexample.com'') = length sub + Suc (length (ascii ''example.com''))" by simp
  then have "length sub = 3" by (simp add: ascii_def)
  then have "ascii ''evilexample.com'' ! 3 = 0x2E" unfolding sub by (simp add: nth_append)
  then show False by code_simp
qed

lemma foreign_host_served:
  assumes "matchit_contract mi stored" "cold lru (request_key xxh3 rq) s" "rq_host rq = ascii ''evilexample.com''"
    and "rt_conditions rt = no_conditions\<lparr>rc_host := Some (ascii ''*.example.com'')\<rparr>" "serve rt = Some found"
  shows "snd (find_backend_unified lru xxh3 mi parse_ip serve (build_optimized_router mi parse_ip (route_keys [rt])) rq [rt] s) =
    Some found"
proof -
  have h: "is_utf8 (ascii ''evilexample.com'')" "find_byte 0x3A (ascii ''evilexample.com'') = None"
    "from_utf8_lossy (ascii ''evilexample.com'') = ascii ''evilexample.com''" "0x3A \<notin> set (ascii ''*.example.com'')" by code_simp+
  have keys: "route_keys [rt] = [(Some (ascii ''*.example.com''), None, None)]"
    using assms(4) by (simp add: route_keys_def no_conditions_def)
  have valid: "\<forall>k \<in> set (route_keys [rt]). route_key_valid parse_ip k"
    using h(4) by (simp add: keys route_key_valid_def host_valid_def path_valid_def ip_valid_def)
  have "filter (route_applies parse_ip (route_keys [rt]) (from_utf8_lossy (rq_host rq)) path ip) [0..<length [rt]] = []" for path ip
    using foreign_host_refused by (simp add: route_applies_def keys assms(3) h(3))
  then have none: "router_candidates mi (build_optimized_router mi parse_ip (route_keys [rt])) (from_utf8_lossy (rq_host rq)) path ip = []"
    for path ip unfolding lookup_candidates [OF assms(1) valid] .
  have "request_matches parse_ip rq rt"
    using assms(3,4) h wildcard_of_linear_search(2)
    by (simp add: request_matches_def matches_conditions_def matches_remaining_conditions_def no_conditions_def)
  then show ?thesis
    unfolding cold_lookup [OF assms(2)] snd_remember lookup_uncached_def none Let_def using assms(5) by simp
qed

text \<open>A network of prefix length 0 covers every address for the router, but only its own address here.\<close>

lemma all_addresses_of_linear_search:
  assumes "parse_ip (ascii ''0.0.0.0'') = Some (IpV4 0)"
  shows "matches_cidr parse_ip (IpV4 a) [ascii ''0.0.0.0/0''] \<longleftrightarrow> a = 0"
proof -
  have "split_once 0x2F (ascii ''0.0.0.0/0'') = Some (ascii ''0.0.0.0'', ascii ''0'')" "parse_u8 (ascii ''0'') = Some 0"
    by code_simp+
  with assms show ?thesis by (simp add: matches_cidr_def cidr_matches_one_def)
qed

text \<open>A percent sign without two hexadecimal digits swallows the two characters after it.\<close>

lemma url_decode_loses_input: "url_decode (ascii ''100%zzab'') = ascii ''100%ab''"
  by code_simp





end
