(* ===== verification/Cache_Policy.thy ===== *)
theory Cache_Policy
  imports Rust_Str
begin

text \<open>
  Which responses the cache may store and for how long (\<open>cache/policy.rs\<close>): the \<open>Cache-Control\<close>
  directives, the \<open>Vary\<close> header and the requests that bypass the cache.  Directives are compared
  after \<open>to_lowercase\<close>; no letter of a directive is the lower case of a character outside ASCII, so
  the folding of ASCII letters decides the same.
\<close>

type_synonym headers = "(bytes \<times> bytes) list"

definition header_value :: "bytes \<Rightarrow> headers \<Rightarrow> bytes option" where
  "header_value name hs = map_option snd (find (\<lambda>(n, _). eq_ignore_ascii_case n name) hs)"

section \<open>Cache-Control\<close>

record cache_control =
  cc_max_age :: "nat option"
  cc_s_maxage :: "nat option"
  cc_no_cache :: bool
  cc_no_store :: bool
  cc_private :: bool
  cc_public :: bool
  cc_must_revalidate :: bool
  cc_proxy_revalidate :: bool
  cc_stale_while_revalidate :: "nat option"
  cc_stale_if_error :: "nat option"
  cc_no_transform :: bool
  cc_immutable :: bool

definition cache_control_default :: cache_control where
  "cache_control_default =
    \<lparr>cc_max_age = None, cc_s_maxage = None, cc_no_cache = False, cc_no_store = False, cc_private = False, cc_public = False,
     cc_must_revalidate = False, cc_proxy_revalidate = False, cc_stale_while_revalidate = None, cc_stale_if_error = None,
     cc_no_transform = False, cc_immutable = False\<rparr>"

definition apply_directive :: "bytes \<Rightarrow> cache_control \<Rightarrow> cache_control" where
  "apply_directive directive cc =
    (if directive = ascii ''no-cache'' then cc\<lparr>cc_no_cache := True\<rparr>
     else if directive = ascii ''no-store'' then cc\<lparr>cc_no_store := True\<rparr>
     else if directive = ascii ''private'' then cc\<lparr>cc_private := True\<rparr>
     else if directive = ascii ''public'' then cc\<lparr>cc_public := True\<rparr>
     else if directive = ascii ''must-revalidate'' then cc\<lparr>cc_must_revalidate := True\<rparr>
     else if directive = ascii ''proxy-revalidate'' then cc\<lparr>cc_proxy_revalidate := True\<rparr>
     else if directive = ascii ''no-transform'' then cc\<lparr>cc_no_transform := True\<rparr>
     else if directive = ascii ''immutable'' then cc\<lparr>cc_immutable := True\<rparr>
     else
       case strip_prefix (ascii ''max-age='') directive of
         Some v \<Rightarrow> cc\<lparr>cc_max_age := parse_u64 v\<rparr>
       | None \<Rightarrow>
          (case strip_prefix (ascii ''s-maxage='') directive of
             Some v \<Rightarrow> cc\<lparr>cc_s_maxage := parse_u64 v\<rparr>
           | None \<Rightarrow>
              (case strip_prefix (ascii ''stale-while-revalidate='') directive of
                 Some v \<Rightarrow> cc\<lparr>cc_stale_while_revalidate := parse_u64 v\<rparr>
               | None \<Rightarrow>
                  (case strip_prefix (ascii ''stale-if-error='') directive of
                     Some v \<Rightarrow> cc\<lparr>cc_stale_if_error := parse_u64 v\<rparr>
                   | None \<Rightarrow> cc))))"

definition cache_control_parse :: "bytes \<Rightarrow> cache_control" where
  "cache_control_parse value =
    (if is_utf8 value
     then fold (\<lambda>d. apply_directive (to_ascii_lowercase (trim_str d))) (split_on 0x2C value) cache_control_default
     else cache_control_default)"

definition cc_is_cacheable :: "cache_control \<Rightarrow> bool" where
  "cc_is_cacheable cc = (if cc_no_store cc then False else if cc_private cc then False else True)"

definition effective_ttl :: "cache_control \<Rightarrow> nat \<Rightarrow> nat" where
  "effective_ttl cc default_ttl =
    (case (case cc_s_maxage cc of Some t \<Rightarrow> Some t | None \<Rightarrow> cc_max_age cc) of Some t \<Rightarrow> t | None \<Rightarrow> default_ttl)"

definition within_stale_while_revalidate :: "cache_control \<Rightarrow> nat \<Rightarrow> bool" where
  "within_stale_while_revalidate cc stale_secs =
    (case cc_stale_while_revalidate cc of Some swr \<Rightarrow> stale_secs \<le> swr | None \<Rightarrow> False)"

definition within_stale_if_error :: "cache_control \<Rightarrow> nat \<Rightarrow> bool" where
  "within_stale_if_error cc stale_secs = (case cc_stale_if_error cc of Some sie \<Rightarrow> stale_secs \<le> sie | None \<Rightarrow> False)"

section \<open>The policy\<close>

definition check_response :: "u16 \<Rightarrow> headers \<Rightarrow> u16 list \<Rightarrow> nat \<Rightarrow> nat option" where
  "check_response status_code response_headers cacheable_statuses default_ttl =
    (if status_code \<notin> set cacheable_statuses then None
     else
       let cc = (case header_value (ascii ''cache-control'') response_headers of
                   Some v \<Rightarrow> cache_control_parse v
                 | None \<Rightarrow> cache_control_default)
       in if \<not> cc_is_cacheable cc then None
          else let ttl = effective_ttl cc default_ttl in if ttl = 0 then None else Some ttl)"

datatype vary_result = VaryNotPresent | VaryUncacheable | VaryHeaders "bytes list"

definition vary_is_cacheable :: "vary_result \<Rightarrow> bool" where
  "vary_is_cacheable r = (case r of VaryUncacheable \<Rightarrow> False | _ \<Rightarrow> True)"

definition vary_headers :: "vary_result \<Rightarrow> bytes list option" where
  "vary_headers r = (case r of VaryHeaders h \<Rightarrow> Some h | _ \<Rightarrow> None)"

definition parse_vary_ex :: "headers \<Rightarrow> vary_result" where
  "parse_vary_ex response_headers =
    (case header_value (ascii ''vary'') response_headers of
       None \<Rightarrow> VaryNotPresent
     | Some v \<Rightarrow>
         if \<not> is_utf8 v then VaryNotPresent
         else if trim_str v = ascii ''*'' then VaryUncacheable
         else VaryHeaders (filter (\<lambda>s. s \<noteq> []) (map (\<lambda>s. to_ascii_lowercase (trim_str s)) (split_on 0x2C v))))"

definition parse_vary :: "headers \<Rightarrow> bytes list option" where
  "parse_vary response_headers =
    (case parse_vary_ex response_headers of
       VaryHeaders h \<Rightarrow> Some h
     | VaryNotPresent \<Rightarrow> Some []
     | VaryUncacheable \<Rightarrow> None)"

fun request_bypasses_cache :: "headers \<Rightarrow> bool" where
  "request_bypasses_cache [] = False"
| "request_bypasses_cache ((name, value) # hs) =
    (if eq_ignore_ascii_case name (ascii ''cache-control'') then
       (let cc = cache_control_parse value
        in if cc_no_cache cc \<or> cc_no_store cc then True else request_bypasses_cache hs)
     else if eq_ignore_ascii_case name (ascii ''pragma'') \<and> eq_ignore_ascii_case value (ascii ''no-cache'') then True
     else request_bypasses_cache hs)"

definition get_if_none_match :: "headers \<Rightarrow> bytes option" where
  "get_if_none_match = header_value (ascii ''if-none-match'')"

definition get_if_modified_since :: "headers \<Rightarrow> bytes option" where
  "get_if_modified_since = header_value (ascii ''if-modified-since'')"

section \<open>What the directives of a header say\<close>

definition directives :: "bytes \<Rightarrow> bytes list" where
  "directives v = (if is_utf8 v then map (\<lambda>d. to_ascii_lowercase (trim_str d)) (split_on 0x2C v) else [])"

text \<open>The argument of the last directive of this name, if it is a number.\<close>

definition directive_seconds :: "bytes \<Rightarrow> bytes list \<Rightarrow> nat option" where
  "directive_seconds name ds =
    (case rev (filter (starts_with name) ds) of [] \<Rightarrow> None | d # _ \<Rightarrow> parse_u64 (drop (length name) d))"

lemma cache_control_parse_fold: "cache_control_parse v = fold apply_directive (directives v) cache_control_default"
  by (simp add: cache_control_parse_def directives_def fold_map comp_def)

lemma strip_prefix_starts: "strip_prefix p s = (if starts_with p s then Some (drop (length p) s) else None)"
  by (simp add: strip_prefix_def starts_with_def)

lemma starts_with_first:
  assumes "starts_with p s" "p = a # p'"
  shows "\<exists>s'. s = a # s'"
  using assms by (cases s) (auto simp: starts_with_def)

lemma two_prefixes:
  assumes "starts_with p s" "starts_with q s"
  shows "take (min (length p) (length q)) p = take (min (length p) (length q)) q"
proof -
  have "take n p = take n s" if "starts_with p s" "n \<le> length p" for n and p :: "'a list"
    using that take_take [of n "length p" s] by (simp add: starts_with_def)
  from this [OF assms(1)] this [OF assms(2)] show ?thesis by simp
qed

lemma no_store_directive: "cc_no_store (apply_directive d cc) \<longleftrightarrow> cc_no_store cc \<or> d = ascii ''no-store''"
  by (auto simp: apply_directive_def ascii_def split: option.splits)

lemma private_directive: "cc_private (apply_directive d cc) \<longleftrightarrow> cc_private cc \<or> d = ascii ''private''"
  by (auto simp: apply_directive_def ascii_def split: option.splits)

lemma no_cache_directive: "cc_no_cache (apply_directive d cc) \<longleftrightarrow> cc_no_cache cc \<or> d = ascii ''no-cache''"
  by (auto simp: apply_directive_def ascii_def split: option.splits)

definition flag_names :: "bytes list" where
  "flag_names =
    [ascii ''no-cache'', ascii ''no-store'', ascii ''private'', ascii ''public'', ascii ''must-revalidate'',
     ascii ''proxy-revalidate'', ascii ''no-transform'', ascii ''immutable'']"

lemma keyword_no_argument:
  "d \<in> set flag_names \<Longrightarrow> \<not> starts_with (ascii ''max-age='') d \<and> \<not> starts_with (ascii ''s-maxage='') d"
  by (auto simp: flag_names_def starts_with_def ascii_def)

lemma keyword_keeps:
  "d \<in> set flag_names \<Longrightarrow> cc_max_age (apply_directive d cc) = cc_max_age cc \<and> cc_s_maxage (apply_directive d cc) = cc_s_maxage cc"
  unfolding flag_names_def set_simps insert_iff empty_iff by (elim disjE) (simp_all add: apply_directive_def)

lemma argument_directive:
  assumes "d \<notin> set flag_names"
  shows "cc_max_age (apply_directive d cc) =
      (if starts_with (ascii ''max-age='') d then parse_u64 (drop (length (ascii ''max-age='')) d) else cc_max_age cc)"
    and "cc_s_maxage (apply_directive d cc) =
      (if \<not> starts_with (ascii ''max-age='') d \<and> starts_with (ascii ''s-maxage='') d
       then parse_u64 (drop (length (ascii ''s-maxage='')) d) else cc_s_maxage cc)"
  using assms by (simp_all add: flag_names_def apply_directive_def strip_prefix_starts)

lemma max_age_directive:
  "cc_max_age (apply_directive d cc) =
    (if starts_with (ascii ''max-age='') d then parse_u64 (drop (length (ascii ''max-age='')) d) else cc_max_age cc)"
  using keyword_no_argument keyword_keeps argument_directive(1) by (cases "d \<in> set flag_names") simp_all

lemma s_maxage_directive:
  "cc_s_maxage (apply_directive d cc) =
    (if starts_with (ascii ''s-maxage='') d then parse_u64 (drop (length (ascii ''s-maxage='')) d) else cc_s_maxage cc)"
proof -
  have "take 8 (ascii ''max-age='') \<noteq> take 8 (ascii ''s-maxage='')" by code_simp
  moreover have "min (length (ascii ''max-age='')) (length (ascii ''s-maxage='')) = 8" by (simp add: ascii_def)
  ultimately have "\<not> (starts_with (ascii ''max-age='') d \<and> starts_with (ascii ''s-maxage='') d)"
    using two_prefixes [of "ascii ''max-age=''" d "ascii ''s-maxage=''"] by auto
  then show ?thesis
    using keyword_no_argument keyword_keeps argument_directive(2) by (cases "d \<in> set flag_names") auto
qed

lemma directive_seconds_snoc:
  "directive_seconds name (ds @ [d]) =
    (if starts_with name d then parse_u64 (drop (length name) d) else directive_seconds name ds)"
  by (simp add: directive_seconds_def)

lemma parsed_directives:
  "cc_no_store (fold apply_directive ds cache_control_default) \<longleftrightarrow> ascii ''no-store'' \<in> set ds"
  "cc_private (fold apply_directive ds cache_control_default) \<longleftrightarrow> ascii ''private'' \<in> set ds"
  "cc_no_cache (fold apply_directive ds cache_control_default) \<longleftrightarrow> ascii ''no-cache'' \<in> set ds"
  "cc_max_age (fold apply_directive ds cache_control_default) = directive_seconds (ascii ''max-age='') ds"
  "cc_s_maxage (fold apply_directive ds cache_control_default) = directive_seconds (ascii ''s-maxage='') ds"
proof (induction ds rule: rev_induct)
  case Nil
  show "cc_no_store (fold apply_directive [] cache_control_default) \<longleftrightarrow> ascii ''no-store'' \<in> set []"
    "cc_private (fold apply_directive [] cache_control_default) \<longleftrightarrow> ascii ''private'' \<in> set []"
    "cc_no_cache (fold apply_directive [] cache_control_default) \<longleftrightarrow> ascii ''no-cache'' \<in> set []"
    "cc_max_age (fold apply_directive [] cache_control_default) = directive_seconds (ascii ''max-age='') []"
    "cc_s_maxage (fold apply_directive [] cache_control_default) = directive_seconds (ascii ''s-maxage='') []"
    by (simp_all add: cache_control_default_def directive_seconds_def)
next
  case (snoc d ds)
  note eqs = fold_append comp_apply fold_simps(2) fold_simps(1) id_apply
  { case 1 show ?case unfolding eqs fold.simps comp_def id_def no_store_directive snoc.IH(1) by auto }
  { case 2 show ?case unfolding eqs fold.simps comp_def id_def private_directive snoc.IH(2) by auto }
  { case 3 show ?case unfolding eqs fold.simps comp_def id_def no_cache_directive snoc.IH(3) by auto }
  { case 4 show ?case unfolding eqs fold.simps comp_def id_def max_age_directive snoc.IH(4) directive_seconds_snoc .. }
  { case 5 show ?case unfolding eqs fold.simps comp_def id_def s_maxage_directive snoc.IH(5) directive_seconds_snoc .. }
qed

definition response_directives :: "headers \<Rightarrow> bytes list" where
  "response_directives hs = (case header_value (ascii ''cache-control'') hs of Some v \<Rightarrow> directives v | None \<Rightarrow> [])"

lemma response_control:
  "(case header_value (ascii ''cache-control'') hs of Some v \<Rightarrow> cache_control_parse v | None \<Rightarrow> cache_control_default) =
    fold apply_directive (response_directives hs) cache_control_default"
  by (simp add: response_directives_def cache_control_parse_fold split: option.splits)

text \<open>C41: The storing policy is exact.  A response is stored for \<open>ttl\<close> seconds if and only if its
  status is listed, the directives of its first \<open>Cache-Control\<close> header contain neither \<open>no-store\<close>
  nor \<open>private\<close>, and \<open>ttl\<close> is not zero, where \<open>ttl\<close> is the last \<open>s-maxage\<close>, failing that the last
  \<open>max-age\<close>, failing that the default.  White space, letter case, the order of the directives and
  directives it does not know make no difference.\<close>

theorem check_response_exact:
  "check_response status hs statuses default_ttl = Some ttl \<longleftrightarrow>
    status \<in> set statuses \<and> ascii ''no-store'' \<notin> set (response_directives hs) \<and> ascii ''private'' \<notin> set (response_directives hs)
    \<and> ttl \<noteq> 0
    \<and> ttl = (case directive_seconds (ascii ''s-maxage='') (response_directives hs) of
                Some t \<Rightarrow> t
              | None \<Rightarrow> (case directive_seconds (ascii ''max-age='') (response_directives hs) of Some t \<Rightarrow> t | None \<Rightarrow> default_ttl))"
  unfolding check_response_def response_control Let_def cc_is_cacheable_def effective_ttl_def parsed_directives
  by (auto split: option.splits)

text \<open>Only the first of several headers counts, although they are to be read as one list.\<close>

lemma second_cache_control_ignored:
  "check_response 200 [(ascii ''Cache-Control'', ascii ''max-age=60''), (ascii ''Cache-Control'', ascii ''no-store'')] [200] 300 =
    Some 60"
proof -
  let ?hs = "[(ascii ''Cache-Control'', ascii ''max-age=60''), (ascii ''Cache-Control'', ascii ''no-store'')]"
  have "eq_ignore_ascii_case (ascii ''Cache-Control'') (ascii ''cache-control'')" "split_on 0x2C (ascii ''max-age=60'') = [ascii ''max-age=60'']"
    "to_ascii_lowercase (ascii ''max-age=60'') = ascii ''max-age=60''" "is_utf8 (ascii ''max-age=60'')" by code_simp+
  moreover have "trim_str (ascii ''max-age=60'') = ascii ''max-age=60''" by (rule trim_str_plain) code_simp+
  ultimately have d: "response_directives ?hs = [ascii ''max-age=60'']"
    by (simp add: response_directives_def header_value_def directives_def)
  have "ascii ''max-age=60'' \<noteq> ascii ''no-store''" "ascii ''max-age=60'' \<noteq> ascii ''private''"
    "starts_with (ascii ''max-age='') (ascii ''max-age=60'')" "\<not> starts_with (ascii ''s-maxage='') (ascii ''max-age=60'')"
    "drop (length (ascii ''max-age='')) (ascii ''max-age=60'') = [0x36, 0x30]" by code_simp+
  moreover have "parse_u64 [0x36, 0x30] = Some 60" by (simp add: parse_u64_def from_str_radix_def digit_value_def)
  ultimately show ?thesis
    unfolding check_response_def response_control d Let_def cc_is_cacheable_def effective_ttl_def parsed_directives
    by (simp add: directive_seconds_def)
qed

text \<open>A \<open>Vary\<close> that lists the star among other names is not recognised.\<close>

lemma vary_star_in_list: "vary_is_cacheable (parse_vary_ex [(ascii ''Vary'', ascii ''Accept, *'')])"
proof -
  have "eq_ignore_ascii_case (ascii ''Vary'') (ascii ''vary'')" "is_utf8 (ascii ''Accept, *'')"
    "ascii ''Accept, *'' \<noteq> ascii ''*''" by code_simp+
  moreover have "trim_str (ascii ''Accept, *'') = ascii ''Accept, *''" by (rule trim_str_plain) code_simp+
  ultimately show ?thesis by (simp add: parse_vary_ex_def header_value_def vary_is_cacheable_def)
qed

end
