(* ===== verification/Cache_Entry.thy ===== *)
theory Cache_Entry
  imports Cache_Policy "HOL-Library.List_Lexorder"
begin

text \<open>
  Keys and entries of the response cache (\<open>cache/key.rs\<close>, \<open>cache/entry.rs\<close>).  The hash is a library
  function and a parameter, and so is the size of the entry structure, which the compiler chooses.
  Instants are nanoseconds; every reading of the clock is an argument.
\<close>

section \<open>Keys\<close>

datatype cacheable_method = CmGet | CmHead

definition cacheable_method_from_bytes :: "bytes \<Rightarrow> cacheable_method option" where
  "cacheable_method_from_bytes mthd =
    (if eq_ignore_ascii_case mthd (ascii ''GET'') then Some CmGet
     else if eq_ignore_ascii_case mthd (ascii ''HEAD'') then Some CmHead
     else None)"

definition cacheable_method_as_str :: "cacheable_method \<Rightarrow> bytes" where
  "cacheable_method_as_str m = (case m of CmGet \<Rightarrow> ascii ''GET'' | CmHead \<Rightarrow> ascii ''HEAD'')"

record cache_key =
  ck_method :: cacheable_method
  ck_host :: bytes
  ck_path :: bytes
  ck_vary_key :: "bytes option"
  ck_hash :: u64

definition compute_hash :: "(bytes \<Rightarrow> u64) \<Rightarrow> cacheable_method \<Rightarrow> bytes \<Rightarrow> bytes \<Rightarrow> bytes option \<Rightarrow> u64" where
  "compute_hash xxh3_64 mthd host path vary_key =
    xxh3_64 (cacheable_method_as_str mthd @ [0] @ host @ [0] @ path
      @ (case vary_key of Some vary \<Rightarrow> 0 # vary | None \<Rightarrow> []))"

definition cache_key_new :: "(bytes \<Rightarrow> u64) \<Rightarrow> cacheable_method \<Rightarrow> bytes \<Rightarrow> bytes \<Rightarrow> bytes option \<Rightarrow> cache_key" where
  "cache_key_new xxh3_64 mthd host path vary_key =
    \<lparr>ck_method = mthd, ck_host = host, ck_path = path, ck_vary_key = vary_key,
     ck_hash = compute_hash xxh3_64 mthd host path vary_key\<rparr>"

definition vary_key_of :: "headers \<Rightarrow> bytes" where
  "vary_key_of hs = join_with [0x3B] (sort (map (\<lambda>(name, value). to_ascii_lowercase name @ 0x3A # value) hs))"

definition cache_key_from_request ::
    "(bytes \<Rightarrow> u64) \<Rightarrow> bytes \<Rightarrow> bytes \<Rightarrow> bytes \<Rightarrow> bytes option \<Rightarrow> bool \<Rightarrow> headers option \<Rightarrow> cache_key option" where
  "cache_key_from_request xxh3_64 mthd host path query include_query vary =
    (case cacheable_method_from_bytes mthd of
       None \<Rightarrow> None
     | Some m \<Rightarrow>
         let full_path = (if include_query
                          then (case query of Some q \<Rightarrow> if q \<noteq> [] then path @ 0x3F # q else path | None \<Rightarrow> path)
                          else path)
         in Some (cache_key_new xxh3_64 m host full_path (map_option vary_key_of vary)))"

text \<open>Every key is made by \<open>cache_key_new\<close>, so its hash is determined by its other fields.\<close>

definition hashed_key :: "(bytes \<Rightarrow> u64) \<Rightarrow> cache_key \<Rightarrow> bool" where
  "hashed_key xxh3_64 k \<longleftrightarrow> k = cache_key_new xxh3_64 (ck_method k) (ck_host k) (ck_path k) (ck_vary_key k)"

lemma hashed_key_new [simp]: "hashed_key xxh3_64 (cache_key_new xxh3_64 m h p v)"
  by (simp add: hashed_key_def cache_key_new_def)

text \<open>
  The parts of the vary key are joined without escaping: a header whose value holds a semicolon
  stands for two headers, and the two requests share a cache entry.
\<close>

lemma vary_key_ambiguous:
  "vary_key_of [(ascii ''a'', ascii ''x;b:y'')] = vary_key_of [(ascii ''a'', ascii ''x''), (ascii ''b'', ascii ''y'')]"
  by code_simp

section \<open>Entries\<close>

datatype cache_storage = StoredInMemory bytes | StoredOnDisk bytes nat

definition storage_size :: "cache_storage \<Rightarrow> nat" where
  "storage_size s = (case s of StoredInMemory data \<Rightarrow> length data | StoredOnDisk _ sz \<Rightarrow> sz)"

record cache_entry =
  ce_status_code :: u16
  ce_headers :: headers
  ce_storage :: cache_storage
  ce_created_at :: nat
  ce_max_age_secs :: nat
  ce_etag :: "bytes option"
  ce_last_modified :: "bytes option"
  ce_content_type :: "bytes option"
  ce_content_encoding :: "bytes option"
  ce_body_size :: nat
  ce_vary_headers :: "bytes list option"

type_synonym marks = "bytes option \<times> bytes option \<times> bytes option \<times> bytes option"

definition note_header :: "bytes \<times> bytes \<Rightarrow> marks \<Rightarrow> marks" where
  "note_header h m =
    (case (h, m) of
       ((name, value), etag, last_modified, content_type, content_encoding) \<Rightarrow>
         let v = (if is_utf8 value then Some value else None)
         in if eq_ignore_ascii_case name (ascii ''etag'')
            then (case v of Some s \<Rightarrow> (Some s, last_modified, content_type, content_encoding) | None \<Rightarrow> m)
            else if eq_ignore_ascii_case name (ascii ''last-modified'')
            then (case v of Some s \<Rightarrow> (etag, Some s, content_type, content_encoding) | None \<Rightarrow> m)
            else if eq_ignore_ascii_case name (ascii ''content-type'')
            then (case v of Some s \<Rightarrow> (etag, last_modified, Some s, content_encoding) | None \<Rightarrow> m)
            else if eq_ignore_ascii_case name (ascii ''content-encoding'')
            then (case v of Some s \<Rightarrow> (etag, last_modified, content_type, Some s) | None \<Rightarrow> m)
            else m)"

definition cache_entry_with_vary :: "nat \<Rightarrow> u16 \<Rightarrow> headers \<Rightarrow> cache_storage \<Rightarrow> nat \<Rightarrow> bytes list option \<Rightarrow> cache_entry" where
  "cache_entry_with_vary now status_code hs storage max_age_secs vary =
    (case fold note_header hs (None, None, None, None) of
       (etag, last_modified, content_type, content_encoding) \<Rightarrow>
         \<lparr>ce_status_code = status_code, ce_headers = hs, ce_storage = storage, ce_created_at = now,
          ce_max_age_secs = max_age_secs, ce_etag = etag, ce_last_modified = last_modified, ce_content_type = content_type,
          ce_content_encoding = content_encoding, ce_body_size = storage_size storage, ce_vary_headers = vary\<rparr>)"

definition cache_entry_new :: "nat \<Rightarrow> u16 \<Rightarrow> headers \<Rightarrow> cache_storage \<Rightarrow> nat \<Rightarrow> cache_entry" where
  "cache_entry_new now status_code hs storage max_age_secs = cache_entry_with_vary now status_code hs storage max_age_secs None"

definition elapsed_secs :: "nat \<Rightarrow> cache_entry \<Rightarrow> nat" where
  "elapsed_secs now e = (now - ce_created_at e) div 1000000000"

definition entry_is_valid :: "nat \<Rightarrow> cache_entry \<Rightarrow> bool" where
  "entry_is_valid now e \<longleftrightarrow> elapsed_secs now e < ce_max_age_secs e"

definition remaining_ttl :: "nat \<Rightarrow> cache_entry \<Rightarrow> nat" where
  "remaining_ttl now e = ce_max_age_secs e - elapsed_secs now e"

definition stale_duration :: "nat \<Rightarrow> cache_entry \<Rightarrow> nat" where
  "stale_duration now e = elapsed_secs now e - ce_max_age_secs e"

definition memory_body :: "cache_entry \<Rightarrow> bytes option" where
  "memory_body e = (case ce_storage e of StoredInMemory data \<Rightarrow> Some data | _ \<Rightarrow> None)"

definition disk_path :: "cache_entry \<Rightarrow> bytes option" where
  "disk_path e = (case ce_storage e of StoredOnDisk path _ \<Rightarrow> Some path | _ \<Rightarrow> None)"

definition opt_len :: "bytes option \<Rightarrow> nat" where
  "opt_len s = (case s of Some v \<Rightarrow> length v | None \<Rightarrow> 0)"

definition entry_memory_usage :: "nat \<Rightarrow> cache_entry \<Rightarrow> nat" where
  "entry_memory_usage size_of_entry e =
    size_of_entry + sum_list (map (\<lambda>(name, value). length name + length value) (ce_headers e))
    + (case ce_storage e of StoredInMemory data \<Rightarrow> length data | _ \<Rightarrow> 0)
    + opt_len (ce_etag e) + opt_len (ce_last_modified e) + opt_len (ce_content_type e) + opt_len (ce_content_encoding e)
    + (case ce_vary_headers e of Some vary \<Rightarrow> sum_list (map length vary) | None \<Rightarrow> 0)"

lemma entry_with_vary_fields [simp]:
  "ce_status_code (cache_entry_with_vary now st hs sto age vary) = st"
  "ce_headers (cache_entry_with_vary now st hs sto age vary) = hs"
  "ce_storage (cache_entry_with_vary now st hs sto age vary) = sto"
  "ce_created_at (cache_entry_with_vary now st hs sto age vary) = now"
  "ce_max_age_secs (cache_entry_with_vary now st hs sto age vary) = age"
  by (simp_all add: cache_entry_with_vary_def split: prod.splits)

lemma valid_iff_remaining: "entry_is_valid now e \<longleftrightarrow> 0 < remaining_ttl now e"
  by (simp add: entry_is_valid_def remaining_ttl_def)

lemma expired_iff_stale: "\<not> entry_is_valid now e \<Longrightarrow> elapsed_secs now e = ce_max_age_secs e + stale_duration now e"
  by (simp add: entry_is_valid_def stale_duration_def)

end
