(* ===== verification/Memory_Cache.thy ===== *)
theory Memory_Cache
  imports Cache_Entry Lru
begin

text \<open>
  The in-memory cache (\<open>cache/memory.rs\<close>): sixteen LRU caches and one counter of the memory in use.
  The LRU cache is the library of \<open>Lru\<close>; \<open>len\<close> and \<open>peek\<close> are read off its list of entries.  The
  eviction loop is a partial function, since only the contract of the library makes it end.
\<close>

record memory_cache_entry =
  me_key :: cache_key
  me_entry :: cache_entry

type_synonym 'l mem_lru = "('l, memory_cache_entry) lru"

record 'l memory_cache =
  mc_shards :: "'l list"
  mc_max_memory :: nat
  mc_current_memory :: u64
  mc_created_at :: nat

definition SHARD_COUNT :: nat where
  "SHARD_COUNT = 16"

definition memory_cache_new :: "'l mem_lru \<Rightarrow> nat \<Rightarrow> nat \<Rightarrow> nat \<Rightarrow> 'l memory_cache" where
  "memory_cache_new lru now max_entries max_memory =
    (let per_shard = max (max_entries div SHARD_COUNT) 1
     in \<lparr>mc_shards = replicate SHARD_COUNT (lru_new lru per_shard), mc_max_memory = max_memory, mc_current_memory = 0,
         mc_created_at = now\<rparr>)"

definition shard_index :: "u64 \<Rightarrow> nat" where
  "shard_index hash = unat (hash AND 15)"

abbreviation used_by :: "nat \<Rightarrow> memory_cache_entry \<Rightarrow> u64" where
  "used_by size_of e \<equiv> of_nat (entry_memory_usage size_of (me_entry e))"

definition shard_get :: "'l mem_lru \<Rightarrow> nat \<Rightarrow> nat \<Rightarrow> cache_key \<Rightarrow> 'l \<times> u64 \<Rightarrow> ('l \<times> u64) \<times> cache_entry option" where
  "shard_get lru size_of now key c =
    (case lru_get lru (ck_hash key) (fst c) of
       (l, Some e) \<Rightarrow>
         if me_key e = key
         then if entry_is_valid now (me_entry e) then ((l, snd c), Some (me_entry e))
              else (case lru_pop lru (ck_hash key) l of
                      (l, Some expired) \<Rightarrow> ((l, snd c - used_by size_of expired), None)
                    | (l, None) \<Rightarrow> ((l, snd c), None))
         else ((l, snd c), None)
     | (l, None) \<Rightarrow> ((l, snd c), None))"

partial_function (option) evict_for :: "'l mem_lru \<Rightarrow> nat \<Rightarrow> nat \<Rightarrow> nat \<Rightarrow> 'l \<times> u64 \<Rightarrow> ('l \<times> u64) option" where
  "evict_for lru size_of memory max_memory c =
    (if unat (snd c + of_nat memory) > max_memory
     then case lru_pop_lru lru (fst c) of
            (l, Some (_, evicted)) \<Rightarrow> evict_for lru size_of memory max_memory (l, snd c - used_by size_of evicted)
          | (l, None) \<Rightarrow> Some (l, snd c)
     else Some c)"

definition make_room :: "'l mem_lru \<Rightarrow> nat \<Rightarrow> u64 \<Rightarrow> 'l \<times> u64 \<Rightarrow> 'l \<times> u64" where
  "make_room lru size_of hash c =
    (if length (lru_iter lru (fst c)) \<ge> lru_cap lru (fst c) \<and> map_of (lru_iter lru (fst c)) hash = None
     then case lru_pop_lru lru (fst c) of
            (l, Some (_, evicted)) \<Rightarrow> (l, snd c - used_by size_of evicted)
          | (l, None) \<Rightarrow> (l, snd c)
     else c)"

definition shard_insert ::
    "'l mem_lru \<Rightarrow> nat \<Rightarrow> nat \<Rightarrow> cache_key \<Rightarrow> cache_entry \<Rightarrow> 'l \<times> u64 \<Rightarrow> (('l \<times> u64) \<times> bool) option" where
  "shard_insert lru size_of max_memory key entry c =
    (let memory = entry_memory_usage size_of entry
     in case evict_for lru size_of memory max_memory c of
          None \<Rightarrow> None
        | Some c \<Rightarrow>
            if unat (snd c + of_nat memory) > max_memory then Some (c, False)
            else
              let c = make_room lru size_of (ck_hash key) c;
                  cur = snd c + of_nat memory
              in case lru_put lru (ck_hash key) \<lparr>me_key = key, me_entry = entry\<rparr> (fst c) of
                   (l, Some old) \<Rightarrow> Some ((l, cur - used_by size_of old), True)
                 | (l, None) \<Rightarrow> Some ((l, cur), True))"

definition shard_remove :: "'l mem_lru \<Rightarrow> nat \<Rightarrow> cache_key \<Rightarrow> 'l \<times> u64 \<Rightarrow> ('l \<times> u64) \<times> cache_entry option" where
  "shard_remove lru size_of key c =
    (case lru_pop lru (ck_hash key) (fst c) of
       (l, Some e) \<Rightarrow>
         if me_key e = key then ((l, snd c - used_by size_of e), Some (me_entry e))
         else ((fst (lru_put lru (ck_hash key) e l), snd c), None)
     | (l, None) \<Rightarrow> ((l, snd c), None))"

text \<open>Each entry is examined at its own time: \<open>now hash\<close>.\<close>

definition drop_hash :: "'l mem_lru \<Rightarrow> nat \<Rightarrow> u64 \<Rightarrow> ('l \<times> u64) \<times> nat \<Rightarrow> ('l \<times> u64) \<times> nat" where
  "drop_hash lru size_of hash s =
    (case lru_pop lru hash (fst (fst s)) of
       (l, Some e) \<Rightarrow> ((l, snd (fst s) - used_by size_of e), snd s + 1)
     | (l, None) \<Rightarrow> ((l, snd (fst s)), snd s))"

definition shard_evict_expired :: "'l mem_lru \<Rightarrow> nat \<Rightarrow> (u64 \<Rightarrow> nat) \<Rightarrow> 'l \<times> u64 \<Rightarrow> ('l \<times> u64) \<times> nat" where
  "shard_evict_expired lru size_of now c =
    fold (drop_hash lru size_of)
      (map fst (filter (\<lambda>(hash, e). \<not> entry_is_valid (now hash) (me_entry e)) (lru_iter lru (fst c)))) (c, 0)"

text \<open>An operation locks one shard; the counter is shared.\<close>

definition shard_of :: "nat \<Rightarrow> 'l memory_cache \<Rightarrow> 'l \<times> u64" where
  "shard_of i mc = (mc_shards mc ! i, mc_current_memory mc)"

definition with_shard :: "nat \<Rightarrow> 'l \<times> u64 \<Rightarrow> 'l memory_cache \<Rightarrow> 'l memory_cache" where
  "with_shard i c mc = mc\<lparr>mc_shards := (mc_shards mc)[i := fst c], mc_current_memory := snd c\<rparr>"

definition memory_get :: "'l mem_lru \<Rightarrow> nat \<Rightarrow> nat \<Rightarrow> cache_key \<Rightarrow> 'l memory_cache \<Rightarrow> 'l memory_cache \<times> cache_entry option" where
  "memory_get lru size_of now key mc =
    (let i = shard_index (ck_hash key)
     in case shard_get lru size_of now key (shard_of i mc) of (c, r) \<Rightarrow> (with_shard i c mc, r))"

definition memory_insert ::
    "'l mem_lru \<Rightarrow> nat \<Rightarrow> cache_key \<Rightarrow> cache_entry \<Rightarrow> 'l memory_cache \<Rightarrow> ('l memory_cache \<times> bool) option" where
  "memory_insert lru size_of key entry mc =
    (if entry_memory_usage size_of entry > mc_max_memory mc then Some (mc, False)
     else
       let i = shard_index (ck_hash key)
       in map_option (\<lambda>(c, ok). (with_shard i c mc, ok)) (shard_insert lru size_of (mc_max_memory mc) key entry (shard_of i mc)))"

definition memory_remove :: "'l mem_lru \<Rightarrow> nat \<Rightarrow> cache_key \<Rightarrow> 'l memory_cache \<Rightarrow> 'l memory_cache \<times> cache_entry option" where
  "memory_remove lru size_of key mc =
    (let i = shard_index (ck_hash key)
     in case shard_remove lru size_of key (shard_of i mc) of (c, r) \<Rightarrow> (with_shard i c mc, r))"

definition memory_len :: "'l mem_lru \<Rightarrow> 'l memory_cache \<Rightarrow> nat" where
  "memory_len lru mc = sum_list (map (\<lambda>l. length (lru_iter lru l)) (mc_shards mc))"

definition memory_evict_expired :: "'l mem_lru \<Rightarrow> nat \<Rightarrow> (u64 \<Rightarrow> nat) \<Rightarrow> 'l memory_cache \<Rightarrow> 'l memory_cache \<times> nat" where
  "memory_evict_expired lru size_of now mc =
    fold (\<lambda>i (mc, evicted).
        case shard_evict_expired lru size_of now (shard_of i mc) of (c, n) \<Rightarrow> (with_shard i c mc, evicted + n))
      [0..<length (mc_shards mc)] (mc, 0)"

definition memory_clear :: "'l mem_lru \<Rightarrow> 'l memory_cache \<Rightarrow> 'l memory_cache" where
  "memory_clear lru mc = mc\<lparr>mc_shards := map (lru_clear lru) (mc_shards mc), mc_current_memory := 0\<rparr>"

section \<open>Accounting of one shard\<close>

definition sum_used :: "nat \<Rightarrow> (u64 \<times> memory_cache_entry) list \<Rightarrow> nat" where
  "sum_used size_of es = sum_list (map (\<lambda>e. entry_memory_usage size_of (me_entry (snd e))) es)"

lemma sum_used_simps [simp]:
  "sum_used size_of [] = 0"
  "sum_used size_of (e # es) = entry_memory_usage size_of (me_entry (snd e)) + sum_used size_of es"
  "sum_used size_of (es @ es') = sum_used size_of es + sum_used size_of es'"
  by (simp_all add: sum_used_def)

lemma without_absent: "map_of es k = None \<Longrightarrow> without k es = es"
  by (induction es) (auto simp: without_def)

lemma sum_used_without:
  "distinct (map fst es) \<Longrightarrow> map_of es k = Some e \<Longrightarrow>
    sum_used size_of (without k es) + entry_memory_usage size_of (me_entry e) = sum_used size_of es"
proof (induction es)
  case (Cons x es)
  show ?case
  proof (cases "fst x = k")
    case True
    with Cons.prems have "map_of es k = None" by (simp add: map_of_eq_None_iff)
    with True Cons.prems show ?thesis using without_absent [of es k] by (cases x) (simp add: without_def)
  next
    case False
    with Cons show ?thesis by (cases x) (simp add: without_def)
  qed
qed simp

lemma sum_used_to_front: "distinct (map fst es) \<Longrightarrow> sum_used size_of (to_front k es) = sum_used size_of es"
  using sum_used_without [of es k] by (cases "map_of es k") (simp_all add: to_front_def add.commute)

lemma sum_used_butlast:
  "es \<noteq> [] \<Longrightarrow> sum_used size_of (butlast es) + entry_memory_usage size_of (me_entry (snd (last es))) = sum_used size_of es"
  by (induction es rule: rev_induct) auto

locale mem_shard = lru_contract lru usable
  for lru :: "('l, memory_cache_entry) lru" and usable :: "'l \<Rightarrow> bool" +
  fixes size_of :: nat
begin

abbreviation shard_used :: "'l \<Rightarrow> nat" where
  "shard_used l \<equiv> sum_used size_of (lru_iter lru l)"

text \<open>\<open>other\<close> is what the other shards use.\<close>

definition accounted :: "nat \<Rightarrow> nat \<Rightarrow> 'l \<times> u64 \<Rightarrow> bool" where
  "accounted other mx c \<longleftrightarrow> usable (fst c) \<and> snd c = of_nat (other + shard_used (fst c)) \<and> other + shard_used (fst c) \<le> mx"

lemma accounted_get:
  "accounted other mx (l, cur) \<Longrightarrow> lru_get lru k l = (l', r) \<Longrightarrow> accounted other mx (l', cur)"
  using get [of l k l' r] one_entry [of l] by (simp add: accounted_def sum_used_to_front)

lemma accounted_pop:
  assumes "accounted other mx (l, cur)" "lru_pop lru k l = (l', r)"
  shows "accounted other mx (l', case r of Some e \<Rightarrow> cur - used_by size_of e | None \<Rightarrow> cur)"
proof -
  from assms have u: "usable l" by (simp add: accounted_def)
  note p = pop [OF u assms(2)]
  show ?thesis
  proof (cases r)
    case None
    with p assms(1) show ?thesis using without_absent [of "lru_iter lru l" k] by (simp add: accounted_def)
  next
    case (Some e)
    with p have "shard_used l' + entry_memory_usage size_of (me_entry e) = shard_used l"
      using sum_used_without [OF one_entry [OF u], of k e] by simp
    moreover from this have "of_nat (other + shard_used l) = of_nat (other + shard_used l') + used_by size_of e"
      by (metis ab_semigroup_add_class.add_ac(1) of_nat_add)
    ultimately show ?thesis using Some p assms(1) by (simp add: accounted_def)
  qed
qed

lemma accounted_pop_lru:
  assumes "accounted other mx (l, cur)" "lru_pop_lru lru l = (l', r)"
  shows "case r of Some (h, e) \<Rightarrow> accounted other mx (l', cur - used_by size_of e) \<and> length (lru_iter lru l') < length (lru_iter lru l)
    | None \<Rightarrow> accounted other mx (l', cur) \<and> lru_iter lru l = []"
proof -
  from assms have u: "usable l" by (simp add: accounted_def)
  note p = pop_lru [OF u assms(2)]
  show ?thesis
  proof (cases "lru_iter lru l = []")
    case True
    with p assms(1) show ?thesis by (simp add: accounted_def)
  next
    case False
    obtain h e where last: "last (lru_iter lru l) = (h, e)" by (cases "last (lru_iter lru l)")
    with p False have "shard_used l' + entry_memory_usage size_of (me_entry e) = shard_used l"
      using sum_used_butlast [OF False, of size_of] by simp
    moreover from this have "of_nat (other + shard_used l) = of_nat (other + shard_used l') + used_by size_of e"
      by (metis ab_semigroup_add_class.add_ac(1) of_nat_add)
    ultimately show ?thesis using False last p assms(1) by (simp add: accounted_def)
  qed
qed

lemma accounted_put:
  assumes "usable l" "length (lru_iter lru l) < lru_cap lru l \<or> map_of (lru_iter lru l) k \<noteq> None"
    and "lru_put lru k v l = (l', r)" "cur = of_nat (other + shard_used l)"
    and "other + shard_used l + entry_memory_usage size_of (me_entry v) \<le> mx"
  shows "accounted other mx (l', case r of Some old \<Rightarrow> cur + used_by size_of v - used_by size_of old | None \<Rightarrow> cur + used_by size_of v)"
proof -
  note p = put [OF assms(1,3)]
  from assms(2) have it: "lru_iter lru l' = (k, v) # without k (lru_iter lru l)" using p by (auto simp: put_front_def)
  have sh: "shard_used l' = entry_memory_usage size_of (me_entry v) + sum_used size_of (without k (lru_iter lru l))"
    by (simp add: it)
  have u: "usable l'" and r: "r = map_of (lru_iter lru l) k" using p by blast+
  show ?thesis
  proof (cases r)
    case None
    then have "without k (lru_iter lru l) = lru_iter lru l" using r without_absent by metis
    with None u sh assms(4,5) show ?thesis by (simp add: accounted_def algebra_simps)
  next
    case (Some e)
    then have s: "sum_used size_of (without k (lru_iter lru l)) + entry_memory_usage size_of (me_entry e) = shard_used l"
      using r sum_used_without [OF one_entry [OF assms(1)], of k e] by simp
    then have "(of_nat (shard_used l) :: u64) = of_nat (sum_used size_of (without k (lru_iter lru l))) + used_by size_of e"
      by (metis of_nat_add)
    with Some u sh s assms(4,5) show ?thesis by (simp add: accounted_def algebra_simps)
  qed
qed

lemma accounted_shard_get:
  assumes "accounted other mx c"
  shows "accounted other mx (fst (shard_get lru size_of now key c))"
proof -
  obtain l cur where c: "c = (l, cur)" by (cases c)
  obtain l' r where g: "lru_get lru (ck_hash key) l = (l', r)" by (cases "lru_get lru (ck_hash key) l")
  have a: "accounted other mx (l', cur)" using accounted_get assms g c by blast
  obtain l2 r2 where p: "lru_pop lru (ck_hash key) l' = (l2, r2)" by (cases "lru_pop lru (ck_hash key) l'")
  show ?thesis using a accounted_pop [OF a p] by (simp add: shard_get_def c g p split: option.splits)
qed

lemma accounted_shard_remove:
  assumes "accounted other mx c"
  shows "accounted other mx (fst (shard_remove lru size_of key c))"
proof -
  obtain l cur where c: "c = (l, cur)" by (cases c)
  then have u: "usable l" using assms by (simp add: accounted_def)
  let ?k = "ck_hash key"
  obtain l' r where p: "lru_pop lru ?k l = (l', r)" by (cases "lru_pop lru ?k l")
  note a = accounted_pop [OF assms [unfolded c] p]
  show ?thesis
  proof (cases r)
    case None
    with a show ?thesis by (simp add: shard_remove_def c p)
  next
    case (Some e)
    note q = pop [OF u p]
    have m: "map_of (lru_iter lru l) ?k = Some e" using q Some by auto
    obtain l2 r2 where put_eq: "lru_put lru ?k e l' = (l2, r2)" by (cases "lru_put lru ?k e l'")
    have absent: "map_of (lru_iter lru l') ?k = None" using q keys_without [of ?k "lru_iter lru l"] by (simp add: map_of_eq_None_iff)
    have room: "length (lru_iter lru l') < lru_cap lru l'"
      using q m length_without_less [of "lru_iter lru l" ?k] within_cap [OF u] by simp
    have less: "shard_used l' + entry_memory_usage size_of (me_entry e) = shard_used l"
      using q Some sum_used_without [OF one_entry [OF u], of ?k e] by simp
    have u': "usable l'" and cur: "cur - used_by size_of e = of_nat (other + shard_used l')"
      using a Some by (simp_all add: accounted_def)
    have bound: "other + shard_used l' + entry_memory_usage size_of (me_entry e) \<le> mx"
      using less assms c by (simp add: accounted_def)
    have "r2 = None" using put [OF u' put_eq] absent by simp
    with accounted_put [OF u' disjI1 [OF room] put_eq cur bound]
    have "accounted other mx (l2, cur)" by simp
    with a Some show ?thesis by (simp add: shard_remove_def c p put_eq)
  qed
qed

lemma no_wrap:
  assumes "accounted other mx c" "memory \<le> mx" "mx < 9223372036854775808"
  shows "unat (snd c + of_nat memory) = other + shard_used (fst c) + memory"
proof -
  have "other + shard_used (fst c) + memory < 18446744073709551616" using assms by (simp add: accounted_def)
  then have "unat (of_nat (other + shard_used (fst c) + memory) :: u64) = other + shard_used (fst c) + memory"
    by (simp add: unat_of_nat del: of_nat_add)
  with assms(1) show ?thesis by (simp add: accounted_def)
qed

lemma evict_for_returns:
  assumes "accounted other mx c" "memory \<le> mx" "mx < 9223372036854775808"
  shows "\<exists>c'. evict_for lru size_of memory mx c = Some c' \<and> accounted other mx c'"
  using assms(1)
proof (induction "length (lru_iter lru (fst c))" arbitrary: c rule: less_induct)
  case less
  obtain l cur where c: "c = (l, cur)" by (cases c)
  obtain l' r where p: "lru_pop_lru lru l = (l', r)" by (cases "lru_pop_lru lru l")
  note a = accounted_pop_lru [OF less.prems [unfolded c] p]
  show ?case
  proof (cases "unat (cur + of_nat memory) > mx")
    case False
    then show ?thesis using less.prems by (subst evict_for.simps) (simp add: c)
  next
    case True
    show ?thesis
    proof (cases r)
      case None
      with True a show ?thesis by (subst evict_for.simps) (simp add: c p)
    next
      case (Some he)
      obtain h e where he: "he = (h, e)" by (cases he)
      with Some a less.hyps [of "(l', cur - used_by size_of e)"] c
      obtain c' where "evict_for lru size_of memory mx (l', cur - used_by size_of e) = Some c'" "accounted other mx c'" by auto
      with True Some he show ?thesis by (subst evict_for.simps) (simp add: c p)
    qed
  qed
qed

lemma make_room_accounted:
  assumes "accounted other mx c"
  shows "accounted other mx (make_room lru size_of h c)"
    and "shard_used (fst (make_room lru size_of h c)) \<le> shard_used (fst c)"
    and "length (lru_iter lru (fst (make_room lru size_of h c))) < lru_cap lru (fst (make_room lru size_of h c))
      \<or> map_of (lru_iter lru (fst (make_room lru size_of h c))) h \<noteq> None"
proof -
  obtain l cur where c: "c = (l, cur)" by (cases c)
  then have u: "usable l" using assms by (simp add: accounted_def)
  obtain l' r where p: "lru_pop_lru lru l = (l', r)" by (cases "lru_pop_lru lru l")
  note a = accounted_pop_lru [OF assms [unfolded c] p] and q = pop_lru [OF u p]
  have le: "shard_used l' \<le> shard_used l"
    using q sum_used_butlast [of "lru_iter lru l" size_of] by (cases "lru_iter lru l = []") auto
  have room: "length (lru_iter lru l') < lru_cap lru l'" using q within_cap [OF u] cap_pos [OF u] by auto
  show "accounted other mx (make_room lru size_of h c)"
    using a assms by (auto simp: make_room_def c p split: option.splits)
  show "shard_used (fst (make_room lru size_of h c)) \<le> shard_used (fst c)"
    using le by (auto simp: make_room_def c p split: option.splits)
  show "length (lru_iter lru (fst (make_room lru size_of h c))) < lru_cap lru (fst (make_room lru size_of h c))
      \<or> map_of (lru_iter lru (fst (make_room lru size_of h c))) h \<noteq> None"
    using room by (auto simp: make_room_def c p split: option.splits)
qed

lemma shard_insert_returns:
  assumes "accounted other mx c" "entry_memory_usage size_of entry \<le> mx" "mx < 9223372036854775808"
  shows "\<exists>c' ok. shard_insert lru size_of mx key entry c = Some (c', ok) \<and> accounted other mx c'"
proof -
  let ?m = "entry_memory_usage size_of entry" and ?h = "ck_hash key" and ?e = "\<lparr>me_key = key, me_entry = entry\<rparr>"
  obtain c1 where ev: "evict_for lru size_of ?m mx c = Some c1" and a1: "accounted other mx c1"
    using evict_for_returns [OF assms] by blast
  let ?c2 = "make_room lru size_of ?h c1"
  note a2 = make_room_accounted [OF a1, of ?h]
  obtain l r where put_eq: "lru_put lru ?h ?e (fst ?c2) = (l, r)" by (cases "lru_put lru ?h ?e (fst ?c2)")
  show ?thesis
  proof (cases "unat (snd c1 + of_nat ?m) > mx")
    case True
    with ev have "shard_insert lru size_of mx key entry c = Some (c1, False)" by (simp add: shard_insert_def)
    with a1 show ?thesis by blast
  next
    case False
    then have "other + shard_used (fst ?c2) + ?m \<le> mx" using no_wrap [OF a1 assms(2,3)] a2(2) by simp
    from accounted_put [OF _ a2(3) put_eq, of "snd ?c2" other mx] this a2(1)
    have "accounted other mx (l, case r of Some old \<Rightarrow> snd ?c2 + of_nat ?m - used_by size_of old | None \<Rightarrow> snd ?c2 + of_nat ?m)"
      by (cases r) (simp_all add: accounted_def)
    with False ev put_eq show ?thesis by (cases r) (simp_all add: shard_insert_def Let_def ex_bool_eq)
  qed
qed

lemma accounted_drop: "accounted other mx (fst s) \<Longrightarrow> accounted other mx (fst (drop_hash lru size_of h s))"
  using accounted_pop [of other mx "fst (fst s)" "snd (fst s)" h]
  by (cases "lru_pop lru h (fst (fst s))") (auto simp: drop_hash_def split: option.splits)

lemma accounted_evict_expired:
  assumes "accounted other mx c"
  shows "accounted other mx (fst (shard_evict_expired lru size_of now c))"
proof -
  have "accounted other mx (fst (fold (drop_hash lru size_of) hs s))" if "accounted other mx (fst s)" for hs s
    using that
  proof (induction hs arbitrary: s)
    case (Cons h hs)
    from Cons.IH [OF accounted_drop [OF Cons.prems]] show ?case by simp
  qed simp
  with assms show ?thesis by (simp add: shard_evict_expired_def)
qed

text \<open>The whole cache: the counter is the sum over the shards and within the limit.\<close>

definition total :: "'l memory_cache \<Rightarrow> nat" where
  "total mc = sum_list (map shard_used (mc_shards mc))"

definition mem_inv :: "'l memory_cache \<Rightarrow> bool" where
  "mem_inv mc \<longleftrightarrow> length (mc_shards mc) = SHARD_COUNT \<and> (\<forall>l \<in> set (mc_shards mc). usable l)
    \<and> mc_current_memory mc = of_nat (total mc) \<and> total mc \<le> mc_max_memory mc \<and> mc_max_memory mc < 9223372036854775808"

definition others :: "nat \<Rightarrow> 'l memory_cache \<Rightarrow> nat" where
  "others i mc = total mc - shard_used (mc_shards mc ! i)"

lemma total_split:
  assumes "i < length (mc_shards mc)"
  shows "total mc = others i mc + shard_used (mc_shards mc ! i)"
proof -
  have "shard_used (mc_shards mc ! i) \<le> total mc"
    unfolding total_def using assms by (intro member_le_sum_list) auto
  then show ?thesis by (simp add: others_def)
qed

lemma shard_accounted:
  assumes "mem_inv mc" "i < SHARD_COUNT"
  shows "accounted (others i mc) (mc_max_memory mc) (shard_of i mc)"
  using assms total_split [of i mc] by (simp add: mem_inv_def accounted_def shard_of_def)

lemma inv_with_shard:
  assumes "mem_inv mc" "i < SHARD_COUNT" "accounted (others i mc) (mc_max_memory mc) c"
  shows "mem_inv (with_shard i c mc)"
proof -
  have i: "i < length (mc_shards mc)" using assms by (simp add: mem_inv_def)
  have "sum_list ((map shard_used (mc_shards mc))[i := shard_used (fst c)]) =
      total mc + shard_used (fst c) - shard_used (mc_shards mc ! i)"
    using i by (simp add: sum_list_update total_def)
  then have t: "total (with_shard i c mc) = others i mc + shard_used (fst c)"
    using total_split [OF i] by (simp add: total_def with_shard_def map_update)
  have "\<forall>l \<in> set (mc_shards (with_shard i c mc)). usable l"
    using assms set_update_subset_insert [of "mc_shards mc" i "fst c"] by (auto simp: mem_inv_def with_shard_def accounted_def)
  then show ?thesis using assms t unfolding mem_inv_def accounted_def by (simp add: with_shard_def)
qed

lemma shard_index_bound: "shard_index h < SHARD_COUNT"
proof -
  have "h AND 15 \<le> (15 :: u64)" by (rule word_and_le1)
  then show ?thesis by (simp add: shard_index_def SHARD_COUNT_def word_le_nat_alt)
qed

lemma inv_get: "mem_inv mc \<Longrightarrow> mem_inv (fst (memory_get lru size_of now key mc))"
  using accounted_shard_get [OF shard_accounted [OF _ shard_index_bound], of mc "ck_hash key" now key]
    inv_with_shard [OF _ shard_index_bound]
  by (simp add: memory_get_def Let_def case_prod_beta)

lemma inv_remove: "mem_inv mc \<Longrightarrow> mem_inv (fst (memory_remove lru size_of key mc))"
  using accounted_shard_remove [OF shard_accounted [OF _ shard_index_bound], of mc "ck_hash key" key]
    inv_with_shard [OF _ shard_index_bound]
  by (simp add: memory_remove_def Let_def case_prod_beta)

lemma inv_insert:
  assumes "mem_inv mc"
  shows "\<exists>mc' ok. memory_insert lru size_of key entry mc = Some (mc', ok) \<and> mem_inv mc'"
proof (cases "entry_memory_usage size_of entry > mc_max_memory mc")
  case True
  with assms show ?thesis by (simp add: memory_insert_def ex_bool_eq)
next
  case False
  let ?i = "shard_index (ck_hash key)"
  have "mc_max_memory mc < 9223372036854775808" using assms by (simp add: mem_inv_def)
  from shard_insert_returns [where key = key and entry = entry, OF shard_accounted [OF assms shard_index_bound [of "ck_hash key"]] _ this] False
  obtain c ok where "shard_insert lru size_of (mc_max_memory mc) key entry (shard_of ?i mc) = Some (c, ok)"
    "accounted (others ?i mc) (mc_max_memory mc) c" by auto
  with False inv_with_shard [OF assms shard_index_bound, of "ck_hash key" c] show ?thesis
    by (cases ok) (simp_all add: memory_insert_def ex_bool_eq)
qed

lemma inv_evict_expired:
  assumes "mem_inv mc"
  shows "mem_inv (fst (memory_evict_expired lru size_of now mc))"
proof -
  let ?step = "\<lambda>i (mc, evicted).
    case shard_evict_expired lru size_of now (shard_of i mc) of (c, n) \<Rightarrow> (with_shard i c mc, evicted + n)"
  have "mem_inv (fst (fold ?step is s))" if "\<forall>i \<in> set is. i < SHARD_COUNT" "mem_inv (fst s)" for "is" and s :: "'l memory_cache \<times> nat"
    using that
  proof (induction "is" arbitrary: s)
    case (Cons i "is")
    have "mem_inv (fst (?step i s))"
      using accounted_evict_expired [OF shard_accounted [of "fst s" i], of now] inv_with_shard [of "fst s" i] Cons.prems
      by (cases s) (auto split: prod.splits)
    from Cons.IH [OF _ this] Cons.prems(1) show ?case by simp
  qed simp
  from this [of "[0..<length (mc_shards mc)]" "(mc, 0)"] assms show ?thesis
    unfolding memory_evict_expired_def by (simp add: mem_inv_def [of mc])
qed

lemma inv_clear: "mem_inv mc \<Longrightarrow> mem_inv (memory_clear lru mc)"
proof -
  assume inv: "mem_inv mc"
  then have "map (shard_used \<circ> lru_clear lru) (mc_shards mc) = map (\<lambda>_. 0) (mc_shards mc)"
    using clear by (intro map_cong) (auto simp: mem_inv_def)
  then have "total (memory_clear lru mc) = 0" by (simp add: total_def memory_clear_def)
  with inv clear show ?thesis unfolding mem_inv_def by (simp add: memory_clear_def)
qed

lemma inv_new: "max_memory < 9223372036854775808 \<Longrightarrow> mem_inv (memory_cache_new lru now n max_memory)"
  by (simp add: mem_inv_def memory_cache_new_def total_def SHARD_COUNT_def sum_list_replicate iter_new usable_new Let_def)

end

interpretation listed_memory: mem_shard list_lru list_usable size_of for size_of
  by unfold_locales

section \<open>Sequences of operations\<close>

datatype mem_op =
    MemGet nat cache_key
  | MemInsert cache_key cache_entry
  | MemRemove cache_key
  | MemEvictExpired "u64 \<Rightarrow> nat"
  | MemClear

fun mem_apply :: "'l mem_lru \<Rightarrow> nat \<Rightarrow> mem_op \<Rightarrow> 'l memory_cache \<Rightarrow> 'l memory_cache option" where
  "mem_apply lru size_of (MemGet now key) mc = Some (fst (memory_get lru size_of now key mc))"
| "mem_apply lru size_of (MemInsert key entry) mc = map_option fst (memory_insert lru size_of key entry mc)"
| "mem_apply lru size_of (MemRemove key) mc = Some (fst (memory_remove lru size_of key mc))"
| "mem_apply lru size_of (MemEvictExpired now) mc = Some (fst (memory_evict_expired lru size_of now mc))"
| "mem_apply lru size_of MemClear mc = Some (memory_clear lru mc)"

fun mem_run :: "'l mem_lru \<Rightarrow> nat \<Rightarrow> mem_op list \<Rightarrow> 'l memory_cache \<Rightarrow> 'l memory_cache option" where
  "mem_run lru size_of [] mc = Some mc"
| "mem_run lru size_of (op # ops) mc = Option.bind (mem_apply lru size_of op mc) (mem_run lru size_of ops)"

definition memory_held :: "'l mem_lru \<Rightarrow> nat \<Rightarrow> 'l memory_cache \<Rightarrow> nat" where
  "memory_held lru size_of mc = sum_list (map (\<lambda>l. sum_used size_of (lru_iter lru l)) (mc_shards mc))"

lemma max_memory_kept:
  "mc_max_memory (with_shard i c mc) = mc_max_memory mc"
  "mc_max_memory (fst (memory_evict_expired lru size_of now mc)) = mc_max_memory mc"
proof -
  let ?step = "\<lambda>i (mc, evicted).
    case shard_evict_expired lru size_of now (shard_of i mc) of (c, n) \<Rightarrow> (with_shard i c mc, evicted + n)"
  show w: "mc_max_memory (with_shard i c mc) = mc_max_memory mc" for i c mc by (simp add: with_shard_def)
  have "mc_max_memory (fst (fold ?step is s)) = mc_max_memory (fst s)" for "is" and s :: "'a memory_cache \<times> nat"
    by (induction "is" arbitrary: s) (auto simp: w split: prod.splits)
  then show "mc_max_memory (fst (memory_evict_expired lru size_of now mc)) = mc_max_memory mc"
    by (simp add: memory_evict_expired_def)
qed

lemma apply_keeps_max: "mem_apply lru size_of op mc = Some mc' \<Longrightarrow> mc_max_memory mc' = mc_max_memory mc"
  by (cases op) (auto simp: memory_get_def memory_insert_def memory_remove_def memory_clear_def max_memory_kept Let_def
      split: prod.splits if_splits)

context mem_shard
begin

lemma inv_apply: "mem_inv mc \<Longrightarrow> \<exists>mc'. mem_apply lru size_of op mc = Some mc' \<and> mem_inv mc'"
  using inv_get inv_remove inv_evict_expired inv_clear inv_insert [of mc] by (cases op) auto

lemma inv_run: "mem_inv mc \<Longrightarrow> \<exists>mc'. mem_run lru size_of ops mc = Some mc' \<and> mem_inv mc' \<and> mc_max_memory mc' = mc_max_memory mc"
proof (induction ops arbitrary: mc)
  case (Cons op ops)
  from inv_apply [OF Cons.prems, of op] obtain mc1 where a: "mem_apply lru size_of op mc = Some mc1" "mem_inv mc1" by blast
  from Cons.IH [OF a(2)] apply_keeps_max [OF a(1)] a(1) show ?case by auto
qed simp

lemma inv_counter:
  assumes "mem_inv mc"
  shows "unat (mc_current_memory mc) = memory_held lru size_of mc" "memory_held lru size_of mc \<le> mc_max_memory mc"
proof -
  have t: "total mc = memory_held lru size_of mc" by (simp add: total_def memory_held_def)
  then show "memory_held lru size_of mc \<le> mc_max_memory mc" using assms by (simp add: mem_inv_def)
  have "total mc < 18446744073709551616" using assms by (simp add: mem_inv_def)
  then show "unat (mc_current_memory mc) = memory_held lru size_of mc" using assms t by (simp add: mem_inv_def unat_of_nat)
qed

end

text \<open>C42: The memory cache never holds more than its limit, and its counter never drifts.  For every
  LRU cache with the documented behaviour and every sequence of lookups, insertions, removals,
  evictions and clearings, with any keys (also with colliding hashes), entries and times: every
  operation ends, the counter is exactly the memory of the entries held, and it is within
  \<open>max_memory\<close>.\<close>

theorem memory_cache_bounded:
  assumes "lru_contract lru usable" "max_memory < 9223372036854775808"
  shows "\<exists>mc. mem_run lru size_of ops (memory_cache_new lru now max_entries max_memory) = Some mc
    \<and> unat (mc_current_memory mc) = memory_held lru size_of mc \<and> memory_held lru size_of mc \<le> max_memory"
proof -
  have m: "mem_shard lru usable" using assms(1) by (simp add: mem_shard_def)
  let ?new = "memory_cache_new lru now max_entries max_memory"
  have "mc_max_memory ?new = max_memory" by (simp add: memory_cache_new_def Let_def)
  with mem_shard.inv_run [OF m mem_shard.inv_new [OF m assms(2), of size_of now max_entries], of ops]
  obtain mc where r: "mem_run lru size_of ops ?new = Some mc" "mem_shard.mem_inv lru usable size_of mc"
    "mc_max_memory mc = max_memory" by auto
  from mem_shard.inv_counter [OF m r(2)] r show ?thesis by auto
qed

theorem memory_cache_bounded_witness:
  "let key = cache_key_new (\<lambda>_. 5) CmGet (ascii ''a.org'') (ascii ''/''); entry = cache_entry_new 0 200 [] (StoredInMemory [1, 2, 3]) 60
   in \<exists>mc. mem_run list_lru 100 [MemInsert (key None) entry, MemInsert (key (Some [])) entry, MemGet 0 (key None)]
        (memory_cache_new list_lru 0 64 150) = Some mc
      \<and> unat (mc_current_memory mc) = memory_held list_lru 100 mc \<and> memory_held list_lru 100 mc \<le> 150"
  unfolding Let_def by (rule memory_cache_bounded [OF listed_lru.lru_contract_axioms]) simp

end
